(* ===== verification/Mesh_Prelude.thy ===== *)
theory Mesh_Prelude
  imports Main "HOL-Library.List_Lexorder" "HOL-Library.Char_ord" "HOL-Library.Product_Lexorder"
    "HOL-Library.Option_ord" "HOL-Library.Multiset"
begin

text \<open>
  Shared vocabulary of the g-mesh development.

  \<^item> A Rust \<^verbatim>\<open>String\<close> is its UTF-8 bytes: a \<^typ>\<open>string\<close> is a list of bytes, so \<^verbatim>\<open>len()\<close>
    is \<^const>\<open>length\<close>, and the order of \<^verbatim>\<open>List_Lexorder\<close> over \<^verbatim>\<open>Char_ord\<close> is the byte order
    that both Rust's \<^verbatim>\<open>Ord for str\<close> and SQLite's BINARY collation use.
  \<^item> A \<^verbatim>\<open>HashSet\<close> used only for membership is a list tested with \<^const>\<open>set\<close>; a
    \<^verbatim>\<open>BTreeSet\<close> is the sorted list without repetition that \<open>btree_set\<close> returns.
  \<^item> A fallible function returns a sum, \<^const>\<open>Inl\<close> with the error.
  \<^item> A SQL table is the list of its rows with a primary key; \<open>upsert_by\<close>, \<open>insert_ignore_by\<close>
    and \<open>delete_by\<close> are the three statements the code issues. The locale \<open>keyed_table\<close> states
    the laws a caller of those statements uses.
\<close>

named_theorems str_simps \<open>string operations as append and length facts\<close>
named_theorems table_simps \<open>effect of the table statements on the stored rows\<close>

section \<open>Strings\<close>

fun strip_prefix :: "'a list \<Rightarrow> 'a list \<Rightarrow> 'a list option" where
  "strip_prefix [] s = Some s"
| "strip_prefix (p # ps) [] = None"
| "strip_prefix (p # ps) (x # xs) = (if p = x then strip_prefix ps xs else None)"

definition starts_with :: "'a list \<Rightarrow> 'a list \<Rightarrow> bool" where
  "starts_with s p = (strip_prefix p s \<noteq> None)"

definition trim_end_matches :: "('a \<Rightarrow> bool) \<Rightarrow> 'a list \<Rightarrow> 'a list" where
  "trim_end_matches P s = rev (dropWhile P (rev s))"

fun split_on :: "'a \<Rightarrow> 'a list \<Rightarrow> 'a list list" where
  "split_on c [] = [[]]"
| "split_on c (x # xs) =
     (if x = c then [] # split_on c xs
      else (case split_on c xs of [] \<Rightarrow> [[x]] | y # ys \<Rightarrow> (x # y) # ys))"

fun join_with :: "'a list \<Rightarrow> 'a list list \<Rightarrow> 'a list" where
  "join_with sep [] = []"
| "join_with sep [x] = x"
| "join_with sep (x # xs) = x @ sep @ join_with sep xs"

definition btree_set :: "'a::linorder list \<Rightarrow> 'a list" where
  "btree_set xs = sort (remdups xs)"

lemma strip_prefix_Some_iff [str_simps]: "strip_prefix p s = Some r \<longleftrightarrow> s = p @ r"
  by (induction p s rule: strip_prefix.induct) auto

lemma strip_prefix_append [simp]: "strip_prefix p (p @ r) = Some r"
  by (simp add: str_simps)

lemma strip_prefix_self [simp]: "strip_prefix p p = Some []"
  by (simp add: str_simps)

lemma starts_with_iff [str_simps]: "starts_with s p \<longleftrightarrow> (\<exists>r. s = p @ r)"
  by (auto simp: starts_with_def str_simps)

lemma starts_with_Nil [simp]: "starts_with s []"
  by (simp add: str_simps)

lemma split_on_not_Nil [simp]: "split_on c s \<noteq> []"
  by (cases s) (auto split: list.splits)

lemma split_on_no_sep: "c \<notin> set s \<Longrightarrow> split_on c s = [s]"
  by (induction s) auto

lemma split_on_append_sep:
  "c \<notin> set a \<Longrightarrow> split_on c (a @ c # b) = a # split_on c b"
  by (induction a) auto

lemma split_on_append:
  "split_on c (a @ c # b) = split_on c a @ split_on c b"
  by (induction a) (auto split: list.splits)

lemma split_on_join:
  assumes "ps \<noteq> []" and "\<And>p. p \<in> set ps \<Longrightarrow> c \<notin> set p"
  shows "split_on c (join_with [c] ps) = ps"
  using assms
proof (induction "[c]" ps rule: join_with.induct)
  case (3 x y ys)
  then show ?case by (simp add: split_on_append_sep)
qed (auto simp: split_on_no_sep)

lemma join_split_on: "join_with [c] (split_on c s) = s"
proof (induction s)
  case (Cons x xs)
  then show ?case
    by (cases "split_on c xs"; cases "tl (split_on c xs)") auto
qed simp

lemma split_on_parts: "p \<in> set (split_on c s) \<Longrightarrow> c \<notin> set p"
  by (induction s arbitrary: p) (auto split: if_splits list.splits)

lemma trim_end_matches_append [str_simps]:
  "\<exists>t. s = trim_end_matches P s @ t \<and> (\<forall>x\<in>set t. P x)"
proof -
  have "s = rev (dropWhile P (rev s)) @ rev (takeWhile P (rev s))"
    by (metis rev_append rev_rev_ident takeWhile_dropWhile_id)
  then show ?thesis
    unfolding trim_end_matches_def by (metis set_rev set_takeWhileD)
qed

lemma set_btree_set [simp]: "set (btree_set xs) = set xs"
  by (simp add: btree_set_def)

lemma sorted_btree_set [simp]: "sorted (btree_set xs)" "distinct (btree_set xs)"
  by (simp_all add: btree_set_def)

section \<open>Fallible loops\<close>

text \<open>A loop whose body ends in \<^verbatim>\<open>?\<close>: the first error leaves the loop.\<close>

fun try_fold :: "('a \<Rightarrow> 's \<Rightarrow> 'e + 's) \<Rightarrow> 'a list \<Rightarrow> 's \<Rightarrow> 'e + 's" where
  "try_fold f [] s = Inr s"
| "try_fold f (x # xs) s = (case f x s of Inl e \<Rightarrow> Inl e | Inr s' \<Rightarrow> try_fold f xs s')"

lemma try_fold_invariant:
  assumes "try_fold f xs s = Inr t" and "I s"
    and "\<And>x s s'. x \<in> set xs \<Longrightarrow> I s \<Longrightarrow> f x s = Inr s' \<Longrightarrow> I s'"
  shows "I t"
  using assms
proof (induction xs arbitrary: s)
  case (Cons x xs)
  then obtain s' where s': "f x s = Inr s'" and t: "try_fold f xs s' = Inr t"
    by (auto split: sum.splits)
  have "I s'" by (rule Cons.prems(3) [OF _ Cons.prems(2) s']) simp
  then show ?case by (rule Cons.IH [OF t]) (rule Cons.prems(3), auto)
qed simp

lemma fold_invariant_set:
  assumes "I s" and "\<And>x s. x \<in> set xs \<Longrightarrow> I s \<Longrightarrow> I (f x s)"
  shows "I (fold f xs s)"
  using assms by (induction xs arbitrary: s) auto

section \<open>Codecs\<close>

text \<open>
  What a caller of an encoder and its decoder relies on: encoding a valid value and decoding
  the text gives the value back, and a text that decodes is the text of what it decodes to.
\<close>

locale codec =
  fixes enc :: "'a \<Rightarrow> 'b"
    and dec :: "'b \<Rightarrow> 'a option"
    and valid :: "'a \<Rightarrow> bool"
  assumes dec_enc: "valid x \<Longrightarrow> dec (enc x) = Some x"
    and enc_dec: "dec t = Some x \<Longrightarrow> enc x = t"
begin

lemma enc_inj: "valid x \<Longrightarrow> valid y \<Longrightarrow> enc x = enc y \<longleftrightarrow> x = y"
  using dec_enc by (metis option.inject)

lemma dec_inj: "dec t = Some x \<Longrightarrow> dec u = Some x \<Longrightarrow> t = u"
  using enc_dec by blast

lemma stored_key_unique:
  "valid x \<Longrightarrow> dec t = Some y \<Longrightarrow> t = enc x \<longleftrightarrow> y = x"
  using dec_enc enc_dec by (metis option.inject)

end

section \<open>Tables\<close>

definition delete_by :: "('r \<Rightarrow> 'k) \<Rightarrow> 'k \<Rightarrow> 'r list \<Rightarrow> 'r list" where
  "delete_by key k rows = filter (\<lambda>r. key r \<noteq> k) rows"

definition upsert_by :: "('r \<Rightarrow> 'k) \<Rightarrow> ('r \<Rightarrow> 'r \<Rightarrow> 'r) \<Rightarrow> 'r \<Rightarrow> 'r list \<Rightarrow> 'r list" where
  "upsert_by key merge new rows =
     (if key new \<in> set (map key rows)
      then map (\<lambda>old. if key old = key new then merge old new else old) rows
      else rows @ [new])"

definition insert_ignore_by :: "('r \<Rightarrow> 'k) \<Rightarrow> 'r \<Rightarrow> 'r list \<Rightarrow> 'r list" where
  "insert_ignore_by key new rows = (if key new \<in> set (map key rows) then rows else rows @ [new])"

definition select_by :: "('r \<Rightarrow> 'k) \<Rightarrow> 'k \<Rightarrow> 'r list \<Rightarrow> 'r option" where
  "select_by key k rows = find (\<lambda>r. key r = k) rows"

definition keyed :: "('r \<Rightarrow> 'k) \<Rightarrow> 'r list \<Rightarrow> bool" where
  "keyed key rows \<longleftrightarrow> distinct (map key rows)"

lemma delete_by_set [table_simps]: "set (delete_by key k rows) = {r \<in> set rows. key r \<noteq> k}"
  by (auto simp: delete_by_def)

lemma keyed_filter: "keyed key rows \<Longrightarrow> keyed key (filter P rows)"
  by (simp add: keyed_def distinct_map_filter)

lemma keyed_delete_by [simp]: "keyed key rows \<Longrightarrow> keyed key (delete_by key k rows)"
  by (simp add: delete_by_def keyed_filter)

lemma keyed_Nil [simp]: "keyed key []"
  by (simp add: keyed_def)

lemma keyed_inj: "keyed key rows \<Longrightarrow> r \<in> set rows \<Longrightarrow> q \<in> set rows \<Longrightarrow> key r = key q \<Longrightarrow> r = q"
  by (auto simp: keyed_def distinct_map inj_on_def)

lemma keyed_distinct: "keyed key rows \<Longrightarrow> distinct rows"
  by (simp add: keyed_def distinct_map)

lemma keyed_insert_ignore_by [simp]:
  "keyed key rows \<Longrightarrow> keyed key (insert_ignore_by key new rows)"
  by (auto simp: insert_ignore_by_def keyed_def)

lemma insert_ignore_by_set [table_simps]:
  "set (insert_ignore_by key new rows) =
     (if \<exists>r\<in>set rows. key r = key new then set rows else insert new (set rows))"
  by (auto simp: insert_ignore_by_def image_iff)

lemma keyed_map:
  "keyed key rows \<Longrightarrow> (\<And>r. r \<in> set rows \<Longrightarrow> key (f r) = key r) \<Longrightarrow> keyed key (map f rows)"
proof -
  assume k: "keyed key rows" and f: "\<And>r. r \<in> set rows \<Longrightarrow> key (f r) = key r"
  have "map key (map f rows) = map key rows" using f by simp
  with k show ?thesis by (simp only: keyed_def)
qed

lemma select_by_Some:
  "keyed key rows \<Longrightarrow> select_by key k rows = Some r \<longleftrightarrow> r \<in> set rows \<and> key r = k"
proof -
  assume k: "keyed key rows"
  show ?thesis
  proof
    assume "select_by key k rows = Some r"
    then show "r \<in> set rows \<and> key r = k"
      by (auto simp: select_by_def find_Some_iff)
  next
    assume r: "r \<in> set rows \<and> key r = k"
    then obtain q where q: "select_by key k rows = Some q"
      unfolding select_by_def by (cases "find (\<lambda>r. key r = k) rows") (auto simp: find_None_iff)
    then have "q \<in> set rows \<and> key q = k"
      by (auto simp: select_by_def find_Some_iff)
    with r keyed_inj [OF k] have "q = r" by metis
    with q show "select_by key k rows = Some r" by simp
  qed
qed

lemma select_by_None: "select_by key k rows = None \<longleftrightarrow> (\<forall>r\<in>set rows. key r \<noteq> k)"
  by (auto simp: select_by_def find_None_iff)

lemma select_by_filter:
  "(\<And>r. key r = k \<Longrightarrow> P r) \<Longrightarrow> select_by key k (filter P rows) = select_by key k rows"
  by (induction rows) (auto simp: select_by_def)

text \<open>
  The contract of a table with a primary key and an upsert whose update clause leaves the key
  alone: every statement keeps the key unique, and a lookup after a statement is determined by
  the statement and the lookup before it.
\<close>

locale keyed_table =
  fixes key :: "'r \<Rightarrow> 'k"
    and merge :: "'r \<Rightarrow> 'r \<Rightarrow> 'r"
  assumes merge_key: "key old = key new \<Longrightarrow> key (merge old new) = key new"
begin

lemma keyed_upsert: "keyed key rows \<Longrightarrow> keyed key (upsert_by key merge new rows)"
  unfolding upsert_by_def
  by (auto intro!: keyed_map simp: merge_key) (auto simp: keyed_def)

lemma upsert_set:
  "set (upsert_by key merge new rows) =
     {r \<in> set rows. key r \<noteq> key new} \<union>
     (if \<exists>r\<in>set rows. key r = key new
      then {merge old new | old. old \<in> set rows \<and> key old = key new} else {new})"
  by (auto simp: upsert_by_def image_iff)

lemma upsert_keys: "key ` set (upsert_by key merge new rows) = insert (key new) (key ` set rows)"
proof (cases "key new \<in> key ` set rows")
  case True
  have "(key \<circ> (\<lambda>old. if key old = key new then merge old new else old)) ` set rows = key ` set rows"
    by (rule image_cong) (auto simp: merge_key)
  moreover have "set (upsert_by key merge new rows) =
      (\<lambda>old. if key old = key new then merge old new else old) ` set rows"
    using True by (simp add: upsert_by_def)
  ultimately show ?thesis using True by (simp only: image_comp insert_absorb)
qed (simp add: upsert_by_def)

lemma select_upsert:
  assumes "keyed key rows"
  shows "select_by key k (upsert_by key merge new rows) =
    (if k = key new
     then Some (case select_by key k rows of None \<Rightarrow> new | Some old \<Rightarrow> merge old new)
     else select_by key k rows)"
proof (cases "k = key new")
  case True
  show ?thesis
  proof (cases "select_by key k rows")
    case None
    with True have "\<not> (\<exists>r\<in>set rows. key r = key new)" by (auto simp: select_by_None)
    then have "new \<in> set (upsert_by key merge new rows)" by (simp add: upsert_set)
    with None True show ?thesis
      using select_by_Some [OF keyed_upsert [OF assms], of k new new] by simp
  next
    case (Some old)
    with select_by_Some [OF assms] True have "old \<in> set rows" "key old = key new" by auto
    then have "merge old new \<in> set (upsert_by key merge new rows)" "key (merge old new) = k"
      using True by (auto simp: upsert_set merge_key)
    with Some True show ?thesis
      using select_by_Some [OF keyed_upsert [OF assms], of k new "merge old new"] by simp
  qed
next
  case False
  show ?thesis
  proof (cases "select_by key k rows")
    case None
    with False have "select_by key k (upsert_by key merge new rows) = None"
      unfolding select_by_None by (auto simp: upsert_set merge_key split: if_splits)
    with None False show ?thesis by simp
  next
    case (Some old)
    with select_by_Some [OF assms] have "old \<in> set rows" "key old = k" by auto
    with False have "old \<in> set (upsert_by key merge new rows)" by (auto simp: upsert_set)
    with Some False \<open>key old = k\<close> show ?thesis
      using select_by_Some [OF keyed_upsert [OF assms], of k new old] by simp
  qed
qed

lemma keyed_fold_upsert: "keyed key rows \<Longrightarrow> keyed key (fold (upsert_by key merge) news rows)"
  by (induction news arbitrary: rows) (auto intro: keyed_upsert)

lemma fold_upsert_other:
  "keyed key rows \<Longrightarrow> k \<notin> key ` set news \<Longrightarrow>
     select_by key k (fold (upsert_by key merge) news rows) = select_by key k rows"
  by (induction news arbitrary: rows) (auto simp: select_upsert keyed_upsert)

end

section \<open>Finding and filtering\<close>

lemma find_in: "find P xs = Some x \<Longrightarrow> x \<in> set xs \<and> P x"
  by (auto simp: find_Some_iff)

lemma find_distinct:
  assumes "distinct (map f xs)" "x \<in> set xs"
  shows "find (\<lambda>y. f y = f x) xs = Some x"
proof -
  have "find (\<lambda>y. f y = f x) xs \<noteq> None" using assms(2) by (auto simp: find_None_iff)
  then obtain y where y: "find (\<lambda>y. f y = f x) xs = Some y" by blast
  then have "y \<in> set xs" "f y = f x" using find_in by fastforce+
  then have "y = x" using assms by (metis distinct_map inj_on_eq_iff)
  with y show ?thesis by simp
qed

lemma map_filter_mem: "y \<in> set (List.map_filter f xs) \<longleftrightarrow> (\<exists>x\<in>set xs. f x = Some y)"
  by (induction xs) (auto simp: List.map_filter_simps split: option.split)

end
