(* ===== verification/Wire.thy ===== *)
theory Wire
  imports Mesh_Prelude
begin

text \<open>
  The core/plugin wire vocabulary of \<^verbatim>\<open>wire/src/lib.rs\<close>: the node, edge and diff records a
  plugin sends, qualified paths with their validity check, placeholder targets, and the scope
  and specifier matchers of a resolution delta. Serialisation attributes are not part of the
  records: the JSON text itself is produced and read by serde.
\<close>

section \<open>Positions, kinds and visibility\<close>

record Position =
  line :: nat
  col :: nat

record Range =
  range_start :: Position
  range_end :: Position

datatype NodeKind = NK_File | NK_Module | NK_Type | NK_Function | NK_Variable

datatype EdgeKind = Defines | Imports | Calls | SupertypeOf | References | Exports

datatype SourceTier = Syntactic | Semantic

datatype Visibility = V_Public | V_File | V_Container string

section \<open>Qualified paths\<close>

record PathSegment =
  sep :: "string option"
  seg_name :: string

datatype QualifiedPath = QualifiedPath (segments: "PathSegment list")

definition JOINER :: char where
  "JOINER = CHR 0x1F"

definition PATH_FORBIDDEN_CHARS :: "char list" where
  "PATH_FORBIDDEN_CHARS = [CHR 0x1F, CHR 0x00]"

definition unwrap_or_empty :: "string option \<Rightarrow> string" where
  "unwrap_or_empty o' = (case o' of None \<Rightarrow> [] | Some s \<Rightarrow> s)"

definition root :: "string \<Rightarrow> QualifiedPath" where
  "root name = QualifiedPath [\<lparr>sep = None, seg_name = name\<rparr>]"

definition child :: "QualifiedPath \<Rightarrow> string \<Rightarrow> string \<Rightarrow> QualifiedPath" where
  "child p s name = QualifiedPath (segments p @ [\<lparr>sep = Some s, seg_name = name\<rparr>])"

definition path_len :: "QualifiedPath \<Rightarrow> nat" where
  "path_len p = length (segments p)"

text \<open>\<^verbatim>\<open>suffix_from\<close>: the name of segment \<open>start\<close>, then separator and name of each later one.\<close>

fun render_later :: "PathSegment list \<Rightarrow> string" where
  "render_later [] = []"
| "render_later (s # ss) = unwrap_or_empty (sep s) @ seg_name s @ render_later ss"

definition suffix_from :: "QualifiedPath \<Rightarrow> nat \<Rightarrow> string" where
  "suffix_from p start =
     (case drop start (segments p) of [] \<Rightarrow> [] | s # ss \<Rightarrow> seg_name s @ render_later ss)"

definition display :: "QualifiedPath \<Rightarrow> string" where
  "display p = suffix_from p 0"

definition head :: "QualifiedPath \<Rightarrow> QualifiedPath option" where
  "head p = (if path_len p \<ge> 2 then Some (QualifiedPath (butlast (segments p))) else None)"

definition last_segment :: "QualifiedPath \<Rightarrow> PathSegment option" where
  "last_segment p = (if segments p = [] then None else Some (last (segments p)))"

datatype PathError =
    PE_Empty
  | EmptyName nat
  | SeparatorOnFirstSegment
  | MissingSeparator nat
  | ForbiddenChar nat
  | DoesNotJoin string string
  | LastNameIsNotName string string
  | AliasTooShort
  | AliasEqualsPath
  | KeyPathOnNameKey
  | AliasWithoutPath

definition has_forbidden :: "string \<Rightarrow> bool" where
  "has_forbidden s = list_ex (\<lambda>c. c \<in> set PATH_FORBIDDEN_CHARS) s"

definition check_segment :: "nat \<Rightarrow> PathSegment \<Rightarrow> PathError + unit" where
  "check_segment i s =
     (if seg_name s = [] then Inl (EmptyName i)
      else if i = 0 \<and> sep s \<noteq> None then Inl SeparatorOnFirstSegment
      else if i \<noteq> 0 \<and> (sep s = None \<or> sep s = Some []) then Inl (MissingSeparator i)
      else if has_forbidden (unwrap_or_empty (sep s)) \<or> has_forbidden (seg_name s)
        then Inl (ForbiddenChar i)
      else Inr ())"

fun check_segments :: "nat \<Rightarrow> PathSegment list \<Rightarrow> PathError + unit" where
  "check_segments i [] = Inr ()"
| "check_segments i (s # ss) =
     (case check_segment i s of Inl e \<Rightarrow> Inl e | Inr _ \<Rightarrow> check_segments (Suc i) ss)"

definition check :: "QualifiedPath \<Rightarrow> PathError + unit" where
  "check p = (if segments p = [] then Inl PE_Empty else check_segments 0 (segments p))"

definition check_joins_to :: "QualifiedPath \<Rightarrow> string \<Rightarrow> PathError + unit" where
  "check_joins_to p disp =
     (case check p of Inl e \<Rightarrow> Inl e
      | Inr _ \<Rightarrow> if display p \<noteq> disp then Inl (DoesNotJoin (display p) disp) else Inr ())"

section \<open>Targets, declarations, nodes and edges\<close>

datatype TargetScope = TS_File string | TS_Container string

datatype TargetKey = TK_Name string | TK_QualifiedName string

record PlaceholderTarget =
  pt_scope :: TargetScope
  pt_key :: TargetKey
  pt_from_container :: "string option"
  pt_key_path :: "QualifiedPath option"
  pt_also_scopes :: "string list"

record WireDeclaration =
  wd_ordinal :: nat
  wd_start_line :: nat
  wd_start_col :: nat
  wd_end_line :: nat
  wd_end_col :: nat
  wd_signature :: "string option"
  wd_has_body :: bool

record WireNode =
  wn_id :: string
  wn_kind :: NodeKind
  wn_name :: string
  wn_qualified_name :: string
  wn_file_path :: string
  wn_range :: Range
  wn_signature :: "string option"
  wn_visibility :: Visibility
  wn_doc_comment :: "string option"
  wn_language :: string
  wn_native_kind :: "string option"
  wn_has_syntax_errors :: bool
  wn_declarations :: "WireDeclaration list option"
  wn_container :: "string option"
  wn_container_parent :: "string option"
  wn_target :: "PlaceholderTarget option"
  wn_qualified_path :: "QualifiedPath option"
  wn_alias_paths :: "QualifiedPath list"
  wn_untyped_calls :: "string list"
  wn_generated :: bool

record WireEdge =
  we_id :: string
  we_from_id :: string
  we_to_id :: string
  we_kind :: EdgeKind
  we_source :: SourceTier
  we_engine :: string
  we_resolved :: bool
  we_to_declaration :: "nat option"
  we_specifier :: "string option"

definition check_ends_in_name :: "WireNode \<Rightarrow> QualifiedPath \<Rightarrow> PathError + unit" where
  "check_ends_in_name n p =
     (case last_segment p of
        Some s \<Rightarrow> if seg_name s = wn_name n then Inr ()
                  else Inl (LastNameIsNotName (seg_name s) (wn_name n))
      | None \<Rightarrow> Inl (LastNameIsNotName [] (wn_name n)))"

definition check_qualified_path :: "WireNode \<Rightarrow> PathError + unit" where
  "check_qualified_path n =
     (case wn_qualified_path n of None \<Rightarrow> Inr ()
      | Some p \<Rightarrow> (case check_joins_to p (wn_qualified_name n) of Inl e \<Rightarrow> Inl e
                   | Inr _ \<Rightarrow> check_ends_in_name n p))"

definition check_alias_path :: "WireNode \<Rightarrow> QualifiedPath \<Rightarrow> PathError + unit" where
  "check_alias_path n a =
     (if wn_qualified_path n = None then Inl AliasWithoutPath
      else (case check a of Inl e \<Rightarrow> Inl e
            | Inr _ \<Rightarrow>
                if path_len a < 2 then Inl AliasTooShort
                else if wn_qualified_path n = Some a then Inl AliasEqualsPath
                else check_ends_in_name n a))"

definition check_key_path :: "PlaceholderTarget \<Rightarrow> PathError + unit" where
  "check_key_path t =
     (case pt_key_path t of None \<Rightarrow> Inr ()
      | Some p \<Rightarrow> (case pt_key t of TK_QualifiedName k \<Rightarrow> check_joins_to p k
                   | TK_Name _ \<Rightarrow> Inl KeyPathOnNameKey))"

section \<open>Resolution deltas\<close>

record PathScope =
  under :: string
  not_under :: "string list"

definition path_is_under :: "string \<Rightarrow> string \<Rightarrow> bool" where
  "path_is_under path dir =
     (let d = trim_end_matches (\<lambda>c. c = CHR ''/'') dir
      in d = [] \<or> path = d \<or>
         (starts_with path d \<and> length d < length path \<and> path ! length d = CHR ''/''))"

definition scope_contains :: "PathScope \<Rightarrow> string \<Rightarrow> bool" where
  "scope_contains s path =
     (path_is_under path (under s) \<and> \<not> list_ex (\<lambda>d. path_is_under path d) (not_under s))"

datatype TargetScopeKind = TSK_File | TSK_Container

datatype Matcher =
    Exact string
  | Under string string
  | StartsWith string
  | NonRelative

fun matches :: "Matcher \<Rightarrow> string \<Rightarrow> bool" where
  "matches (Exact e) s = (s = e)"
| "matches (Under pre sp) s =
     (s = pre \<or>
      (sp \<noteq> [] \<and> (case strip_prefix pre s of None \<Rightarrow> False | Some rest \<Rightarrow> starts_with rest sp)))"
| "matches (StartsWith pre) s = starts_with s pre"
| "matches NonRelative s =
     (s \<noteq> [] \<and> \<not> (hd s = CHR ''.'' \<or> hd s = CHR ''/'' \<or> hd s = CHR ''#''))"

datatype ImportMatch =
    Specifier Matcher
  | Target TargetScopeKind Matcher

record ImportSelector =
  importers :: PathScope
  sel_by :: ImportMatch

datatype ResolutionDelta =
    Unchanged
  | Unknown string
  | Affected "PathScope list" "ImportSelector list"

record FileChangeDiff =
  fd_upsert_nodes :: "WireNode list"
  fd_delete_node_ids :: "string list"
  fd_upsert_edges :: "WireEdge list"
  fd_delete_edge_ids :: "string list"
  fd_complete :: bool
  fd_affected :: "ResolutionDelta option"

section \<open>Path validity\<close>

text \<open>What \<open>check\<close> accepts, said once per segment and without the loop.\<close>

definition segment_ok :: "bool \<Rightarrow> PathSegment \<Rightarrow> bool" where
  "segment_ok first s \<longleftrightarrow>
     seg_name s \<noteq> [] \<and> (if first then sep s = None else \<exists>t. sep s = Some t \<and> t \<noteq> []) \<and>
     set (unwrap_or_empty (sep s)) \<inter> set PATH_FORBIDDEN_CHARS = {} \<and>
     set (seg_name s) \<inter> set PATH_FORBIDDEN_CHARS = {}"

definition valid_path :: "QualifiedPath \<Rightarrow> bool" where
  "valid_path p \<longleftrightarrow>
     (case segments p of [] \<Rightarrow> False
      | s # ss \<Rightarrow> segment_ok True s \<and> (\<forall>t\<in>set ss. segment_ok False t))"

lemma has_forbidden_iff: "has_forbidden s \<longleftrightarrow> set s \<inter> set PATH_FORBIDDEN_CHARS \<noteq> {}"
  by (auto simp: has_forbidden_def list_ex_iff)

lemma check_segment_iff: "check_segment i s = Inr u \<longleftrightarrow> segment_ok (i = 0) s"
  by (auto simp: check_segment_def segment_ok_def has_forbidden_iff unwrap_or_empty_def
      split: option.splits)

lemma check_segments_iff:
  "check_segments (Suc i) ss = Inr u \<longleftrightarrow> (\<forall>t\<in>set ss. segment_ok False t)"
proof (induction ss arbitrary: i)
  case (Cons s ss)
  then show ?case
    using check_segment_iff [of "Suc i" s] by (auto split: sum.splits)
qed simp

lemma check_iff: "check p = Inr u \<longleftrightarrow> valid_path p"
proof (cases "segments p")
  case (Cons s ss)
  then show ?thesis
    using check_segment_iff [of 0 s] check_segments_iff [of 0 ss]
    by (auto simp: check_def valid_path_def split: sum.splits)
qed (simp add: check_def valid_path_def)

lemma check_joins_to_iff: "check_joins_to p d = Inr u \<longleftrightarrow> valid_path p \<and> display p = d"
  using check_iff [of p] by (auto simp: check_joins_to_def split: sum.splits)

lemma valid_root: "valid_path (root n) \<longleftrightarrow> n \<noteq> [] \<and> \<not> has_forbidden n"
  by (auto simp: valid_path_def root_def segment_ok_def has_forbidden_iff unwrap_or_empty_def)

lemma valid_child:
  "valid_path p \<Longrightarrow> valid_path (child p s n) \<longleftrightarrow>
     s \<noteq> [] \<and> n \<noteq> [] \<and> \<not> has_forbidden s \<and> \<not> has_forbidden n"
  by (auto simp: valid_path_def child_def segment_ok_def has_forbidden_iff unwrap_or_empty_def
      split: list.splits)

lemma render_later_append: "render_later (xs @ ys) = render_later xs @ render_later ys"
  by (induction xs) auto

lemma display_child: "segments p \<noteq> [] \<Longrightarrow> display (child p s n) = display p @ s @ n"
  by (auto simp: display_def suffix_from_def child_def render_later_append unwrap_or_empty_def
      split: list.splits)

lemma head_child: "segments p \<noteq> [] \<Longrightarrow> head (child p s n) = Some p"
  by (cases p) (auto simp: head_def child_def path_len_def Suc_le_eq)

section \<open>Directory containment\<close>

lemma path_is_under_append:
  "path_is_under path dir \<longleftrightarrow>
     (let d = trim_end_matches (\<lambda>c. c = CHR ''/'') dir
      in d = [] \<or> path = d \<or> (\<exists>r. path = d @ CHR ''/'' # r))"
proof -
  have "(starts_with path d \<and> length d < length path \<and> path ! length d = c) \<longleftrightarrow>
      (\<exists>r. path = d @ c # r)" for d c
  proof
    assume l: "starts_with path d \<and> length d < length path \<and> path ! length d = c"
    then obtain r where "path = d @ r" by (auto simp: str_simps)
    with l show "\<exists>r. path = d @ c # r" by (cases r) auto
  qed (auto simp: str_simps)
  then show ?thesis by (simp add: path_is_under_def Let_def)
qed

text \<open>
  The reference meaning: the components of the directory are the first components of the path.
\<close>

definition components :: "string \<Rightarrow> string list" where
  "components p = split_on (CHR ''/'') p"

lemma components_prefix:
  "(p = d \<or> (\<exists>r. p = d @ CHR ''/'' # r)) \<longleftrightarrow> (\<exists>rest. components p = components d @ rest)"
proof
  assume "p = d \<or> (\<exists>r. p = d @ CHR ''/'' # r)"
  then show "\<exists>rest. components p = components d @ rest"
    by (auto simp: components_def split_on_append)
next
  assume "\<exists>rest. components p = components d @ rest"
  then obtain rest where "components p = components d @ rest" by blast
  then have eq: "p = join_with [CHR ''/''] (components d @ rest)"
    by (metis components_def join_split_on)
  show "p = d \<or> (\<exists>r. p = d @ CHR ''/'' # r)"
  proof (cases rest)
    case Nil
    then show ?thesis using eq by (simp add: components_def join_split_on)
  next
    case (Cons x xs)
    have "join_with [c] (a @ x # xs) = join_with [c] a @ c # join_with [c] (x # xs)"
      if "a \<noteq> []" for a and c :: char
      using that by (induction "[c]" a rule: join_with.induct) auto
    then show ?thesis using eq Cons by (simp add: components_def join_split_on)
  qed
qed

text \<open>
  \<^verbatim>\<open>path_is_under\<close> compares whole path components, although it works on bytes: a path is
  under a directory exactly when the directory, less its trailing slashes, is empty or its
  components are the first components of the path. In particular \<open>src2/a\<close> is not under \<open>src\<close>.
\<close>

theorem path_is_under_components:
  "path_is_under path dir \<longleftrightarrow>
     (let d = trim_end_matches (\<lambda>c. c = CHR ''/'') dir
      in d = [] \<or> (\<exists>rest. components path = components d @ rest))"
  by (simp add: path_is_under_append components_prefix Let_def)

text \<open>
  The rule a qualified path must satisfy, for every way a plugin can build one: the root
  name must be non-empty and free of U+001F and NUL, each added segment must have a non-empty
  separator and name free of them, and the display text is then the segments joined by their
  own separators, with \<^verbatim>\<open>head\<close> undoing \<^verbatim>\<open>child\<close>.
\<close>

lemma path_construction:
  assumes "check p = Inr ()"
  shows "(check (child p s n) = Inr () \<longleftrightarrow>
      s \<noteq> [] \<and> n \<noteq> [] \<and> \<not> has_forbidden s \<and> \<not> has_forbidden n) \<and>
    check_joins_to (child p s n) (display p @ s @ n) = check (child p s n) \<and>
    head (child p s n) = Some p \<and>
    map_option seg_name (last_segment (child p s n)) = Some n"
proof -
  from assms have v: "valid_path p" by (simp add: check_iff)
  then have ne: "segments p \<noteq> []" by (auto simp: valid_path_def)
  show ?thesis
    using check_iff [of "child p s n" "()"] valid_child [OF v, of s n] display_child [OF ne, of s n]
      head_child [OF ne, of s n]
    by (auto simp: check_joins_to_def last_segment_def child_def split: sum.splits)
qed

lemma path_construction_witness:
  "check (root ''m'') = Inr () \<and> check (child (root ''m'') ''::'' ''f'') = Inr () \<and>
   check (child (root ''m'') [] ''f'') \<noteq> Inr ()"
proof -
  have c: "check (root ''m'') = Inr ()" by code_simp
  show ?thesis
    using path_construction [OF c, of "''::''" "''f''"] path_construction [OF c, of "[]" "''f''"] c
    by (simp add: has_forbidden_def PATH_FORBIDDEN_CHARS_def)
qed

end
