(* ===== verification/Qualified_Path.thy ===== *)
theory Qualified_Path
  imports Wire
begin

text \<open>
  \<^verbatim>\<open>core/src/storage/qualified_path.rs\<close>: how a qualified path is stored in one text column
  (segment names and separators joined by U+001F), and the suffix rows by which a partial path
  finds a declaration.
\<close>

fun encode_later :: "PathSegment list \<Rightarrow> string" where
  "encode_later [] = []"
| "encode_later (s # ss) =
     JOINER # unwrap_or_empty (sep s) @ JOINER # seg_name s @ encode_later ss"

definition encode :: "QualifiedPath \<Rightarrow> string" where
  "encode p = (case segments p of [] \<Rightarrow> [] | s # ss \<Rightarrow> seg_name s @ encode_later ss)"

fun decode_parts :: "string list \<Rightarrow> PathSegment list option" where
  "decode_parts [] = Some []"
| "decode_parts [_] = None"
| "decode_parts (s # n # ps) =
     map_option (\<lambda>segs. \<lparr>sep = Some s, seg_name = n\<rparr> # segs) (decode_parts ps)"

definition decode :: "string \<Rightarrow> QualifiedPath option" where
  "decode text =
     (case split_on JOINER text of
        [] \<Rightarrow> None
      | p # ps \<Rightarrow> map_option (\<lambda>segs. QualifiedPath (\<lparr>sep = None, seg_name = p\<rparr> # segs))
                     (decode_parts ps))"

definition add_suffixes :: "QualifiedPath \<Rightarrow> nat \<Rightarrow> string list" where
  "add_suffixes p first = map (suffix_from p) [first ..< path_len p - 1]"

definition suffixes :: "QualifiedPath option \<Rightarrow> QualifiedPath list \<Rightarrow> string list" where
  "suffixes path aliases =
     btree_set ((case path of None \<Rightarrow> [] | Some p \<Rightarrow> add_suffixes p 1)
                @ concat (map (\<lambda>a. add_suffixes a 0) aliases))"

section \<open>The stored text is a codec\<close>

text \<open>The parts between joiners, separator and name alternating.\<close>

fun later_parts :: "PathSegment list \<Rightarrow> string list" where
  "later_parts [] = []"
| "later_parts (s # ss) = unwrap_or_empty (sep s) # seg_name s # later_parts ss"

lemma encode_eq_join:
  fixes s :: PathSegment
  shows "seg_name s @ encode_later ss = join_with [JOINER] (seg_name s # later_parts ss)"
  by (induction ss arbitrary: s) auto

lemma segment_ok_no_joiner:
  "segment_ok b s \<Longrightarrow> JOINER \<notin> set (seg_name s) \<and> JOINER \<notin> set (unwrap_or_empty (sep s))"
  by (auto simp: segment_ok_def PATH_FORBIDDEN_CHARS_def JOINER_def)

lemma later_parts_no_joiner:
  "\<forall>t\<in>set ss. segment_ok False t \<Longrightarrow> p \<in> set (later_parts ss) \<Longrightarrow> JOINER \<notin> set p"
  by (induction ss) (auto dest: segment_ok_no_joiner)

lemma decode_later_parts:
  "\<forall>t\<in>set ss. segment_ok False t \<Longrightarrow> decode_parts (later_parts ss) = Some ss"
  by (induction ss) (auto simp: segment_ok_def unwrap_or_empty_def)

lemma decode_parts_later:
  "decode_parts ps = Some ss \<Longrightarrow> later_parts ss = ps"
  by (induction ps arbitrary: ss rule: decode_parts.induct) (auto simp: unwrap_or_empty_def)

lemma decode_encode:
  assumes "check p = Inr u"
  shows "decode (encode p) = Some p"
proof -
  from assms have "valid_path p" by (simp add: check_iff)
  then obtain s ss where p: "segments p = s # ss" and s: "segment_ok True s"
    and ss: "\<forall>t\<in>set ss. segment_ok False t"
    by (auto simp: valid_path_def split: list.splits)
  have "split_on JOINER (encode p) = seg_name s # later_parts ss"
    unfolding encode_def p list.case encode_eq_join
    using segment_ok_no_joiner [OF s] later_parts_no_joiner [OF ss] by (intro split_on_join) auto
  moreover have "s = \<lparr>sep = None, seg_name = seg_name s\<rparr>"
    using s by (simp add: segment_ok_def)
  ultimately show ?thesis
    using p by (cases p) (auto simp: decode_def decode_later_parts [OF ss])
qed

lemma encode_decode:
  assumes "decode t = Some p"
  shows "encode p = t"
proof -
  from assms obtain x ps ss where sp: "split_on JOINER t = x # ps" and d: "decode_parts ps = Some ss"
    and p: "p = QualifiedPath (\<lparr>sep = None, seg_name = x\<rparr> # ss)"
    by (auto simp: decode_def split: list.splits)
  have "encode p = join_with [JOINER] (x # later_parts ss)"
    using encode_eq_join [of "\<lparr>sep = None, seg_name = x\<rparr>" ss] by (simp add: encode_def p)
  also have "\<dots> = join_with [JOINER] (split_on JOINER t)"
    by (simp add: sp decode_parts_later [OF d])
  finally show ?thesis by (simp add: join_split_on)
qed

interpretation stored_path: codec encode decode "\<lambda>p. check p = Inr ()"
  by unfold_locales (rule decode_encode, assumption, rule encode_decode)

lemma suffix_members:
  "t \<in> set (suffixes path aliases) \<longleftrightarrow>
     (\<exists>p. path = Some p \<and> (\<exists>i. 1 \<le> i \<and> i + 2 \<le> path_len p \<and> t = suffix_from p i)) \<or>
     (\<exists>a\<in>set aliases. \<exists>i. i + 2 \<le> path_len a \<and> t = suffix_from a i)"
proof -
  have "t \<in> set (add_suffixes p f) \<longleftrightarrow> (\<exists>i. f \<le> i \<and> i + 2 \<le> path_len p \<and> t = suffix_from p i)"
    for p f
    unfolding add_suffixes_def by (auto simp: image_iff less_diff_conv Bex_def Suc_le_eq)
  then show ?thesis by (auto simp: suffixes_def split: option.splits)
qed

text \<open>
  C30. A path that passes \<^verbatim>\<open>check\<close> is read back from its stored column unchanged, no other
  valid path has the same column text, and the column text of whatever \<^verbatim>\<open>decode\<close> accepts is
  that text again.
\<close>

theorem stored_path_roundtrip:
  assumes "check p = Inr ()"
  shows "decode (encode p) = Some p \<and>
    (\<forall>q. check q = Inr () \<and> encode q = encode p \<longrightarrow> q = p) \<and>
    (\<forall>t q. decode t = Some q \<longrightarrow> encode q = t)"
  using assms stored_path.enc_inj encode_decode decode_encode by blast

text \<open>
  The suffix rows of a declaration are exactly the display texts of the proper suffixes of
  its path and of all suffixes of its alias paths that keep two segments or more; they are
  strictly ascending, so no row is inserted twice.
\<close>

theorem suffix_rows_exact:
  "(\<forall>t. t \<in> set (suffixes path aliases) \<longleftrightarrow>
     (\<exists>p i. path = Some p \<and> 1 \<le> i \<and> i + 2 \<le> path_len p \<and> t = suffix_from p i) \<or>
     (\<exists>a\<in>set aliases. \<exists>i. i + 2 \<le> path_len a \<and> t = suffix_from a i)) \<and>
   sorted_wrt (<) (suffixes path aliases)"
proof -
  have "sorted_wrt (<) (suffixes path aliases)"
    by (simp add: suffixes_def strict_sorted_iff)
  then show ?thesis by (simp add: suffix_members)
qed

section \<open>A concrete path\<close>

definition sample_path :: QualifiedPath where
  "sample_path = child (child (root ''m'') ''::'' ''S'') ''.'' ''read''"

theorem stored_path_roundtrip_witness:
  "check sample_path = Inr () \<and> encode sample_path = ''m'' @ [JOINER] @ ''::'' @ [JOINER] @ ''S'' @ [JOINER]
     @ ''.'' @ [JOINER] @ ''read'' \<and> decode (encode sample_path) = Some sample_path"
proof -
  have c: "check sample_path = Inr ()" by code_simp
  moreover have "encode sample_path = ''m'' @ [JOINER] @ ''::'' @ [JOINER] @ ''S'' @ [JOINER]
     @ ''.'' @ [JOINER] @ ''read''" by code_simp
  ultimately show ?thesis using stored_path_roundtrip [OF c] by blast
qed

end
