(* ===== verification/Store.thy ===== *)
theory Store
  imports Qualified_Path
begin

text \<open>
  The index as \<^verbatim>\<open>core/src/storage/schema.rs\<close> lays it out and the records
  \<^verbatim>\<open>core/src/storage/write.rs\<close> writes into it. A table is the list of its rows. Foreign keys
  are off on the daemon's connection (\<^verbatim>\<open>storage::connection::open\<close>), so deletes do not cascade;
  the CHECK constraints and primary keys are kept.
\<close>

section \<open>Records handed to the write path\<close>

record DeclarationRecord =
  dr_ordinal :: int
  dr_start_line :: int
  dr_start_col :: int
  dr_end_line :: int
  dr_end_col :: int
  dr_signature :: "string option"
  dr_has_body :: bool

record PlaceholderTargetRecord =
  tr_scope_kind :: string
  tr_scope :: string
  tr_key_kind :: string
  tr_key :: string
  tr_from_container :: "string option"
  tr_key_path :: "QualifiedPath option"
  tr_also_scopes :: "string list"

record NodeRecord =
  nr_id :: string
  nr_kind :: string
  nr_name :: string
  nr_qualified_name :: string
  nr_file_path :: string
  nr_start_line :: int
  nr_start_col :: int
  nr_end_line :: int
  nr_end_col :: int
  nr_signature :: "string option"
  nr_exported :: bool
  nr_visibility :: string
  nr_visibility_container :: "string option"
  nr_container :: "string option"
  nr_container_parent :: "string option"
  nr_target :: "PlaceholderTargetRecord option"
  nr_doc_comment :: "string option"
  nr_language :: string
  nr_native_kind :: "string option"
  nr_has_syntax_errors :: bool
  nr_generated :: bool
  nr_declarations :: "DeclarationRecord list"
  nr_qualified_path :: "QualifiedPath option"
  nr_alias_paths :: "QualifiedPath list"
  nr_untyped_calls :: "string list"

definition new_NodeRecord ::
  "string \<Rightarrow> string \<Rightarrow> string \<Rightarrow> string \<Rightarrow> string \<Rightarrow> string \<Rightarrow> NodeRecord" where
  "new_NodeRecord nid kind name qname path lang =
     \<lparr>nr_id = nid, nr_kind = kind, nr_name = name, nr_qualified_name = qname,
      nr_file_path = path, nr_start_line = 0, nr_start_col = 0, nr_end_line = 0,
      nr_end_col = 0, nr_signature = None, nr_exported = False, nr_visibility = ''file'',
      nr_visibility_container = None, nr_container = None, nr_container_parent = None,
      nr_target = None, nr_doc_comment = None, nr_language = lang, nr_native_kind = None,
      nr_has_syntax_errors = False, nr_generated = False, nr_declarations = [],
      nr_qualified_path = None, nr_alias_paths = [], nr_untyped_calls = []\<rparr>"

record EdgeRecord =
  ed_id :: string
  ed_from_id :: string
  ed_to_id :: string
  ed_kind :: string
  ed_source :: string
  ed_engine :: string
  ed_resolved :: bool
  ed_to_declaration :: "int option"
  ed_specifier :: "string option"

definition normalize_legacy_source :: "string \<Rightarrow> string \<times> string" where
  "normalize_legacy_source s =
     (if s = ''tree-sitter'' then (''syntactic'', ''tree-sitter'')
      else if s = ''ts-compiler'' then (''semantic'', ''ts-compiler'')
      else (s, s))"

definition new_EdgeRecord ::
  "string \<Rightarrow> string \<Rightarrow> string \<Rightarrow> string \<Rightarrow> string \<Rightarrow> bool \<Rightarrow> EdgeRecord" where
  "new_EdgeRecord eid from_id to_id kind src resolved =
     \<lparr>ed_id = eid, ed_from_id = from_id, ed_to_id = to_id, ed_kind = kind,
      ed_source = fst (normalize_legacy_source src),
      ed_engine = snd (normalize_legacy_source src),
      ed_resolved = resolved, ed_to_declaration = None, ed_specifier = None\<rparr>"

record Diff =
  upsert_nodes :: "NodeRecord list"
  delete_node_ids :: "string list"
  upsert_edges :: "EdgeRecord list"
  delete_edge_ids :: "string list"

definition default_Diff :: Diff where
  "default_Diff =
     \<lparr>upsert_nodes = [], delete_node_ids = [], upsert_edges = [], delete_edge_ids = []\<rparr>"

definition diff_is_empty :: "Diff \<Rightarrow> bool" where
  "diff_is_empty d \<longleftrightarrow>
     upsert_nodes d = [] \<and> delete_node_ids d = [] \<and> upsert_edges d = [] \<and> delete_edge_ids d = []"

section \<open>Tables\<close>

record NodeRow =
  n_id :: string
  n_kind :: string
  n_name :: string
  n_qualifiedName :: string
  n_filePath :: string
  n_startLine :: int
  n_startCol :: int
  n_endLine :: int
  n_endCol :: int
  n_signature :: "string option"
  n_visibility :: string
  n_visibilityContainer :: "string option"
  n_docComment :: "string option"
  n_language :: string
  n_nativeKind :: "string option"
  n_hasSyntaxErrors :: bool
  n_generated :: bool
  n_container :: "string option"
  n_qualifiedPath :: "string option"

text \<open>The generated column \<^verbatim>\<open>exported\<close>.\<close>

definition n_exported :: "NodeRow \<Rightarrow> bool" where
  "n_exported r \<longleftrightarrow> n_visibility r = ''public''"

record EdgeRow =
  e_id :: string
  e_fromId :: string
  e_toId :: string
  e_kind :: string
  e_source :: string
  e_engine :: string
  e_resolved :: bool
  e_toDeclaration :: "int option"
  e_linkedFrom :: "string option"
  e_specifier :: "string option"

record ContainerRow =
  c_nodeId :: string
  c_language :: string
  c_key :: string
  c_parentKey :: "string option"
  c_memberCount :: nat

record TargetRow =
  t_nodeId :: string
  t_scopeKind :: string
  t_scope :: string
  t_keyKind :: string
  t_key :: string
  t_fromContainer :: "string option"
  t_fromFile :: string
  t_keyPath :: "string option"

record IndexedFileRow =
  if_filePath :: string
  if_mtimeMillis :: int
  if_contentHash :: string

record VectorRow =
  v_nodeId :: string
  v_embedding :: string
  v_embeddingVersion :: string

text \<open>
  Declarations and also-scopes are pairs with the node id first, suffixes and untyped calls
  pairs with the node id second, in the column order of their tables.
\<close>

record store =
  nodes :: "NodeRow list"
  edges :: "EdgeRow list"
  declarations :: "(string \<times> DeclarationRecord) list"
  containers :: "ContainerRow list"
  placeholder_targets :: "TargetRow list"
  placeholder_also_scopes :: "(string \<times> string) list"
  qualified_suffixes :: "(string \<times> string) list"
  untyped_calls :: "(string \<times> string) list"
  vectors :: "VectorRow list"
  indexed_files :: "IndexedFileRow list"

definition empty_store :: store where
  "empty_store =
     \<lparr>nodes = [], edges = [], declarations = [], containers = [], placeholder_targets = [],
      placeholder_also_scopes = [], qualified_suffixes = [], untyped_calls = [], vectors = [],
      indexed_files = []\<rparr>"

datatype store_error =
    CheckVisibility string
  | CheckEdgeSource string
  | CheckTarget string string
  | DuplicateOrdinal string int

definition map_node_row :: "NodeRow \<Rightarrow> NodeRecord" where
  "map_node_row r =
     \<lparr>nr_id = n_id r, nr_kind = n_kind r, nr_name = n_name r,
      nr_qualified_name = n_qualifiedName r, nr_file_path = n_filePath r,
      nr_start_line = n_startLine r, nr_start_col = n_startCol r, nr_end_line = n_endLine r,
      nr_end_col = n_endCol r, nr_signature = n_signature r, nr_exported = n_exported r,
      nr_visibility = n_visibility r, nr_visibility_container = n_visibilityContainer r,
      nr_container = n_container r, nr_container_parent = None, nr_target = None,
      nr_doc_comment = n_docComment r, nr_language = n_language r,
      nr_native_kind = n_nativeKind r, nr_has_syntax_errors = n_hasSyntaxErrors r,
      nr_generated = n_generated r, nr_declarations = [],
      nr_qualified_path = Option.bind (n_qualifiedPath r) decode,
      nr_alias_paths = [], nr_untyped_calls = []\<rparr>"

definition map_edge_row :: "EdgeRow \<Rightarrow> EdgeRecord" where
  "map_edge_row e =
     \<lparr>ed_id = e_id e, ed_from_id = e_fromId e, ed_to_id = e_toId e, ed_kind = e_kind e,
      ed_source = e_source e, ed_engine = e_engine e, ed_resolved = e_resolved e,
      ed_to_declaration = e_toDeclaration e, ed_specifier = None\<rparr>"

text \<open>The columns bound by the node upsert, and the row of the edge insert.\<close>

definition node_row :: "NodeRecord \<Rightarrow> NodeRow" where
  "node_row n =
     \<lparr>n_id = nr_id n, n_kind = nr_kind n, n_name = nr_name n,
      n_qualifiedName = nr_qualified_name n, n_filePath = nr_file_path n,
      n_startLine = nr_start_line n, n_startCol = nr_start_col n, n_endLine = nr_end_line n,
      n_endCol = nr_end_col n, n_signature = nr_signature n, n_visibility = nr_visibility n,
      n_visibilityContainer = nr_visibility_container n, n_docComment = nr_doc_comment n,
      n_language = nr_language n, n_nativeKind = nr_native_kind n,
      n_hasSyntaxErrors = nr_has_syntax_errors n, n_generated = nr_generated n,
      n_container = nr_container n,
      n_qualifiedPath = map_option encode (nr_qualified_path n)\<rparr>"

definition edge_row :: "EdgeRecord \<Rightarrow> EdgeRow" where
  "edge_row e =
     \<lparr>e_id = ed_id e, e_fromId = ed_from_id e, e_toId = ed_to_id e, e_kind = ed_kind e,
      e_source = ed_source e, e_engine = ed_engine e, e_resolved = ed_resolved e,
      e_toDeclaration = ed_to_declaration e, e_linkedFrom = None,
      e_specifier = ed_specifier e\<rparr>"

text \<open>
  The update clauses: every column of the node, and every column of the edge but the specifier,
  which is kept when the new row has none (\<^verbatim>\<open>COALESCE\<close>).
\<close>

definition merge_node :: "NodeRow \<Rightarrow> NodeRow \<Rightarrow> NodeRow" where
  "merge_node old new = new"

definition merge_edge :: "EdgeRow \<Rightarrow> EdgeRow \<Rightarrow> EdgeRow" where
  "merge_edge old new =
     new\<lparr>e_specifier := (case e_specifier new of None \<Rightarrow> e_specifier old | Some s \<Rightarrow> Some s)\<rparr>"

definition merge_indexed_file :: "IndexedFileRow \<Rightarrow> IndexedFileRow \<Rightarrow> IndexedFileRow" where
  "merge_indexed_file old new = new"

interpretation node_table: keyed_table n_id merge_node
  by unfold_locales (simp add: merge_node_def)

interpretation edge_table: keyed_table e_id merge_edge
  by unfold_locales (simp add: merge_edge_def)

interpretation file_table: keyed_table if_filePath merge_indexed_file
  by unfold_locales (simp add: merge_indexed_file_def)

text \<open>
  Reading back what was written: the node's own columns survive, and the stored path text
  decodes to the path the plugin sent when that path passes \<open>check\<close>.
\<close>

lemma map_node_row_node_row:
  assumes "\<And>p. nr_qualified_path n = Some p \<Longrightarrow> check p = Inr ()"
  shows "map_node_row (node_row n) =
    n\<lparr>nr_exported := (nr_visibility n = ''public''), nr_container_parent := None,
      nr_target := None, nr_declarations := [], nr_alias_paths := [], nr_untyped_calls := []\<rparr>"
proof -
  have "Option.bind (map_option encode (nr_qualified_path n)) decode = nr_qualified_path n"
    using assms stored_path.dec_enc by (cases "nr_qualified_path n") auto
  then show ?thesis by (simp add: map_node_row_def node_row_def n_exported_def)
qed

end
