(* ===== verification/Containers.thy ===== *)
theory Containers
  imports Store
begin

text \<open>
  \<^verbatim>\<open>core/src/graph/containers.rs\<close>: the core-owned container nodes, their DEFINES edges and the
  recount that keeps \<^verbatim>\<open>memberCount\<close>, as the two halves \<open>detach\<close> and \<open>attach\<close> around a diff's
  writes; and the readers \<open>parent_chain\<close>, \<open>defining_containers\<close>, \<open>member_files\<close>.

  The SHA-256 digest is the parameter \<open>sha\<close>, from the hashed text to the digest's bytes.
\<close>

type_synonym digest = "string \<Rightarrow> string"
type_synonym Key = "string \<times> string"

definition hex_digit :: "nat \<Rightarrow> char" where
  "hex_digit n = (if n < 10 then char_of (48 + n) else char_of (87 + n))"

definition hex_byte :: "char \<Rightarrow> string" where
  "hex_byte b = [hex_digit (of_char b div 16), hex_digit (of_char b mod 16)]"

definition hex16 :: "digest \<Rightarrow> string \<Rightarrow> string" where
  "hex16 sha text = concat (map hex_byte (take 16 (sha text)))"

definition CONTAINER_NATIVE_KIND :: string where
  "CONTAINER_NATIVE_KIND = ''container''"

definition MODULE_KIND :: string where "MODULE_KIND = ''Module''"
definition DEFINES_KIND :: string where "DEFINES_KIND = ''DEFINES''"
definition FILE_KIND :: string where "FILE_KIND = ''File''"
definition CORE_ENGINE :: string where "CORE_ENGINE = ''g-mesh-core''"

definition NON_DECLARATION_NATIVE_KINDS :: "string list" where
  "NON_DECLARATION_NATIVE_KINDS =
     [''pending_symbol'', ''reexport'', ''resolved_module'', ''external_module'',
      CONTAINER_NATIVE_KIND]"

definition container_id :: "digest \<Rightarrow> string \<Rightarrow> string \<Rightarrow> string" where
  "container_id sha language key = hex16 sha (''container '' @ language @ CHR 0x00 # key)"

definition defines_edge_id :: "digest \<Rightarrow> string \<Rightarrow> string \<Rightarrow> string" where
  "defines_edge_id sha container_node_id member_id =
     hex16 sha (''edge '' @ container_node_id @ '' '' @ DEFINES_KIND @ '' '' @ member_id)"

definition membership :: "string \<Rightarrow> string option \<Rightarrow> string option \<Rightarrow> Key option" where
  "membership language container native_kind =
     (case container of None \<Rightarrow> None
      | Some key \<Rightarrow>
          if key = [] then None
          else if (\<exists>k. native_kind = Some k \<and> k \<in> set NON_DECLARATION_NATIVE_KINDS) then None
          else Some (language, key))"

lemma membership_code [code]:
  "membership language container native_kind =
     (case container of None \<Rightarrow> None
      | Some key \<Rightarrow>
          if key = [] then None
          else if (case native_kind of None \<Rightarrow> False
                   | Some k \<Rightarrow> k \<in> set NON_DECLARATION_NATIVE_KINDS) then None
          else Some (language, key))"
  by (auto simp: membership_def split: option.splits)

definition record_membership :: "NodeRecord \<Rightarrow> Key option" where
  "record_membership n = membership (nr_language n) (nr_container n) (nr_native_kind n)"

definition row_membership :: "NodeRow \<Rightarrow> Key option" where
  "row_membership r = membership (n_language r) (n_container r) (n_nativeKind r)"

record Pending =
  p_members :: "(string \<times> Key) list"
  p_parents :: "(Key \<times> string option) list"
  p_touched :: "Key list"

section \<open>Detach\<close>

text \<open>The \<^verbatim>\<open>final_membership\<close> map after the loop over the upserts: the last record of an id wins.\<close>

definition final_membership :: "NodeRecord list \<Rightarrow> string \<Rightarrow> Key option option" where
  "final_membership ns = map_of (rev (map (\<lambda>n. (nr_id n, record_membership n)) ns))"

definition joined_parents :: "NodeRecord list \<Rightarrow> (Key \<times> string option) list" where
  "joined_parents ns =
     List.map_filter
       (\<lambda>n. map_option (\<lambda>k. (k, nr_container_parent n)) (record_membership n)) ns"

definition current_membership :: "store \<Rightarrow> string \<Rightarrow> Key option" where
  "current_membership st i = Option.bind (select_by n_id i (nodes st)) row_membership"

definition will_be :: "Diff \<Rightarrow> string \<Rightarrow> Key option" where
  "will_be d i =
     (case final_membership (upsert_nodes d) i of None \<Rightarrow> None | Some k \<Rightarrow> k)"

definition drop_member_edge :: "digest \<Rightarrow> Key \<Rightarrow> string \<Rightarrow> store \<Rightarrow> store" where
  "drop_member_edge sha was i st =
     st\<lparr>edges := delete_by e_id (defines_edge_id sha (container_id sha (fst was) (snd was)) i)
                  (edges st)\<rparr>"

fun detach_named ::
  "digest \<Rightarrow> Diff \<Rightarrow> string list \<Rightarrow> string list \<Rightarrow> store \<Rightarrow> Key list \<Rightarrow> store \<times> Key list" where
  "detach_named sha d [] seen st touched = (st, touched)"
| "detach_named sha d (i # ids) seen st touched =
     (if i \<in> set seen then detach_named sha d ids seen st touched
      else (case current_membership st i of
              None \<Rightarrow> detach_named sha d ids (i # seen) st touched
            | Some was \<Rightarrow>
                if will_be d i \<noteq> Some was \<or> i \<in> set (delete_node_ids d)
                then detach_named sha d ids (i # seen) (drop_member_edge sha was i st)
                       (was # touched)
                else detach_named sha d ids (i # seen) st touched))"

text \<open>The members the diff leaves: walk the upserts from the last, keep each id once, reverse.\<close>

fun members_rev ::
  "(string \<Rightarrow> Key option option) \<Rightarrow> NodeRecord list \<Rightarrow> string list \<Rightarrow> (string \<times> Key) list" where
  "members_rev fm [] listed = []"
| "members_rev fm (n # ns) listed =
     (if nr_id n \<in> set listed then members_rev fm ns listed
      else (case fm (nr_id n) of
              Some (Some k) \<Rightarrow> (nr_id n, k) # members_rev fm ns (nr_id n # listed)
            | _ \<Rightarrow> members_rev fm ns (nr_id n # listed)))"

definition diff_members :: "Diff \<Rightarrow> (string \<times> Key) list" where
  "diff_members d =
     rev (members_rev (final_membership (upsert_nodes d)) (rev (upsert_nodes d)) [])"

definition detach :: "digest \<Rightarrow> store \<Rightarrow> Diff \<Rightarrow> store \<times> Pending option" where
  "detach sha st d =
     (if \<not> list_ex (\<lambda>n. record_membership n \<noteq> None) (upsert_nodes d) \<and> containers st = []
      then (st, None)
      else
        let parents = joined_parents (upsert_nodes d);
            named = delete_node_ids d @ map nr_id (upsert_nodes d);
            (st1, touched) = detach_named sha d named [] st [];
            members = diff_members d
        in (st1, Some \<lparr>p_members = members, p_parents = parents,
                       p_touched = btree_set (touched @ map snd members @ map fst parents)\<rparr>))"

section \<open>Attach\<close>

definition container_node :: "string \<Rightarrow> Key \<Rightarrow> NodeRow" where
  "container_node node_id key =
     \<lparr>n_id = node_id, n_kind = MODULE_KIND, n_name = snd key, n_qualifiedName = snd key,
      n_filePath = [], n_startLine = 0, n_startCol = 0, n_endLine = 0, n_endCol = 0,
      n_signature = None, n_visibility = ''public'', n_visibilityContainer = None,
      n_docComment = None, n_language = fst key, n_nativeKind = Some CONTAINER_NATIVE_KIND,
      n_hasSyntaxErrors = False, n_generated = False, n_container = None,
      n_qualifiedPath = None\<rparr>"

definition container_conflict :: "string \<Rightarrow> Key \<Rightarrow> ContainerRow \<Rightarrow> bool" where
  "container_conflict node_id key c \<longleftrightarrow>
     c_nodeId c = node_id \<or> (c_language c = fst key \<and> c_key c = snd key)"

definition ensure_container :: "string \<Rightarrow> Key \<Rightarrow> store \<Rightarrow> store \<times> bool" where
  "ensure_container node_id key st =
     (let st1 = st\<lparr>nodes := insert_ignore_by n_id (container_node node_id key) (nodes st)\<rparr>
      in if list_ex (container_conflict node_id key) (containers st1) then (st1, False)
         else (st1\<lparr>containers := containers st1 @
                  [\<lparr>c_nodeId = node_id, c_language = fst key, c_key = snd key,
                    c_parentKey = None, c_memberCount = 0\<rparr>]\<rparr>, True))"

definition member_edge :: "digest \<Rightarrow> Key \<Rightarrow> string \<Rightarrow> EdgeRow" where
  "member_edge sha key m =
     \<lparr>e_id = defines_edge_id sha (container_id sha (fst key) (snd key)) m,
      e_fromId = container_id sha (fst key) (snd key), e_toId = m, e_kind = DEFINES_KIND,
      e_source = ''syntactic'', e_engine = CORE_ENGINE, e_resolved = True,
      e_toDeclaration = None, e_linkedFrom = None, e_specifier = None\<rparr>"

fun attach_members ::
  "digest \<Rightarrow> (string \<times> Key) list \<Rightarrow> store \<Rightarrow> Key list \<Rightarrow> store \<times> Key list" where
  "attach_members sha [] st created = (st, created)"
| "attach_members sha ((m, key) # ms) st created =
     (let (st1, new) = ensure_container (container_id sha (fst key) (snd key)) key st;
          st2 = st1\<lparr>edges := insert_ignore_by e_id (member_edge sha key m) (edges st1)\<rparr>
      in attach_members sha ms st2 (if new then key # created else created))"

text \<open>
  The parents in force after the loop of \<^verbatim>\<open>apply_parents\<close>: the last record of each key. The
  disagreement log line has no effect on the store. The update statements run once per key, so
  the order in which the hash map yields them is immaterial.
\<close>

definition in_force :: "(Key \<times> string option) list \<Rightarrow> Key \<Rightarrow> string option option" where
  "in_force parents = map_of (rev parents)"

definition set_parent :: "(Key \<times> string option) list \<Rightarrow> ContainerRow \<Rightarrow> ContainerRow" where
  "set_parent parents c =
     (case in_force parents (c_language c, c_key c) of
        None \<Rightarrow> c | Some parent \<Rightarrow> c\<lparr>c_parentKey := parent\<rparr>)"

definition apply_parents :: "(Key \<times> string option) list \<Rightarrow> store \<Rightarrow> store" where
  "apply_parents parents st = st\<lparr>containers := map (set_parent parents) (containers st)\<rparr>"

definition delete_node_rows :: "string \<Rightarrow> store \<Rightarrow> store" where
  "delete_node_rows i st =
     st\<lparr>declarations := filter (\<lambda>r. fst r \<noteq> i) (declarations st),
        placeholder_targets := delete_by t_nodeId i (placeholder_targets st),
        placeholder_also_scopes := filter (\<lambda>r. fst r \<noteq> i) (placeholder_also_scopes st),
        qualified_suffixes := filter (\<lambda>r. snd r \<noteq> i) (qualified_suffixes st),
        untyped_calls := filter (\<lambda>r. snd r \<noteq> i) (untyped_calls st),
        vectors := delete_by v_nodeId i (vectors st),
        nodes := delete_by n_id i (nodes st)\<rparr>"

definition delete_container :: "string \<Rightarrow> store \<Rightarrow> store" where
  "delete_container node_id st =
     delete_node_rows node_id
       (st\<lparr>edges := filter (\<lambda>e. e_fromId e \<noteq> node_id \<and> e_toId e \<noteq> node_id) (edges st),
           containers := delete_by c_nodeId node_id (containers st)\<rparr>)"

definition count_defines_edges :: "string \<Rightarrow> store \<Rightarrow> nat" where
  "count_defines_edges node_id st =
     length (filter (\<lambda>e. e_fromId e = node_id \<and> e_kind e = DEFINES_KIND) (edges st))"

definition recount :: "digest \<Rightarrow> Key \<Rightarrow> store \<Rightarrow> store" where
  "recount sha key st =
     (let node_id = container_id sha (fst key) (snd key);
          members = count_defines_edges node_id st
      in if members = 0 then delete_container node_id st
         else st\<lparr>containers :=
                  map (\<lambda>c. if c_nodeId c = node_id then c\<lparr>c_memberCount := members\<rparr> else c)
                    (containers st)\<rparr>)"

definition attach :: "digest \<Rightarrow> Pending \<Rightarrow> store \<Rightarrow> store" where
  "attach sha p st =
     (let (st1, created) = attach_members sha (p_members p) st [];
          st2 = apply_parents (p_parents p) st1
      in fold (recount sha) (p_touched p) st2)"

end
