(* ===== verification/Write.thy ===== *)
theory Write
  imports Containers
begin

text \<open>
  \<^verbatim>\<open>core/src/storage/write.rs\<close>: one diff applied in a savepoint. Order of the statements:
  container detach, edge deletes, node deletes (with linked edges put back on their
  placeholder), node upserts with their child rows, edge upserts, container attach. A failed
  constraint leaves the store as it was.
\<close>

section \<open>Deletes\<close>

definition delete_edge_row :: "string \<Rightarrow> store \<Rightarrow> store" where
  "delete_edge_row i st = st\<lparr>edges := delete_by e_id i (edges st)\<rparr>"

text \<open>An edge into a node that is really gone goes back onto the placeholder it was linked from.\<close>

definition unlink_edge :: "string \<Rightarrow> EdgeRow \<Rightarrow> EdgeRow" where
  "unlink_edge i e =
     (case e_linkedFrom e of
        None \<Rightarrow> e
      | Some ph \<Rightarrow>
          if e_toId e = i then e\<lparr>e_toId := ph, e_resolved := False, e_linkedFrom := None\<rparr> else e)"

definition delete_node_row :: "string list \<Rightarrow> string \<Rightarrow> store \<Rightarrow> store" where
  "delete_node_row upserted i st =
     delete_node_rows i
       (if i \<in> set upserted then st else st\<lparr>edges := map (unlink_edge i) (edges st)\<rparr>)"

section \<open>Upserts\<close>

fun insert_declarations ::
  "string \<Rightarrow> DeclarationRecord list \<Rightarrow> (string \<times> DeclarationRecord) list
    \<Rightarrow> store_error + (string \<times> DeclarationRecord) list" where
  "insert_declarations i [] rows = Inr rows"
| "insert_declarations i (dr # drs) rows =
     (if list_ex (\<lambda>r. fst r = i \<and> dr_ordinal (snd r) = dr_ordinal dr) rows
      then Inl (DuplicateOrdinal i (dr_ordinal dr))
      else insert_declarations i drs (rows @ [(i, dr)]))"

definition replace_untyped_calls :: "NodeRecord \<Rightarrow> store \<Rightarrow> store" where
  "replace_untyped_calls n st =
     st\<lparr>untyped_calls :=
          fold (\<lambda>name rows. insert_ignore_by (\<lambda>r. r) (name, nr_id n) rows) (nr_untyped_calls n)
            (filter (\<lambda>r. snd r \<noteq> nr_id n) (untyped_calls st))\<rparr>"

definition check_target :: "PlaceholderTargetRecord \<Rightarrow> store_error + unit" where
  "check_target t =
     (if tr_scope_kind t \<in> set [''file'', ''container''] \<and>
         tr_key_kind t \<in> set [''name'', ''qualifiedName'']
      then Inr () else Inl (CheckTarget (tr_scope_kind t) (tr_key_kind t)))"

definition target_row :: "NodeRecord \<Rightarrow> PlaceholderTargetRecord \<Rightarrow> TargetRow" where
  "target_row n t =
     \<lparr>t_nodeId = nr_id n, t_scopeKind = tr_scope_kind t, t_scope = tr_scope t,
      t_keyKind = tr_key_kind t, t_key = tr_key t, t_fromContainer = tr_from_container t,
      t_fromFile = nr_file_path n, t_keyPath = map_option encode (tr_key_path t)\<rparr>"

definition replace_target :: "NodeRecord \<Rightarrow> store \<Rightarrow> store_error + store" where
  "replace_target n st =
     (let st1 = st\<lparr>placeholder_targets := delete_by t_nodeId (nr_id n) (placeholder_targets st),
                   placeholder_also_scopes :=
                     filter (\<lambda>r. fst r \<noteq> nr_id n) (placeholder_also_scopes st)\<rparr>
      in case nr_target n of
           None \<Rightarrow> Inr st1
         | Some t \<Rightarrow>
             let st2 = st1\<lparr>placeholder_also_scopes :=
                   fold (\<lambda>s rows. insert_ignore_by (\<lambda>r. r) (nr_id n, s) rows)
                     (tr_also_scopes t) (placeholder_also_scopes st1)\<rparr>
             in case check_target t of
                  Inl e \<Rightarrow> Inl e
                | Inr _ \<Rightarrow> Inr (st2\<lparr>placeholder_targets :=
                             placeholder_targets st2 @ [target_row n t]\<rparr>))"

definition upsert_node_row :: "NodeRecord \<Rightarrow> store \<Rightarrow> store_error + store" where
  "upsert_node_row n st =
     (if nr_visibility n \<notin> set [''public'', ''file'', ''container'']
      then Inl (CheckVisibility (nr_visibility n))
      else
        let st1 = st\<lparr>nodes := upsert_by n_id merge_node (node_row n) (nodes st)\<rparr>
        in case insert_declarations (nr_id n) (nr_declarations n)
                  (filter (\<lambda>r. fst r \<noteq> nr_id n) (declarations st1)) of
             Inl e \<Rightarrow> Inl e
           | Inr decls \<Rightarrow>
               let st2 = st1\<lparr>declarations := decls,
                     qualified_suffixes :=
                       filter (\<lambda>r. snd r \<noteq> nr_id n) (qualified_suffixes st1) @
                       map (\<lambda>s. (s, nr_id n)) (suffixes (nr_qualified_path n) (nr_alias_paths n))\<rparr>
               in replace_target n (replace_untyped_calls n st2))"

definition upsert_edge_row :: "EdgeRecord \<Rightarrow> store \<Rightarrow> store_error + store" where
  "upsert_edge_row e st =
     (if ed_source e \<notin> set [''syntactic'', ''semantic''] then Inl (CheckEdgeSource (ed_source e))
      else Inr (st\<lparr>edges := upsert_by e_id merge_edge (edge_row e) (edges st)\<rparr>))"

section \<open>The write path\<close>

definition write_diff :: "digest \<Rightarrow> Diff \<Rightarrow> store \<Rightarrow> store_error + store" where
  "write_diff sha d st =
     (let (st0, pending) = detach sha st d;
          st1 = fold delete_edge_row (delete_edge_ids d) st0;
          st2 = fold (delete_node_row (map nr_id (upsert_nodes d))) (delete_node_ids d) st1
      in case try_fold upsert_node_row (upsert_nodes d) st2 of
           Inl e \<Rightarrow> Inl e
         | Inr st3 \<Rightarrow>
             (case try_fold upsert_edge_row (upsert_edges d) st3 of
                Inl e \<Rightarrow> Inl e
              | Inr st4 \<Rightarrow>
                  Inr (case pending of None \<Rightarrow> st4 | Some p \<Rightarrow> attach sha p st4)))"

text \<open>A savepoint dropped without commit rolls back: the new store, and the error if any.\<close>

definition savepoint :: "(store \<Rightarrow> store_error + store) \<Rightarrow> store \<Rightarrow> store \<times> (store_error + unit)" where
  "savepoint f st = (case f st of Inl e \<Rightarrow> (st, Inl e) | Inr st' \<Rightarrow> (st', Inr ()))"

definition apply_diff :: "digest \<Rightarrow> store \<Rightarrow> Diff \<Rightarrow> store \<times> (store_error + unit)" where
  "apply_diff sha st d =
     (if diff_is_empty d then (st, Inr ()) else savepoint (write_diff sha d) st)"

definition write_diff_unless_empty :: "digest \<Rightarrow> Diff \<Rightarrow> store \<Rightarrow> store_error + store" where
  "write_diff_unless_empty sha d st = (if diff_is_empty d then Inr st else write_diff sha d st)"

definition stored_node_ids :: "store \<Rightarrow> Diff \<Rightarrow> string list" where
  "stored_node_ids st d =
     filter (\<lambda>i. i \<notin> set (delete_node_ids d) \<and> select_by n_id i (nodes st) \<noteq> None)
       (map nr_id (upsert_nodes d))"

text \<open>The kept records write only their untyped calls; the diff handed back is regrouped.\<close>

definition apply_semantic_diff ::
  "digest \<Rightarrow> store \<Rightarrow> Diff \<Rightarrow> store \<times> Diff \<times> (store_error + unit)" where
  "apply_semantic_diff sha st d =
     (if diff_is_empty d then (st, d, Inr ())
      else
        let stored = stored_node_ids st d;
            kept = filter (\<lambda>n. nr_id n \<in> set stored) (upsert_nodes d);
            inserted = filter (\<lambda>n. nr_id n \<notin> set stored) (upsert_nodes d);
            write = (\<lambda>s. case write_diff_unless_empty sha (d\<lparr>upsert_nodes := inserted\<rparr>) s of
                            Inl e \<Rightarrow> Inl e
                          | Inr s' \<Rightarrow> Inr (fold replace_untyped_calls kept s'));
            (st', res) = savepoint write st
        in (st', d\<lparr>upsert_nodes := inserted @ kept\<rparr>, res))"

definition upsert_indexed_file :: "string \<Rightarrow> int \<Rightarrow> string \<Rightarrow> store \<Rightarrow> store" where
  "upsert_indexed_file path mtime content_hash st =
     st\<lparr>indexed_files :=
          upsert_by if_filePath merge_indexed_file
            \<lparr>if_filePath = path, if_mtimeMillis = mtime, if_contentHash = content_hash\<rparr>
            (indexed_files st)\<rparr>"

end
