(* ===== verification/Member_Edges.thy ===== *)
theory Member_Edges
  imports Write
begin

text \<open>
  The DEFINES edges core writes from a container to its members, seen as a set of (key, member)
  pairs. \<open>K\<close> is a universe of container keys and \<open>M\<close> one of plugin node ids, large enough for the
  run at hand; \<open>collision_free\<close> says that the truncated digest tells the ids over \<open>K\<close> and \<open>M\<close>
  apart (it cannot do so over all strings). Each lemma gives the effect of one table statement
  on the set of pairs.
\<close>

definition cid :: "digest \<Rightarrow> Key \<Rightarrow> string" where
  "cid sha key = container_id sha (fst key) (snd key)"

definition did :: "digest \<Rightarrow> Key \<Rightarrow> string \<Rightarrow> string" where
  "did sha key m = defines_edge_id sha (cid sha key) m"

definition collision_free :: "digest \<Rightarrow> Key set \<Rightarrow> string set \<Rightarrow> bool" where
  "collision_free sha K M \<longleftrightarrow>
     inj_on (cid sha) K \<and> inj_on (\<lambda>(key, m). did sha key m) (K \<times> M) \<and> cid sha ` K \<inter> M = {}"

definition core_ids :: "digest \<Rightarrow> Key set \<Rightarrow> string set \<Rightarrow> string set" where
  "core_ids sha K M = {did sha key m | key m. key \<in> K \<and> m \<in> M}"

definition is_member_edge :: "digest \<Rightarrow> Key \<Rightarrow> string \<Rightarrow> EdgeRow \<Rightarrow> bool" where
  "is_member_edge sha key m e \<longleftrightarrow>
     e_id e = did sha key m \<and> e_fromId e = cid sha key \<and> e_toId e = m \<and>
     e_kind e = DEFINES_KIND \<and> e_linkedFrom e = None"

definition edges_pure :: "digest \<Rightarrow> Key set \<Rightarrow> string set \<Rightarrow> EdgeRow list \<Rightarrow> bool" where
  "edges_pure sha K M E \<longleftrightarrow> keyed e_id E \<and>
     (\<forall>e\<in>set E. (e_fromId e \<in> cid sha ` K \<and> e_kind e = DEFINES_KIND) \<or> e_id e \<in> core_ids sha K M
        \<longrightarrow> (\<exists>key\<in>K. \<exists>m\<in>M. is_member_edge sha key m e))"

definition edge_members :: "digest \<Rightarrow> Key set \<Rightarrow> string set \<Rightarrow> EdgeRow list \<Rightarrow> (Key \<times> string) set" where
  "edge_members sha K M E =
     {(key, m). key \<in> K \<and> m \<in> M \<and> (\<exists>e\<in>set E. is_member_edge sha key m e)}"

lemma core_idsI: "key \<in> K \<Longrightarrow> m \<in> M \<Longrightarrow> did sha key m \<in> core_ids sha K M"
  unfolding core_ids_def by blast

lemma did_eq:
  "collision_free sha K M \<Longrightarrow> key \<in> K \<Longrightarrow> m \<in> M \<Longrightarrow> k' \<in> K \<Longrightarrow> m' \<in> M \<Longrightarrow>
     did sha k' m' = did sha key m \<longleftrightarrow> k' = key \<and> m' = m"
  using inj_on_eq_iff [of "\<lambda>(key, m). did sha key m" "K \<times> M" "(k', m')" "(key, m)"]
  by (simp add: collision_free_def)

lemma cid_eq:
  "collision_free sha K M \<Longrightarrow> key \<in> K \<Longrightarrow> k' \<in> K \<Longrightarrow> cid sha k' = cid sha key \<longleftrightarrow> k' = key"
  using inj_on_eq_iff [of "cid sha" K k' key] by (simp add: collision_free_def)

lemma pairs_eqI: "(\<And>k m. (k, m) \<in> A \<longleftrightarrow> (k, m) \<in> B) \<Longrightarrow> A = B"
  by auto

lemma edges_pureE:
  assumes "edges_pure sha K M E" and "e \<in> set E"
    and "(e_fromId e \<in> cid sha ` K \<and> e_kind e = DEFINES_KIND) \<or> e_id e \<in> core_ids sha K M"
  obtains key m where "key \<in> K" and "m \<in> M" and "is_member_edge sha key m e"
  using assms unfolding edges_pure_def by blast

lemma edge_membersD:
  "(key, m) \<in> edge_members sha K M E \<longleftrightarrow>
     key \<in> K \<and> m \<in> M \<and> (\<exists>e\<in>set E. is_member_edge sha key m e)"
  by (simp add: edge_members_def)

lemma edges_pure_filter:
  "edges_pure sha K M E \<Longrightarrow> edges_pure sha K M (filter P E)"
  by (auto simp: edges_pure_def keyed_filter)

lemma edges_pure_map:
  assumes "edges_pure sha K M E"
    and "\<And>e. e \<in> set E \<Longrightarrow> e_id (f e) = e_id e \<and> e_fromId (f e) = e_fromId e \<and> e_kind (f e) = e_kind e"
    and "\<And>e. e \<in> set E \<Longrightarrow> e_linkedFrom e = None \<Longrightarrow> f e = e"
  shows "edges_pure sha K M (map f E)"
proof -
  have "keyed e_id (map f E)"
    using assms(1,2) by (auto simp: edges_pure_def intro: keyed_map)
  moreover have "\<exists>key\<in>K. \<exists>m\<in>M. is_member_edge sha key m (f e)"
    if "e \<in> set E" "(e_fromId e \<in> cid sha ` K \<and> e_kind e = DEFINES_KIND) \<or> e_id e \<in> core_ids sha K M" for e
  proof -
    from edges_pureE [OF assms(1) that]
    obtain key m where "key \<in> K" "m \<in> M" "is_member_edge sha key m e" .
    moreover from this have "f e = e" using assms(3) that by (auto simp: is_member_edge_def)
    ultimately show ?thesis by auto
  qed
  ultimately show ?thesis using assms(2) by (auto simp: edges_pure_def)
qed

lemma edge_members_map:
  assumes "edges_pure sha K M E"
    and "\<And>e. e \<in> set E \<Longrightarrow> e_id (f e) = e_id e"
    and "\<And>e. e \<in> set E \<Longrightarrow> e_linkedFrom e = None \<Longrightarrow> f e = e"
  shows "edge_members sha K M (map f E) = edge_members sha K M E"
proof -
  have "is_member_edge sha key m (f e) \<longleftrightarrow> is_member_edge sha key m e"
    if e: "e \<in> set E" and K: "key \<in> K" "m \<in> M" for key m e
  proof
    assume "is_member_edge sha key m e"
    then show "is_member_edge sha key m (f e)" using assms(3) e by (auto simp: is_member_edge_def)
  next
    assume m: "is_member_edge sha key m (f e)"
    then have "e_id e \<in> core_ids sha K M"
      using assms(2) e K core_idsI [OF K, of sha] by (simp add: is_member_edge_def)
    then obtain k' m' where "is_member_edge sha k' m' e"
      using edges_pureE [OF assms(1) e] by blast
    then have "f e = e" using assms(3) e by (auto simp: is_member_edge_def)
    with m show "is_member_edge sha key m e" by simp
  qed
  then show ?thesis by (auto simp: edge_members_def)
qed

lemma edge_members_delete_other:
  assumes "i \<notin> core_ids sha K M"
  shows "edge_members sha K M (delete_by e_id i E) = edge_members sha K M E"
  using assms by (auto simp: edge_members_def table_simps is_member_edge_def core_ids_def)

lemma edge_members_delete:
  assumes "collision_free sha K M" and "key \<in> K" and "m \<in> M"
  shows "edge_members sha K M (delete_by e_id (did sha key m) E) =
    edge_members sha K M E - {(key, m)}"
proof (rule pairs_eqI)
  fix k m'
  show "(k, m') \<in> edge_members sha K M (delete_by e_id (did sha key m) E) \<longleftrightarrow>
      (k, m') \<in> edge_members sha K M E - {(key, m)}"
    using did_eq [OF assms, of k m']
    by (auto simp: edge_membersD table_simps is_member_edge_def)
qed

lemma edges_pure_upsert:
  assumes "edges_pure sha K M E" and "e_id new \<notin> core_ids sha K M"
    and "e_fromId new \<notin> cid sha ` K"
  shows "edges_pure sha K M (upsert_by e_id merge_edge new E)"
    "edge_members sha K M (upsert_by e_id merge_edge new E) = edge_members sha K M E"
proof -
  have merge: "e_id (merge_edge old new) = e_id new" "e_fromId (merge_edge old new) = e_fromId new" for old
    by (simp_all add: merge_edge_def)
  show "edges_pure sha K M (upsert_by e_id merge_edge new E)"
    using assms edge_table.keyed_upsert [of E new]
    unfolding edges_pure_def edge_table.upsert_set by (auto simp: merge split: if_splits)
  have not_core: "e_id new \<noteq> did sha key m" if "key \<in> K" "m \<in> M" for key m
    using assms(2) core_idsI [OF that, of sha] by metis
  show "edge_members sha K M (upsert_by e_id merge_edge new E) = edge_members sha K M E"
  proof (rule pairs_eqI)
    fix k m
    show "(k, m) \<in> edge_members sha K M (upsert_by e_id merge_edge new E) \<longleftrightarrow>
        (k, m) \<in> edge_members sha K M E"
      unfolding edge_membersD edge_table.upsert_set using not_core [of k m]
      by (auto simp: is_member_edge_def merge split: if_splits)
  qed
qed

lemma is_member_edge_member_edge: "is_member_edge sha key m (member_edge sha key m)"
  by (simp add: is_member_edge_def member_edge_def did_def cid_def)

lemma edges_pure_insert:
  assumes "collision_free sha K M" and "edges_pure sha K M E" and "key \<in> K" and "m \<in> M"
  shows "edges_pure sha K M (insert_ignore_by e_id (member_edge sha key m) E)"
    "edge_members sha K M (insert_ignore_by e_id (member_edge sha key m) E) =
       insert (key, m) (edge_members sha K M E)"
proof -
  have id: "e_id (member_edge sha key m) = did sha key m"
    by (simp add: member_edge_def did_def cid_def)
  have core: "did sha key m \<in> core_ids sha K M" by (rule core_idsI [OF assms(3,4)])
  note inj = did_eq [OF assms(1,3,4)]
  have there: "is_member_edge sha key m e" if "e \<in> set E" "e_id e = did sha key m" for e
  proof -
    have "\<exists>k'\<in>K. \<exists>m'\<in>M. is_member_edge sha k' m' e"
      using assms(2) that core unfolding edges_pure_def by metis
    then obtain k' m' where "k' \<in> K" "m' \<in> M" and c: "is_member_edge sha k' m' e" by blast
    with inj that(2) have "k' = key \<and> m' = m" by (metis is_member_edge_def)
    with c show ?thesis by simp
  qed
  show "edges_pure sha K M (insert_ignore_by e_id (member_edge sha key m) E)"
    using assms is_member_edge_member_edge [of sha key m]
    by (auto simp: edges_pure_def table_simps)
  show "edge_members sha K M (insert_ignore_by e_id (member_edge sha key m) E) =
       insert (key, m) (edge_members sha K M E)"
  proof (cases "\<exists>r\<in>set E. e_id r = did sha key m")
    case True
    then obtain r where r: "r \<in> set E" "e_id r = did sha key m" by blast
    have "(key, m) \<in> edge_members sha K M E"
      unfolding edge_membersD using there [OF r] r(1) assms(3,4) by blast
    moreover have "set (insert_ignore_by e_id (member_edge sha key m) E) = set E"
      unfolding insert_ignore_by_set id using True by simp
    ultimately show ?thesis by (simp add: edge_members_def insert_absorb)
  next
    case False
    then have rows: "set (insert_ignore_by e_id (member_edge sha key m) E) =
        insert (member_edge sha key m) (set E)"
      unfolding insert_ignore_by_set id by simp
    have only: "is_member_edge sha k m' (member_edge sha key m) \<longleftrightarrow> k = key \<and> m' = m"
      if "k \<in> K" "m' \<in> M" for k m'
      using inj [OF that] id is_member_edge_member_edge [of sha key m]
      by (metis is_member_edge_def)
    show ?thesis
    proof (rule pairs_eqI)
      fix k m'
      show "(k, m') \<in> edge_members sha K M (insert_ignore_by e_id (member_edge sha key m) E) \<longleftrightarrow>
          (k, m') \<in> insert (key, m) (edge_members sha K M E)"
        unfolding edge_membersD rows insert_iff bex_simps using only [of k m'] assms(3,4) by blast
    qed
  qed
qed

lemma count_members:
  assumes "collision_free sha K M" and "edges_pure sha K M (edges st)" and "key \<in> K"
  shows "count_defines_edges (cid sha key) st = card {m. (key, m) \<in> edge_members sha K M (edges st)}"
proof -
  let ?E = "filter (\<lambda>e. e_fromId e = cid sha key \<and> e_kind e = DEFINES_KIND) (edges st)"
  have k: "keyed e_id (edges st)" using assms(2) by (simp add: edges_pure_def)
  have can: "is_member_edge sha key (e_toId e) e \<and> e_toId e \<in> M" if "e \<in> set ?E" for e
  proof -
    from that have e: "e \<in> set (edges st)" "e_fromId e = cid sha key" "e_kind e = DEFINES_KIND"
      by auto
    with assms(3) have "e_fromId e \<in> cid sha ` K \<and> e_kind e = DEFINES_KIND" by simp
    with edges_pureE [OF assms(2) e(1)]
    obtain k' m' where "k' \<in> K" "m' \<in> M" and c: "is_member_edge sha k' m' e" by blast
    moreover have "k' = key"
      using c e(2) cid_eq [OF assms(1,3) \<open>k' \<in> K\<close>] by (simp add: is_member_edge_def)
    ultimately show ?thesis by (auto simp: is_member_edge_def)
  qed
  have "card (e_toId ` set ?E) = card (set ?E)"
  proof (rule card_image, rule inj_onI)
    fix e f assume "e \<in> set ?E" "f \<in> set ?E" "e_toId e = e_toId f"
    then have "e_id e = e_id f" using can by (metis is_member_edge_def)
    then show "e = f" using keyed_inj [OF k] \<open>e \<in> set ?E\<close> \<open>f \<in> set ?E\<close> by auto
  qed
  moreover have "e_toId ` set ?E = {m. (key, m) \<in> edge_members sha K M (edges st)}"
  proof (rule set_eqI)
    fix m
    show "m \<in> e_toId ` set ?E \<longleftrightarrow> m \<in> {m. (key, m) \<in> edge_members sha K M (edges st)}"
      using can assms(3) unfolding mem_Collect_eq edge_membersD image_iff
      by (auto simp: is_member_edge_def)
  qed
  moreover have "length ?E = card (set ?E)"
    by (rule distinct_card [symmetric]) (rule keyed_distinct [OF keyed_filter [OF k]])
  ultimately show ?thesis
    unfolding count_defines_edges_def by (simp only:)
qed

end
