(* ===== verification/Membership.thy ===== *)
theory Membership
  imports Member_Edges
begin

text \<open>
  The container invariant: the DEFINES edges leaving a container are exactly its members, every
  container row counts them and has at least one, and every member's container has a row and a
  node. \<open>write_diff_membership\<close> shows that a successful diff keeps it, provided the diff names
  plugin rows only (\<open>diff_ok\<close>): containers, their nodes and their edges are core's.
\<close>

abbreviation row_key :: "ContainerRow \<Rightarrow> Key" where
  "row_key c \<equiv> (c_language c, c_key c)"

section \<open>Node side\<close>

definition node_members :: "NodeRow list \<Rightarrow> (Key \<times> string) set" where
  "node_members N = {(key, m). \<exists>r\<in>set N. n_id r = m \<and> row_membership r = Some key}"

lemma node_members_iff:
  "keyed n_id (nodes st) \<Longrightarrow>
     (key, m) \<in> node_members (nodes st) \<longleftrightarrow> current_membership st m = Some key"
  unfolding node_members_def current_membership_def
  by (auto simp: bind_eq_Some_conv select_by_Some)

definition leaves :: "Diff \<Rightarrow> string \<Rightarrow> Key \<Rightarrow> bool" where
  "leaves d m key \<longleftrightarrow> will_be d m \<noteq> Some key \<or> m \<in> set (delete_node_ids d)"

definition container_keys :: "store \<Rightarrow> Key set" where
  "container_keys st = row_key ` set (containers st)"

definition members_of :: "digest \<Rightarrow> Key set \<Rightarrow> string set \<Rightarrow> store \<Rightarrow> Key \<Rightarrow> string set" where
  "members_of sha K M st key = {m. (key, m) \<in> edge_members sha K M (edges st)}"

text \<open>
  The invariant of the container tables, over a universe of container keys \<open>K\<close> and plugin node
  ids \<open>M\<close>.
\<close>

definition rows_ok :: "digest \<Rightarrow> Key set \<Rightarrow> string set \<Rightarrow> store \<Rightarrow> bool" where
  "rows_ok sha K M st \<longleftrightarrow>
     keyed n_id (nodes st) \<and> edges_pure sha K M (edges st) \<and>
     node_members (nodes st) \<subseteq> K \<times> M \<and>
     keyed c_nodeId (containers st) \<and> container_keys st \<subseteq> K \<and>
     (\<forall>c\<in>set (containers st). c_nodeId c = cid sha (c_language c, c_key c) \<and>
        cid sha (c_language c, c_key c) \<in> n_id ` set (nodes st))"

definition counted :: "digest \<Rightarrow> Key set \<Rightarrow> string set \<Rightarrow> store \<Rightarrow> ContainerRow \<Rightarrow> bool" where
  "counted sha K M st c \<longleftrightarrow>
     members_of sha K M st (c_language c, c_key c) \<noteq> {} \<and>
     c_memberCount c = card (members_of sha K M st (c_language c, c_key c))"

definition membership_inv :: "digest \<Rightarrow> Key set \<Rightarrow> string set \<Rightarrow> store \<Rightarrow> bool" where
  "membership_inv sha K M st \<longleftrightarrow>
     rows_ok sha K M st \<and>
     edge_members sha K M (edges st) = node_members (nodes st) \<and>
     (\<forall>c\<in>set (containers st). counted sha K M st c) \<and>
     fst ` edge_members sha K M (edges st) \<subseteq> container_keys st"

definition diff_ok :: "digest \<Rightarrow> Key set \<Rightarrow> string set \<Rightarrow> Diff \<Rightarrow> bool" where
  "diff_ok sha K M d \<longleftrightarrow>
     set (delete_node_ids d) \<subseteq> M \<and>
     (\<forall>n\<in>set (upsert_nodes d). nr_id n \<in> M \<and>
        (case record_membership n of None \<Rightarrow> True | Some key \<Rightarrow> key \<in> K)) \<and>
     set (delete_edge_ids d) \<inter> core_ids sha K M = {} \<and>
     (\<forall>e\<in>set (upsert_edges d). ed_id e \<notin> core_ids sha K M \<and> ed_from_id e \<notin> cid sha ` K)"

section \<open>Detach\<close>

lemma detach_named_spec:
  assumes "collision_free sha K M"
    and "edges_pure sha K M (edges st)"
    and "\<And>m key. current_membership st m = Some key \<Longrightarrow> key \<in> K \<and> m \<in> M"
    and "detach_named sha d ids seen st touched = (st', touched')"
  shows "nodes st' = nodes st \<and> containers st' = containers st \<and>
    edges_pure sha K M (edges st') \<and>
    edge_members sha K M (edges st') = edge_members sha K M (edges st) -
      {(key, m). m \<in> set ids - set seen \<and> current_membership st m = Some key \<and> leaves d m key} \<and>
    set touched' = set touched \<union>
      {key. \<exists>m\<in>set ids - set seen. current_membership st m = Some key \<and> leaves d m key}"
  using assms(2-4)
proof (induction ids arbitrary: seen st touched)
  case Nil
  then show ?case by simp
next
  case (Cons i ids)
  note mem = Cons.prems(2)
  show ?case
  proof (cases "i \<in> set seen")
    case True
    then have "set (i # ids) - set seen = set ids - set seen" by auto
    with Cons.IH [OF Cons.prems(1,2), of seen touched] Cons.prems(3) True show ?thesis by simp
  next
    case new: False
    show ?thesis
    proof (cases "\<exists>was. current_membership st i = Some was \<and> leaves d i was")
      case False
      then have run: "detach_named sha d ids (i # seen) st touched = (st', touched')"
        using Cons.prems(3) new by (auto simp: leaves_def split: option.splits if_splits)
      have "(m \<in> set (i # ids) - set seen \<and> current_membership st m = Some key \<and> leaves d m key) =
          (m \<in> set ids - set (i # seen) \<and> current_membership st m = Some key \<and> leaves d m key)" for m key
        using False new by (auto simp del: split_paired_Ex split_paired_All)
      with Cons.IH [OF Cons.prems(1,2) run] show ?thesis unfolding Bex_def by (simp only:)
    next
      case True
      then obtain was where was: "current_membership st i = Some was" "leaves d i was" by blast
      let ?st = "drop_member_edge sha was i st"
      have cur: "current_membership ?st m = current_membership st m" for m
        by (simp add: current_membership_def drop_member_edge_def)
      have run: "detach_named sha d ids (i # seen) ?st (was # touched) = (st', touched')"
        using Cons.prems(3) new was by (auto simp: leaves_def split: option.splits if_splits)
      have K: "was \<in> K" "i \<in> M" using mem [OF was(1)] by auto
      have E: "edges ?st = delete_by e_id (did sha was i) (edges st)"
        by (simp add: drop_member_edge_def did_def cid_def)
      have pure: "edges_pure sha K M (edges ?st)"
        unfolding E delete_by_def by (rule edges_pure_filter [OF Cons.prems(1)])
      have EM: "edge_members sha K M (edges ?st) = edge_members sha K M (edges st) - {(was, i)}"
        unfolding E by (rule edge_members_delete [OF assms(1) K])
      have "(m \<in> set (i # ids) - set seen \<and> current_membership st m = Some key \<and> leaves d m key) =
          ((key, m) = (was, i) \<or>
           m \<in> set ids - set (i # seen) \<and> current_membership st m = Some key \<and> leaves d m key)" for m key
        using was new by auto
      then show ?thesis
        using Cons.IH [OF pure _ run] mem
        unfolding cur EM Bex_def by (auto simp: drop_member_edge_def)
    qed
  qed
qed

lemma members_rev_set:
  "set (members_rev fm ns listed) =
     {(m, key). m \<in> nr_id ` set ns - set listed \<and> fm m = Some (Some key)}"
proof (induction ns arbitrary: listed)
  case (Cons n ns)
  show ?case
  proof (cases "nr_id n \<in> set listed")
    case True
    with Cons show ?thesis by auto
  next
    case False
    show ?thesis
    proof (cases "\<exists>key. fm (nr_id n) = Some (Some key)")
      case True
      with False Cons [of "nr_id n # listed"] show ?thesis by auto
    next
      case none: False
      with False have "members_rev fm (n # ns) listed = members_rev fm ns (nr_id n # listed)"
        by (auto split: option.splits)
      with none Cons [of "nr_id n # listed"] show ?thesis by auto
    qed
  qed
qed simp

lemma final_membership_None: "final_membership ns m = None \<longleftrightarrow> m \<notin> nr_id ` set ns"
  by (auto simp: final_membership_def map_of_eq_None_iff image_image)

lemma diff_members_set:
  "set (diff_members d) = {(m, key). will_be d m = Some key}"
proof -
  have "fm m = Some (Some key) \<Longrightarrow> fm = final_membership (upsert_nodes d) \<Longrightarrow>
      m \<in> nr_id ` set (upsert_nodes d)" for fm m key
    using final_membership_None [of "upsert_nodes d" m] by auto
  then show ?thesis
    unfolding diff_members_def set_rev members_rev_set will_be_def
    by (auto split: option.splits)
qed

section \<open>The plugin's own writes\<close>

text \<open>
  Between detach and attach nothing touches the container tables, and the member edges stay.
\<close>

definition same_members :: "digest \<Rightarrow> Key set \<Rightarrow> string set \<Rightarrow> store \<Rightarrow> store \<Rightarrow> bool" where
  "same_members sha K M st st' \<longleftrightarrow>
     containers st' = containers st \<and> edges_pure sha K M (edges st') \<and>
     edge_members sha K M (edges st') = edge_members sha K M (edges st)"

lemma delete_edges_spec:
  assumes "edges_pure sha K M (edges st)" and "set ids \<inter> core_ids sha K M = {}"
  shows "same_members sha K M st (fold delete_edge_row ids st) \<and>
    nodes (fold delete_edge_row ids st) = nodes st"
  using assms
proof (induction ids arbitrary: st)
  case (Cons i ids)
  have "edges_pure sha K M (edges (delete_edge_row i st))"
    using edges_pure_filter [OF Cons.prems(1)] by (simp add: delete_edge_row_def delete_by_def)
  from Cons.IH [OF this] Cons.prems show ?case
    by (simp add: same_members_def delete_edge_row_def edge_members_delete_other)
qed (simp add: same_members_def)

lemma delete_nodes_spec:
  assumes "edges_pure sha K M (edges st)"
  shows "same_members sha K M st (fold (delete_node_row ups) ids st) \<and>
    nodes (fold (delete_node_row ups) ids st) = filter (\<lambda>r. n_id r \<notin> set ids) (nodes st)"
  using assms
proof (induction ids arbitrary: st)
  case (Cons i ids)
  let ?st = "delete_node_row ups i st"
  have f: "e_id (unlink_edge i e) = e_id e \<and> e_fromId (unlink_edge i e) = e_fromId e \<and>
      e_kind (unlink_edge i e) = e_kind e"
    "e_linkedFrom e = None \<Longrightarrow> unlink_edge i e = e" for e
    by (auto simp: unlink_edge_def split: option.splits)
  have E: "edges ?st = (if i \<in> set ups then edges st else map (unlink_edge i) (edges st))"
    by (simp add: delete_node_row_def delete_node_rows_def)
  have pure: "edges_pure sha K M (edges ?st)"
    unfolding E using Cons.prems edges_pure_map [OF Cons.prems, of "unlink_edge i"] f by auto
  have EM: "edge_members sha K M (edges ?st) = edge_members sha K M (edges st)"
    unfolding E using edge_members_map [OF Cons.prems, of "unlink_edge i"] f by auto
  have N: "nodes ?st = filter (\<lambda>r. n_id r \<noteq> i) (nodes st)" "containers ?st = containers st"
    by (simp_all add: delete_node_row_def delete_node_rows_def delete_by_def)
  from Cons.IH [OF pure] EM N show ?case
    by (auto simp: same_members_def intro: filter_cong)
qed (simp add: same_members_def)

lemma upsert_node_row_effect:
  assumes "upsert_node_row n st = Inr st'"
  shows "nodes st' = upsert_by n_id merge_node (node_row n) (nodes st)"
    "edges st' = edges st" "containers st' = containers st"
  using assms
  by (auto simp: upsert_node_row_def replace_target_def replace_untyped_calls_def Let_def
      split: if_splits sum.splits option.splits)

lemma row_membership_node_row: "row_membership (node_row n) = record_membership n"
  by (simp add: row_membership_def record_membership_def node_row_def)

lemma current_membership_upsert:
  assumes "keyed n_id (nodes st)"
    and "nodes st' = upsert_by n_id merge_node (node_row n) (nodes st)"
  shows "current_membership st' m =
    (if m = nr_id n then record_membership n else current_membership st m)"
proof -
  have "n_id (node_row n) = nr_id n" by (simp add: node_row_def)
  with assms show ?thesis
    by (auto simp: current_membership_def node_table.select_upsert merge_node_def
        row_membership_node_row split: option.splits)
qed

lemma upsert_nodes_spec:
  assumes "try_fold upsert_node_row ns st = Inr st'" and "keyed n_id (nodes st)"
  shows "edges st' = edges st \<and> containers st' = containers st \<and> keyed n_id (nodes st') \<and>
    n_id ` set (nodes st) \<subseteq> n_id ` set (nodes st') \<and>
    (\<forall>m. current_membership st' m =
       (case final_membership ns m of None \<Rightarrow> current_membership st m | Some k \<Rightarrow> k))"
  using assms
proof (induction ns arbitrary: st)
  case Nil
  then show ?case by (simp add: final_membership_def)
next
  case (Cons n ns)
  then obtain s1 where s1: "upsert_node_row n st = Inr s1" and rest: "try_fold upsert_node_row ns s1 = Inr st'"
    by (auto split: sum.splits)
  note eff = upsert_node_row_effect [OF s1]
  have k1: "keyed n_id (nodes s1)" unfolding eff(1) by (rule node_table.keyed_upsert [OF Cons.prems(2)])
  have fm: "final_membership (n # ns) m =
      (case final_membership ns m of None \<Rightarrow> if m = nr_id n then Some (record_membership n) else None
       | Some k \<Rightarrow> Some k)" for m
    by (auto simp: final_membership_def map_add_def map_of_append split: option.splits)
  have sub: "n_id ` set (nodes st) \<subseteq> n_id ` set (nodes s1)"
    unfolding eff(1) node_table.upsert_keys by blast
  note IH = Cons.IH [OF rest k1]
  have "n_id ` set (nodes st) \<subseteq> n_id ` set (nodes st')" using IH sub by blast
  then show ?case
    using IH eff(2,3) current_membership_upsert [OF Cons.prems(2) eff(1)]
    by (simp add: fm split: option.splits)
qed

lemma upsert_edges_spec:
  assumes "try_fold upsert_edge_row es st = Inr st'" and "edges_pure sha K M (edges st)"
    and "\<forall>e\<in>set es. ed_id e \<notin> core_ids sha K M \<and> ed_from_id e \<notin> cid sha ` K"
  shows "same_members sha K M st st' \<and> nodes st' = nodes st"
  using assms
proof (induction es arbitrary: st)
  case (Cons e es)
  then obtain s1 where s1: "upsert_edge_row e st = Inr s1" and rest: "try_fold upsert_edge_row es s1 = Inr st'"
    by (auto split: sum.splits)
  have E: "edges s1 = upsert_by e_id merge_edge (edge_row e) (edges st)" "nodes s1 = nodes st"
    "containers s1 = containers st"
    using s1 by (auto simp: upsert_edge_row_def split: if_splits)
  have r: "e_id (edge_row e) \<notin> core_ids sha K M" "e_fromId (edge_row e) \<notin> cid sha ` K"
    using Cons.prems(3) by (auto simp: edge_row_def)
  note up = edges_pure_upsert [OF Cons.prems(2) r]
  have "same_members sha K M s1 st' \<and> nodes st' = nodes s1"
    by (rule Cons.IH [OF rest]) (use up(1) E(1) Cons.prems(3) in auto)
  then show ?case using E up(2) by (simp add: same_members_def)
qed (simp add: same_members_def)

section \<open>Attach\<close>

lemma row_membership_container_node: "row_membership (container_node i key) = None"
  by (simp add: row_membership_def container_node_def membership_def)

lemma container_ids:
  assumes "collision_free sha K M" and "rows_ok sha K M st" and "key \<in> K" and "c \<in> set (containers st)"
  shows "c_nodeId c = cid sha key \<longleftrightarrow> (c_language c, c_key c) = key"
proof -
  have "(c_language c, c_key c) \<in> K" "c_nodeId c = cid sha (c_language c, c_key c)"
    using assms(2,4) by (auto simp: rows_ok_def container_keys_def)
  with cid_eq [OF assms(1,3)] show ?thesis by auto
qed

lemma ensure_container_spec:
  assumes "collision_free sha K M" and "rows_ok sha K M st" and "key \<in> K"
    and "ensure_container (cid sha key) key st = (st', new)"
  shows "edges st' = edges st \<and> rows_ok sha K M st' \<and> node_members (nodes st') = node_members (nodes st) \<and>
    set (containers st) \<subseteq> set (containers st') \<and> container_keys st' = insert key (container_keys st) \<and>
    (\<forall>c\<in>set (containers st') - set (containers st). (c_language c, c_key c) = key)"
proof -
  let ?N = "insert_ignore_by n_id (container_node (cid sha key) key) (nodes st)"
  have id: "n_id (container_node (cid sha key) key) = cid sha key" by (simp add: container_node_def)
  have N: "nodes st' = ?N" "edges st' = edges st"
    using assms(4) by (auto simp: ensure_container_def Let_def split: if_splits)
  have keyed: "keyed n_id ?N" using assms(2) by (simp add: rows_ok_def)
  have nm: "node_members ?N = node_members (nodes st)"
    by (auto simp: node_members_def insert_ignore_by_set row_membership_container_node)
  have ids: "n_id ` set ?N = insert (cid sha key) (n_id ` set (nodes st))"
    by (auto simp: insert_ignore_by_set id image_iff) (metis)
  have old: "\<forall>c\<in>set (containers st). c_nodeId c = cid sha (c_language c, c_key c) \<and>
      cid sha (c_language c, c_key c) \<in> n_id ` set ?N"
    unfolding ids using assms(2) unfolding rows_ok_def by simp
  show ?thesis
  proof (cases "list_ex (container_conflict (cid sha key) key) (containers st)")
    case True
    then have C: "containers st' = containers st"
      using assms(4) by (auto simp: ensure_container_def Let_def)
    from True obtain c where "c \<in> set (containers st)" "container_conflict (cid sha key) key c"
      by (auto simp: list_ex_iff)
    then have "key \<in> container_keys st"
      using container_ids [OF assms(1-3), of c]
      by (cases key) (auto simp: container_conflict_def container_keys_def image_iff)
    then show ?thesis
      using assms(2) old C N nm keyed
      by (simp add: rows_ok_def container_keys_def insert_absorb)
  next
    case False
    let ?c = "\<lparr>c_nodeId = cid sha key, c_language = fst key, c_key = snd key,
                    c_parentKey = None, c_memberCount = 0\<rparr>"
    have C: "containers st' = containers st @ [?c]"
      using False assms(4) by (auto simp: ensure_container_def Let_def)
    have "cid sha key \<notin> c_nodeId ` set (containers st)"
      using False by (auto simp: list_ex_iff container_conflict_def)
    then have "keyed c_nodeId (containers st')"
      using assms(2) by (auto simp: C rows_ok_def keyed_def)
    then show ?thesis
      using assms(2,3) old C N nm keyed ids by (simp add: rows_ok_def container_keys_def) auto
  qed
qed

lemma attach_members_spec:
  assumes "collision_free sha K M" and "rows_ok sha K M st" and "set ms \<subseteq> M \<times> K"
    and "attach_members sha ms st created = (st', created')"
  shows "rows_ok sha K M st' \<and> node_members (nodes st') = node_members (nodes st) \<and>
    edge_members sha K M (edges st') =
      edge_members sha K M (edges st) \<union> {(key, m). (m, key) \<in> set ms} \<and>
    set (containers st) \<subseteq> set (containers st') \<and>
    container_keys st' = container_keys st \<union> snd ` set ms \<and>
    (\<forall>c\<in>set (containers st') - set (containers st). (c_language c, c_key c) \<in> snd ` set ms)"
  using assms(2-4)
proof (induction ms arbitrary: st created)
  case Nil
  then show ?case by simp
next
  case (Cons mk ms)
  obtain m key where mk: "mk = (m, key)" by (cases mk)
  have K: "key \<in> K" "m \<in> M" using Cons.prems(2) mk by auto
  obtain s1 new where s1: "ensure_container (cid sha key) key st = (s1, new)" by fastforce
  let ?s2 = "s1\<lparr>edges := insert_ignore_by e_id (member_edge sha key m) (edges s1)\<rparr>"
  note ens = ensure_container_spec [OF assms(1) Cons.prems(1) K(1) s1]
  then have rows: "rows_ok sha K M s1" and e1: "edges s1 = edges st" by auto
  then have pure: "edges_pure sha K M (edges s1)" by (simp add: rows_ok_def)
  note ins = edges_pure_insert [OF assms(1) pure K]
  have rows2: "rows_ok sha K M ?s2"
    using rows ins(1) by (simp add: rows_ok_def container_keys_def)
  have run: "attach_members sha ms ?s2 (if new then key # created else created) = (st', created')"
    using Cons.prems(3) s1 by (simp add: mk Let_def cid_def)
  have "set ms \<subseteq> M \<times> K" using Cons.prems(2) by auto
  note IH = Cons.IH [OF rows2 this run]
  have ck: "container_keys ?s2 = insert key (container_keys st)"
    using ens by (simp add: container_keys_def)
  have em: "edge_members sha K M (edges ?s2) = insert (key, m) (edge_members sha K M (edges st))"
    using ins(2) e1 by simp
  have new_rows: "\<forall>c\<in>set (containers st') - set (containers st).
      (c_language c, c_key c) \<in> snd ` set (mk # ms)"
  proof
    fix c assume c: "c \<in> set (containers st') - set (containers st)"
    show "(c_language c, c_key c) \<in> snd ` set (mk # ms)"
    proof (cases "c \<in> set (containers s1)")
      case True
      with c ens have "(c_language c, c_key c) = key" by blast
      then show ?thesis by (simp add: mk)
    next
      case False
      with c IH show ?thesis by simp
    qed
  qed
  have grow: "set (containers st) \<subseteq> set (containers st')" using ens IH by auto
  have mems: "edge_members sha K M (edges st') =
      edge_members sha K M (edges st) \<union> {(k, m). (m, k) \<in> set (mk # ms)}"
    using IH unfolding em by (auto simp: mk)
  show ?case using IH ens ck new_rows grow mems by (simp add: mk)
qed

lemma apply_parents_spec:
  "rows_ok sha K M (apply_parents ps st) = rows_ok sha K M st"
  "nodes (apply_parents ps st) = nodes st" "edges (apply_parents ps st) = edges st"
  "container_keys (apply_parents ps st) = container_keys st"
  "c \<in> set (containers (apply_parents ps st)) \<Longrightarrow>
     \<exists>c0\<in>set (containers st). c_language c = c_language c0 \<and> c_key c = c_key c0 \<and>
       c_nodeId c = c_nodeId c0 \<and> c_memberCount c = c_memberCount c0"
proof -
  have f: "c_language (set_parent ps c) = c_language c" "c_key (set_parent ps c) = c_key c"
    "c_nodeId (set_parent ps c) = c_nodeId c" "c_memberCount (set_parent ps c) = c_memberCount c" for c
    by (auto simp: set_parent_def split: option.splits)
  show *: "nodes (apply_parents ps st) = nodes st" "edges (apply_parents ps st) = edges st"
    "container_keys (apply_parents ps st) = container_keys st"
    by (simp_all add: apply_parents_def container_keys_def image_image f)
  show "rows_ok sha K M (apply_parents ps st) = rows_ok sha K M st"
    unfolding rows_ok_def * by (simp add: apply_parents_def keyed_def f comp_def)
  show "c \<in> set (containers (apply_parents ps st)) \<Longrightarrow>
     \<exists>c0\<in>set (containers st). c_language c = c_language c0 \<and> c_key c = c_key c0 \<and>
       c_nodeId c = c_nodeId c0 \<and> c_memberCount c = c_memberCount c0"
    by (auto simp: apply_parents_def f)
qed

section \<open>Recount\<close>

lemma edge_members_disjoint:
  assumes "collision_free sha K M" and "edges_pure sha K M E" and "key \<in> K"
    and "{m. (key, m) \<in> edge_members sha K M E} = {}"
  shows "edge_members sha K M
      (filter (\<lambda>e. e_fromId e \<noteq> cid sha key \<and> e_toId e \<noteq> cid sha key) E) = edge_members sha K M E"
proof (rule pairs_eqI)
  fix k m
  have "e_fromId e \<noteq> cid sha key \<and> e_toId e \<noteq> cid sha key"
    if "k \<in> K" "m \<in> M" "e \<in> set E" "is_member_edge sha k m e" for e
  proof -
    have "k \<noteq> key" using assms(4) that unfolding edge_members_def by blast
    then have "cid sha k \<noteq> cid sha key" using cid_eq [OF assms(1,3) that(1)] by simp
    moreover have "m \<noteq> cid sha key"
      using assms(1,3) that(2) by (auto simp: collision_free_def)
    ultimately show ?thesis using that(4) by (simp add: is_member_edge_def)
  qed
  then show "(k, m) \<in> edge_members sha K M
      (filter (\<lambda>e. e_fromId e \<noteq> cid sha key \<and> e_toId e \<noteq> cid sha key) E) \<longleftrightarrow>
      (k, m) \<in> edge_members sha K M E"
    unfolding edge_membersD by auto
qed

lemma recount_spec:
  assumes "collision_free sha K M" and "rows_ok sha K M st" and "key \<in> K"
    and "finite (members_of sha K M st key)"
  shows "rows_ok sha K M (recount sha key st) \<and>
    edge_members sha K M (edges (recount sha key st)) = edge_members sha K M (edges st) \<and>
    node_members (nodes (recount sha key st)) = node_members (nodes st) \<and>
    set (containers (recount sha key st)) =
      {c \<in> set (containers st). (c_language c, c_key c) \<noteq> key} \<union>
      (if members_of sha K M st key = {} then {}
       else {c\<lparr>c_memberCount := card (members_of sha K M st key)\<rparr> | c.
             c \<in> set (containers st) \<and> (c_language c, c_key c) = key})"
proof -
  have pure: "edges_pure sha K M (edges st)" using assms(2) by (simp add: rows_ok_def)
  note ids = container_ids [OF assms(1-3)]
  have count: "count_defines_edges (cid sha key) st = card (members_of sha K M st key)"
    using count_members [OF assms(1) pure assms(3)] by (simp add: members_of_def)
  show ?thesis
  proof (cases "members_of sha K M st key = {}")
    case True
    let ?st = "recount sha key st"
    have st: "?st = delete_container (cid sha key) st"
      using count True by (simp add: recount_def Let_def flip: cid_def)
    have E: "edges ?st = filter (\<lambda>e. e_fromId e \<noteq> cid sha key \<and> e_toId e \<noteq> cid sha key) (edges st)"
      and C: "containers ?st = delete_by c_nodeId (cid sha key) (containers st)"
      and N: "nodes ?st = delete_by n_id (cid sha key) (nodes st)"
      unfolding st by (simp_all add: delete_container_def delete_node_rows_def)
    have em: "edge_members sha K M (edges ?st) = edge_members sha K M (edges st)"
      unfolding E by (rule edge_members_disjoint [OF assms(1) pure assms(3)])
        (use True in \<open>simp add: members_of_def\<close>)
    have "cid sha key \<notin> M" using assms(1,3) by (auto simp: collision_free_def)
    then have nm: "node_members (nodes ?st) = node_members (nodes st)"
      unfolding N using assms(2) by (auto simp: rows_ok_def node_members_def table_simps)
    have cs: "set (containers ?st) = {c \<in> set (containers st). (c_language c, c_key c) \<noteq> key}"
      unfolding C delete_by_set using ids by auto
    have "rows_ok sha K M ?st"
      using assms(2) nm edges_pure_filter [OF pure]
      by (auto simp: rows_ok_def C E N container_keys_def delete_by_set image_iff) metis
    with em nm cs True show ?thesis by simp
  next
    case False
    let ?n = "card (members_of sha K M st key)"
    let ?f = "\<lambda>c. if c_nodeId c = cid sha key then c\<lparr>c_memberCount := ?n\<rparr> else c"
    have "?n \<noteq> 0" using False assms(4) by simp
    then have st: "recount sha key st = st\<lparr>containers := map ?f (containers st)\<rparr>"
      using count by (simp add: recount_def Let_def flip: cid_def)
    have f: "c_language (?f c) = c_language c" "c_key (?f c) = c_key c" "c_nodeId (?f c) = c_nodeId c" for c
      by auto
    have "rows_ok sha K M (recount sha key st)"
    proof -
      have "container_keys (st\<lparr>containers := map ?f (containers st)\<rparr>) = container_keys st"
      proof -
        have "row_key ` ?f ` set (containers st) = row_key ` set (containers st)"
          unfolding image_image by (rule image_cong) auto
        moreover have "containers (st\<lparr>containers := xs\<rparr>) = xs" for xs by simp
        ultimately show ?thesis by (simp only: container_keys_def set_map)
      qed
      moreover have "keyed c_nodeId (map ?f (containers st))"
        by (rule keyed_map) (use assms(2) in \<open>simp_all add: rows_ok_def\<close>)
      moreover have "\<forall>c\<in>set (map ?f (containers st)). c_nodeId c = cid sha (row_key c) \<and>
          cid sha (row_key c) \<in> n_id ` set (nodes st)"
      proof
        fix c' assume "c' \<in> set (map ?f (containers st))"
        then obtain c where "c \<in> set (containers st)" and c': "c' = ?f c" unfolding set_map by blast
        with assms(2) show "c_nodeId c' = cid sha (row_key c') \<and> cid sha (row_key c') \<in> n_id ` set (nodes st)"
          unfolding c' f rows_ok_def by blast
      qed
      moreover have "containers (st\<lparr>containers := xs\<rparr>) = xs" "nodes (st\<lparr>containers := xs\<rparr>) = nodes st"
        "edges (st\<lparr>containers := xs\<rparr>) = edges st" for xs by simp_all
      ultimately show ?thesis using assms(2) unfolding st rows_ok_def by (simp only:)
    qed
    moreover have "set (containers (recount sha key st)) =
        {c \<in> set (containers st). (c_language c, c_key c) \<noteq> key} \<union>
        {c\<lparr>c_memberCount := ?n\<rparr> | c. c \<in> set (containers st) \<and> (c_language c, c_key c) = key}"
      unfolding st using ids by (auto simp: image_iff)
    ultimately show ?thesis using False by (simp add: st)
  qed
qed

section \<open>The whole write\<close>

lemma finite_node_members: "finite (node_members N)"
proof (rule finite_subset)
  show "node_members N \<subseteq> (\<lambda>r. (the (row_membership r), n_id r)) ` set N"
    by (force simp: node_members_def)
qed simp

lemma recount_fold_spec:
  assumes "collision_free sha K M" and "rows_ok sha K M st" and "set ks \<subseteq> K"
    and "finite (edge_members sha K M (edges st))"
  defines "st' \<equiv> fold (recount sha) ks st"
  shows "rows_ok sha K M st' \<and>
    edge_members sha K M (edges st') = edge_members sha K M (edges st) \<and>
    node_members (nodes st') = node_members (nodes st) \<and>
    (\<forall>c'\<in>set (containers st'). \<exists>c\<in>set (containers st). row_key c' = row_key c \<and>
       (if row_key c \<in> set ks then members_of sha K M st (row_key c) \<noteq> {} \<and>
          c_memberCount c' = card (members_of sha K M st (row_key c)) else c' = c)) \<and>
    (\<forall>c\<in>set (containers st). row_key c \<notin> set ks \<or> members_of sha K M st (row_key c) \<noteq> {}
       \<longrightarrow> row_key c \<in> container_keys st')"
  using assms(2-4) unfolding st'_def
proof (induction ks arbitrary: st)
  case Nil
  then show ?case by (auto simp: container_keys_def)
next
  case (Cons key ks)
  let ?s = "recount sha key st"
  have "members_of sha K M st key \<subseteq> snd ` edge_members sha K M (edges st)"
    by (force simp: members_of_def)
  then have fin: "finite (members_of sha K M st key)"
    using Cons.prems(3) finite_surj by blast
  have key: "key \<in> K" using Cons.prems(2) by simp
  note r = recount_spec [OF assms(1) Cons.prems(1) key fin]
  then have rok: "rows_ok sha K M ?s"
    and em: "edge_members sha K M (edges ?s) = edge_members sha K M (edges st)"
    and nm: "node_members (nodes ?s) = node_members (nodes st)" by simp_all
  have mo: "members_of sha K M ?s k = members_of sha K M st k" for k
    using em by (simp add: members_of_def)
  have "set ks \<subseteq> K" using Cons.prems(2) by simp
  note IH = Cons.IH [OF rok this, unfolded em nm mo, OF Cons.prems(3)]
  have row: "\<exists>c\<in>set (containers st). row_key c' = row_key c \<and>
      (if row_key c = key then members_of sha K M st key \<noteq> {} \<and>
         c_memberCount c' = card (members_of sha K M st key) else c' = c)"
    if "c' \<in> set (containers ?s)" for c'
    using that r by (auto split: if_splits)
  have keeps: "row_key c \<noteq> key \<or> members_of sha K M st key \<noteq> {} \<longrightarrow>
      (\<exists>c'\<in>set (containers ?s). row_key c' = row_key c)" if "c \<in> set (containers st)" for c
  proof (cases "row_key c = key")
    case True
    have "c\<lparr>c_memberCount := card (members_of sha K M st key)\<rparr> \<in> set (containers ?s)"
      if "members_of sha K M st key \<noteq> {}"
      using that True r \<open>c \<in> set (containers st)\<close> by auto
    with True show ?thesis by force
  next
    case False
    with that r have "c \<in> set (containers ?s)" by simp
    then show ?thesis by blast
  qed
  show ?case
  proof (intro conjI ballI impI)
    fix c' assume "c' \<in> set (containers (fold (recount sha) (key # ks) st))"
    then obtain c1 where c1: "c1 \<in> set (containers ?s)" "row_key c' = row_key c1"
      "if row_key c1 \<in> set ks then members_of sha K M st (row_key c1) \<noteq> {} \<and>
          c_memberCount c' = card (members_of sha K M st (row_key c1)) else c' = c1"
      using IH by auto
    from row [OF c1(1)] c1(2,3) show "\<exists>c\<in>set (containers st). row_key c' = row_key c \<and>
       (if row_key c \<in> set (key # ks) then members_of sha K M st (row_key c) \<noteq> {} \<and>
          c_memberCount c' = card (members_of sha K M st (row_key c)) else c' = c)"
      by (metis (no_types, lifting) list.set_intros set_ConsD)
  next
    fix c assume c: "c \<in> set (containers st)"
      and "row_key c \<notin> set (key # ks) \<or> members_of sha K M st (row_key c) \<noteq> {}"
    then show "row_key c \<in> container_keys (fold (recount sha) (key # ks) st)"
      using keeps [OF c] IH by (metis fold_simps(2) list.set_intros)
  qed (use IH in simp_all)
qed

lemma attach_spec:
  assumes cf: "collision_free sha K M" and rows: "rows_ok sha K M st"
    and ms: "set (p_members p) \<subseteq> M \<times> K" and touched: "set (p_touched p) \<subseteq> K"
    and joined: "snd ` set (p_members p) \<subseteq> set (p_touched p)"
    and EM: "edge_members sha K M (edges st) \<union> {(key, m). (m, key) \<in> set (p_members p)} =
      node_members (nodes st)"
    and counts: "\<And>c. c \<in> set (containers st) \<Longrightarrow> row_key c \<notin> set (p_touched p) \<Longrightarrow> counted sha K M st c"
    and has: "fst ` edge_members sha K M (edges st) \<subseteq> container_keys st"
  shows "membership_inv sha K M (attach sha p st)"
proof -
  obtain s1 created where s1: "attach_members sha (p_members p) st [] = (s1, created)" by fastforce
  note a = attach_members_spec [OF cf rows ms s1]
  define s2 where "s2 = apply_parents (p_parents p) s1"
  note ap = apply_parents_spec [where ps = "p_parents p" and st = s1, folded s2_def]
  have rows2: "rows_ok sha K M s2" using a ap(1) by simp
  have EM2: "edge_members sha K M (edges s2) = node_members (nodes s2)"
    using a EM by (simp add: ap(2,3))
  have fin: "finite (edge_members sha K M (edges s2))"
    unfolding EM2 by (rule finite_node_members)
  note rc = recount_fold_spec [OF cf rows2 touched fin]
  let ?s3 = "fold (recount sha) (p_touched p) s2"
  have s3: "attach sha p st = ?s3" by (simp add: attach_def s1 s2_def Let_def)
  have mo3: "members_of sha K M ?s3 k = members_of sha K M s2 k" for k
    using rc by (simp add: members_of_def)
  have same: "members_of sha K M s2 k = members_of sha K M st k" if "k \<notin> set (p_touched p)" for k
    using a joined that by (force simp: members_of_def ap(3))
  have cnt: "counted sha K M ?s3 c'" if "c' \<in> set (containers ?s3)" for c'
  proof -
    from rc that obtain c where c: "c \<in> set (containers s2)" "row_key c' = row_key c"
      "if row_key c \<in> set (p_touched p) then members_of sha K M s2 (row_key c) \<noteq> {} \<and>
          c_memberCount c' = card (members_of sha K M s2 (row_key c)) else c' = c" by blast
    show ?thesis
    proof (cases "row_key c \<in> set (p_touched p)")
      case True
      with c show ?thesis by (simp add: counted_def mo3)
    next
      case False
      obtain c0 where c0: "c0 \<in> set (containers s1)" "row_key c = row_key c0"
        "c_memberCount c = c_memberCount c0" using ap(5) [OF c(1)] by force
      have "c0 \<in> set (containers st)"
        using a c0 joined False by (metis (no_types, lifting) DiffI subsetD)
      from counts [OF this] False c c0 same [OF False] show ?thesis
        by (simp add: counted_def mo3)
    qed
  qed
  have "fst ` edge_members sha K M (edges s2) \<subseteq> container_keys s2"
  proof -
    have "fst ` {(key, m). (m, key) \<in> S} = snd ` S" for S :: "(string \<times> Key) set"
      by force
    then show ?thesis using a has by (auto simp only: ap(3,4) image_Un)
  qed
  then have keys2: "\<And>k m. (k, m) \<in> edge_members sha K M (edges s2) \<Longrightarrow> k \<in> container_keys s2"
    by force
  have "k \<in> container_keys ?s3" if km: "(k, m) \<in> edge_members sha K M (edges ?s3)" for k m
  proof -
    have em: "(k, m) \<in> edge_members sha K M (edges s2)" using rc km by simp
    obtain c where "c \<in> set (containers s2)" "row_key c = k"
      using keys2 [OF em] by (auto simp: container_keys_def)
    moreover have "members_of sha K M s2 k \<noteq> {}" using em by (auto simp: members_of_def)
    ultimately show ?thesis using rc by blast
  qed
  then have "fst ` edge_members sha K M (edges ?s3) \<subseteq> container_keys ?s3" by auto
  moreover have "edge_members sha K M (edges ?s3) = node_members (nodes ?s3)"
    using rc EM2 by simp
  ultimately show ?thesis unfolding s3 membership_inv_def using rc cnt by simp
qed

lemma will_be_ok:
  assumes "diff_ok sha K M d" and "will_be d m = Some key"
  shows "m \<in> nr_id ` set (upsert_nodes d) \<and> m \<in> M \<and> key \<in> K"
proof -
  have "(m, Some key) \<in> set (map (\<lambda>n. (nr_id n, record_membership n)) (upsert_nodes d))"
    using assms(2) unfolding will_be_def final_membership_def
    by (auto dest!: map_of_SomeD split: option.splits)
  then obtain n where n: "n \<in> set (upsert_nodes d)" "nr_id n = m" "record_membership n = Some key"
    by auto
  then have "nr_id n \<in> M \<and> (case record_membership n of None \<Rightarrow> True | Some key \<Rightarrow> key \<in> K)"
    using assms(1) n(1) unfolding diff_ok_def by blast
  with n show ?thesis by auto
qed

lemma detach_run:
  assumes cf: "collision_free sha K M" and inv: "membership_inv sha K M st" and ok: "diff_ok sha K M d"
    and run: "detach sha st d = (s0, Some p)"
  shows "nodes s0 = nodes st" "containers s0 = containers st" "edges_pure sha K M (edges s0)"
    "edge_members sha K M (edges s0) = {(key, m). current_membership st m = Some key \<and>
       (m \<in> set (delete_node_ids d) \<union> nr_id ` set (upsert_nodes d) \<longrightarrow> \<not> leaves d m key)}"
    "p_members p = diff_members d"
    "set (p_touched p) \<supseteq> {key. \<exists>m. current_membership st m = Some key \<and>
       m \<in> set (delete_node_ids d) \<union> nr_id ` set (upsert_nodes d) \<and> leaves d m key}"
    "set (p_touched p) \<supseteq> snd ` set (diff_members d)" "set (p_touched p) \<subseteq> K"
proof -
  have k: "keyed n_id (nodes st)" and pure: "edges_pure sha K M (edges st)"
    and sub: "node_members (nodes st) \<subseteq> K \<times> M"
    and em: "edge_members sha K M (edges st) = node_members (nodes st)"
    using inv by (auto simp: membership_inv_def rows_ok_def)
  note cur = node_members_iff [OF k]
  let ?named = "delete_node_ids d @ map nr_id (upsert_nodes d)"
  obtain s1 t where r: "detach_named sha d ?named [] st [] = (s1, t)" by fastforce
  have p: "s0 = s1" "p = \<lparr>p_members = diff_members d, p_parents = joined_parents (upsert_nodes d),
      p_touched = btree_set (t @ map snd (diff_members d) @ map fst (joined_parents (upsert_nodes d)))\<rparr>"
    using run r by (auto simp: detach_def Let_def split: if_splits)
  have mem: "key \<in> K \<and> m \<in> M" if "current_membership st m = Some key" for m key
    using that sub cur by blast
  note spec = detach_named_spec [OF cf pure mem r]
  then show "nodes s0 = nodes st" "containers s0 = containers st" "edges_pure sha K M (edges s0)"
    by (simp_all add: p(1))
  show "edge_members sha K M (edges s0) = {(key, m). current_membership st m = Some key \<and>
       (m \<in> set (delete_node_ids d) \<union> nr_id ` set (upsert_nodes d) \<longrightarrow> \<not> leaves d m key)}"
    using spec em cur by (intro pairs_eqI) (simp add: p(1), blast)
  show "p_members p = diff_members d" by (simp add: p(2))
  have T: "set (p_touched p) = set t \<union> snd ` set (diff_members d) \<union>
      fst ` set (joined_parents (upsert_nodes d))" by (simp add: p(2) Un_assoc)
  show "set (p_touched p) \<supseteq> {key. \<exists>m. current_membership st m = Some key \<and>
       m \<in> set (delete_node_ids d) \<union> nr_id ` set (upsert_nodes d) \<and> leaves d m key}"
    unfolding T using spec by auto
  show "set (p_touched p) \<supseteq> snd ` set (diff_members d)" unfolding T by blast
  have joins: "key \<in> K" if "n \<in> set (upsert_nodes d)" "record_membership n = Some key" for n key
  proof -
    have "case record_membership n of None \<Rightarrow> True | Some key \<Rightarrow> key \<in> K"
      using ok that(1) by (simp add: diff_ok_def)
    with that(2) show ?thesis by simp
  qed
  have "set t \<subseteq> K" using spec mem by auto
  moreover have "fst ` set (joined_parents (upsert_nodes d)) \<subseteq> K"
    using joins by (auto simp: joined_parents_def map_filter_def)
  moreover have "snd ` set (diff_members d) \<subseteq> K"
    using will_be_ok [OF ok] by (auto simp: diff_members_set)
  ultimately show "set (p_touched p) \<subseteq> K" unfolding T by blast
qed

lemma write_middle:
  assumes "keyed n_id (nodes st)" and "edges_pure sha K M (edges st)" and ok: "diff_ok sha K M d"
    and "s2 = fold (delete_node_row (map nr_id (upsert_nodes d))) (delete_node_ids d)
               (fold delete_edge_row (delete_edge_ids d) st)"
    and "try_fold upsert_node_row (upsert_nodes d) s2 = Inr s3"
    and "try_fold upsert_edge_row (upsert_edges d) s3 = Inr s4"
  shows "same_members sha K M st s4" "keyed n_id (nodes s4)"
    "n_id ` set (nodes st) - set (delete_node_ids d) \<subseteq> n_id ` set (nodes s4)"
    "current_membership s4 m = (if m \<in> nr_id ` set (upsert_nodes d) then will_be d m
       else if m \<in> set (delete_node_ids d) then None else current_membership st m)"
proof -
  let ?s1 = "fold delete_edge_row (delete_edge_ids d) st"
  have a: "same_members sha K M st ?s1 \<and> nodes ?s1 = nodes st"
    using delete_edges_spec [OF assms(2)] ok by (auto simp: diff_ok_def)
  have b: "same_members sha K M ?s1 s2 \<and>
      nodes s2 = filter (\<lambda>r. n_id r \<notin> set (delete_node_ids d)) (nodes ?s1)"
    unfolding assms(4) by (rule delete_nodes_spec) (use a in \<open>simp add: same_members_def\<close>)
  have k2: "keyed n_id (nodes s2)" using a b assms(1) by (simp add: keyed_filter)
  note c = upsert_nodes_spec [OF assms(5) k2]
  have e: "same_members sha K M s3 s4 \<and> nodes s4 = nodes s3"
    by (rule upsert_edges_spec [OF assms(6)])
      (use c b ok in \<open>simp_all add: same_members_def diff_ok_def\<close>)
  show "same_members sha K M st s4" using a b c e by (simp add: same_members_def)
  show "keyed n_id (nodes s4)" using c e by simp
  show "n_id ` set (nodes st) - set (delete_node_ids d) \<subseteq> n_id ` set (nodes s4)"
    using a b c e by auto
  have s2: "current_membership s2 m =
      (if m \<in> set (delete_node_ids d) then None else current_membership st m)"
  proof (cases "m \<in> set (delete_node_ids d)")
    case True
    then have "select_by n_id m (nodes s2) = None" using b by (auto simp: select_by_None)
    with True show ?thesis by (simp add: current_membership_def)
  next
    case False
    have "select_by n_id m (nodes s2) = select_by n_id m (nodes st)"
      using False a b by (auto intro: select_by_filter)
    with False show ?thesis by (simp add: current_membership_def)
  qed
  show "current_membership s4 m = (if m \<in> nr_id ` set (upsert_nodes d) then will_be d m
       else if m \<in> set (delete_node_ids d) then None else current_membership st m)"
    using c e s2 final_membership_None [of "upsert_nodes d" m]
    by (auto simp: will_be_def current_membership_def split: option.splits)
qed


lemma write_diff_membership:
  assumes cf: "collision_free sha K M" and inv: "membership_inv sha K M st" and ok: "diff_ok sha K M d"
    and run: "write_diff sha d st = Inr st'"
  shows "membership_inv sha K M st'"
proof -
  obtain s0 pending where det: "detach sha st d = (s0, pending)" by fastforce
  define s2 where "s2 = fold (delete_node_row (map nr_id (upsert_nodes d))) (delete_node_ids d)
      (fold delete_edge_row (delete_edge_ids d) s0)"
  from run det obtain s3 s4 where s3: "try_fold upsert_node_row (upsert_nodes d) s2 = Inr s3"
    and s4: "try_fold upsert_edge_row (upsert_edges d) s3 = Inr s4"
    and st': "st' = (case pending of None \<Rightarrow> s4 | Some p \<Rightarrow> attach sha p s4)"
    by (auto simp: write_diff_def Let_def s2_def split: sum.splits)
  have k: "keyed n_id (nodes st)" and sub: "node_members (nodes st) \<subseteq> K \<times> M"
    and rok: "rows_ok sha K M st"
    using inv by (auto simp: membership_inv_def rows_ok_def)
  note cur = node_members_iff [OF k]
  show ?thesis
  proof (cases pending)
    case None
    then have s0: "s0 = st" and none: "\<And>n. n \<in> set (upsert_nodes d) \<Longrightarrow> record_membership n = None"
      and empty: "containers st = []"
      using det by (auto simp: detach_def Let_def list_ex_iff simp del: not_Some_eq not_None_eq
          split: if_splits prod.splits)
    have pure: "edges_pure sha K M (edges s0)" using rok by (simp add: rows_ok_def s0)
    note mid = write_middle [OF k [folded s0] pure ok s2_def s3 s4, unfolded s0]
    have "will_be d m = None" for m
      using none by (auto simp: will_be_def final_membership_def dest!: map_of_SomeD split: option.splits)
    moreover have "edge_members sha K M (edges st) = {}"
      using inv empty by (auto simp: membership_inv_def container_keys_def)
    moreover have "current_membership st m = None" for m
      using calculation(2) inv cur by (cases "current_membership st m") (auto simp: membership_inv_def)
    ultimately have "node_members (nodes s4) = {}"
      using node_members_iff [OF mid(2)] mid(4) by (auto split: if_splits)
    then show ?thesis
      using mid(1,2) empty \<open>edge_members sha K M (edges st) = {}\<close>
      by (auto simp: st' None membership_inv_def rows_ok_def same_members_def container_keys_def)
  next
    case (Some p)
    note d = detach_run [OF cf inv ok det [unfolded Some]]
    note mid = write_middle [OF k [folded d(1)] d(3) ok s2_def s3 s4]
    have cm: "current_membership s0 m = current_membership st m" for m
      using d(1) by (simp add: current_membership_def)
    note same = mid(1) [unfolded same_members_def d(2)]
    have EM4: "edge_members sha K M (edges s4) = {(key, m). current_membership st m = Some key \<and>
       (m \<in> set (delete_node_ids d) \<union> nr_id ` set (upsert_nodes d) \<longrightarrow> \<not> leaves d m key)}"
      using same d(4) by simp
    have EM: "edge_members sha K M (edges s4) \<union> {(key, m). (m, key) \<in> set (p_members p)} =
        node_members (nodes s4)"
    proof (rule pairs_eqI)
      fix key m
      show "(key, m) \<in> edge_members sha K M (edges s4) \<union> {(key, m). (m, key) \<in> set (p_members p)} \<longleftrightarrow>
          (key, m) \<in> node_members (nodes s4)"
        unfolding node_members_iff [OF mid(2)] mid(4) EM4 d(5) diff_members_set cm
        using will_be_ok [OF ok, of m key] by (auto simp: leaves_def)
    qed
    have members: "set (p_members p) \<subseteq> M \<times> K"
      using will_be_ok [OF ok] by (auto simp: d(5) diff_members_set)
    have del: "cid sha key \<notin> set (delete_node_ids d)" if "key \<in> K" for key
      using ok cf that by (auto simp: diff_ok_def collision_free_def)
    have shrink: "edge_members sha K M (edges s4) \<subseteq> node_members (nodes st)"
      unfolding EM4 by (auto simp: cur)
    from shrink have "node_members (nodes s4) \<subseteq> K \<times> M"
      unfolding EM [symmetric] using members sub by blast
    moreover have "cid sha (row_key c) \<in> n_id ` set (nodes s4)" if "c \<in> set (containers st)" for c
    proof -
      have "row_key c \<in> K" "cid sha (row_key c) \<in> n_id ` set (nodes s0)"
        using rok that by (auto simp: rows_ok_def container_keys_def d(1))
      with del mid(3) show ?thesis by blast
    qed
    ultimately have rows4: "rows_ok sha K M s4"
      using rok same mid(2) by (simp add: rows_ok_def container_keys_def)
    show ?thesis
      unfolding st' Some option.case
    proof (rule attach_spec [OF cf rows4 members d(8) _ EM])
      show "snd ` set (p_members p) \<subseteq> set (p_touched p)" using d(5,7) by simp
      have "fst ` edge_members sha K M (edges s4) \<subseteq> container_keys st"
      proof (rule order_trans [OF image_mono [OF shrink]])
        have "edge_members sha K M (edges st) = node_members (nodes st)"
          and "fst ` edge_members sha K M (edges st) \<subseteq> container_keys st"
          using inv unfolding membership_inv_def by blast+
        then show "fst ` node_members (nodes st) \<subseteq> container_keys st" by (simp only:)
      qed
      then show "fst ` edge_members sha K M (edges s4) \<subseteq> container_keys s4"
        using same by (simp add: container_keys_def)
    next
      fix c assume c: "c \<in> set (containers s4)" and t: "row_key c \<notin> set (p_touched p)"
      have "members_of sha K M s4 (row_key c) = members_of sha K M st (row_key c)"
        using t d(6) inv cur unfolding members_of_def EM4 by (auto simp: membership_inv_def)
      moreover have "counted sha K M st c" using inv c same by (simp add: membership_inv_def)
      ultimately show "counted sha K M s4 c" by (simp add: counted_def)
    qed
  qed
qed

end
