(* ===== verification/Write_Correct.thy ===== *)
theory Write_Correct
  imports Membership
begin

text \<open>
  What the write path guarantees: exact member counts and defined members after any sequence of
  diffs, and a failure condition that depends on the diff alone.
\<close>

section \<open>Runs of diffs\<close>

definition apply_diffs :: "digest \<Rightarrow> store \<Rightarrow> Diff list \<Rightarrow> store" where
  "apply_diffs sha st ds = fold (\<lambda>d s. fst (apply_diff sha s d)) ds st"

lemma apply_diff_membership:
  assumes "collision_free sha K M" and "membership_inv sha K M st" and "diff_ok sha K M d"
  shows "membership_inv sha K M (fst (apply_diff sha st d))"
  using assms write_diff_membership
  by (auto simp: apply_diff_def savepoint_def split: sum.splits)

lemma membership_inv_empty: "membership_inv sha K M empty_store"
  by (simp add: membership_inv_def rows_ok_def empty_store_def edges_pure_def container_keys_def
      node_members_def edge_members_def)

lemma apply_diffs_membership:
  assumes "collision_free sha K M" and "\<forall>d\<in>set ds. diff_ok sha K M d"
  shows "membership_inv sha K M (apply_diffs sha empty_store ds)"
  unfolding apply_diffs_def
proof (rule fold_invariant_set [where I = "membership_inv sha K M", OF membership_inv_empty])
  fix d s assume "d \<in> set ds" and "membership_inv sha K M s"
  with assms show "membership_inv sha K M (fst (apply_diff sha s d))"
    by (intro apply_diff_membership) auto
qed

lemma finite_members: "finite {m. (key, m) \<in> node_members N}"
  by (rule finite_subset [OF _ finite_imageI [OF finite_node_members [of N], of snd]]) force

lemma node_members_count:
  assumes "keyed n_id N"
  shows "card {m. (key, m) \<in> node_members N} = length (filter (\<lambda>r. row_membership r = Some key) N)"
proof -
  let ?R = "filter (\<lambda>r. row_membership r = Some key) N"
  have k: "keyed n_id ?R" by (rule keyed_filter [OF assms])
  have "{m. (key, m) \<in> node_members N} = n_id ` set ?R" by (auto simp: node_members_def)
  moreover have "card (n_id ` set ?R) = length ?R"
    using k by (metis distinct_card keyed_def length_map set_map)
  ultimately show ?thesis by simp
qed

text \<open>
  C1. Whatever sequence of diffs is applied to an empty index, each row of \<^verbatim>\<open>containers\<close> counts
  exactly the nodes whose membership is that container, which is also the number of DEFINES
  edges leaving the container's node, and the count is never zero: an emptied container is gone.
  The diffs name plugin rows only, and the truncated digest does not collide on the keys and
  ids in play.
\<close>

theorem member_counts_exact:
  assumes "collision_free sha K M" and "\<forall>d\<in>set ds. diff_ok sha K M d"
    and "c \<in> set (containers (apply_diffs sha empty_store ds))"
  shows "c_memberCount c = length (filter (\<lambda>r. row_membership r = Some (c_language c, c_key c))
           (nodes (apply_diffs sha empty_store ds))) \<and>
    c_memberCount c = count_defines_edges (c_nodeId c) (apply_diffs sha empty_store ds) \<and>
    0 < c_memberCount c"
proof -
  let ?st = "apply_diffs sha empty_store ds"
  have inv: "membership_inv sha K M ?st" by (rule apply_diffs_membership [OF assms(1,2)])
  then have rok: "rows_ok sha K M ?st" and cnt: "counted sha K M ?st c"
    and em: "edge_members sha K M (edges ?st) = node_members (nodes ?st)"
    using assms(3) unfolding membership_inv_def by blast+
  have key: "row_key c \<in> K" "c_nodeId c = cid sha (row_key c)"
    using rok assms(3) by (auto simp: rows_ok_def container_keys_def)
  have k: "keyed n_id (nodes ?st)" and pure: "edges_pure sha K M (edges ?st)"
    using rok by (auto simp: rows_ok_def)
  have "finite (members_of sha K M ?st (row_key c))"
    unfolding members_of_def em by (rule finite_members)
  then show ?thesis
    using cnt node_members_count [OF k, of "row_key c"] em
      count_members [OF assms(1) pure key(1)] key(2)
    by (auto simp: counted_def members_of_def card_gt_0_iff)
qed

text \<open>
  C2. In the index after any sequence of diffs, every node that belongs to a container has that
  container's row, the container's own node, and a DEFINES edge from the container to it.
\<close>

theorem member_is_defined:
  assumes "collision_free sha K M" and "\<forall>d\<in>set ds. diff_ok sha K M d"
    and "r \<in> set (nodes (apply_diffs sha empty_store ds))"
    and "row_membership r = Some key"
  shows "\<exists>c\<in>set (containers (apply_diffs sha empty_store ds)).
      (c_language c, c_key c) = key \<and> c_nodeId c = container_id sha (fst key) (snd key) \<and>
      (\<exists>n\<in>set (nodes (apply_diffs sha empty_store ds)). n_id n = c_nodeId c) \<and>
      (\<exists>e\<in>set (edges (apply_diffs sha empty_store ds)).
         e_fromId e = c_nodeId c \<and> e_toId e = n_id r \<and> e_kind e = DEFINES_KIND)"
proof -
  let ?st = "apply_diffs sha empty_store ds"
  have inv: "membership_inv sha K M ?st" by (rule apply_diffs_membership [OF assms(1,2)])
  then have rok: "rows_ok sha K M ?st"
    and em: "edge_members sha K M (edges ?st) = node_members (nodes ?st)"
    and keys: "fst ` edge_members sha K M (edges ?st) \<subseteq> container_keys ?st"
    unfolding membership_inv_def by blast+
  have m: "(key, n_id r) \<in> edge_members sha K M (edges ?st)"
    unfolding em node_members_def using assms(3,4) by auto
  then obtain e where e: "e \<in> set (edges ?st)" "is_member_edge sha key (n_id r) e"
    unfolding edge_membersD by blast
  from m keys obtain c where c: "c \<in> set (containers ?st)" "row_key c = key"
    by (force simp: container_keys_def)
  with rok have "c_nodeId c = cid sha key" "c_nodeId c \<in> n_id ` set (nodes ?st)"
    by (auto simp: rows_ok_def)
  with c e show ?thesis by (auto simp: is_member_edge_def cid_def intro!: bexI [of _ c])
qed

section \<open>Which diffs fail\<close>

definition node_valid :: "NodeRecord \<Rightarrow> bool" where
  "node_valid n \<longleftrightarrow> nr_visibility n \<in> {''public'', ''file'', ''container''} \<and>
     distinct (map dr_ordinal (nr_declarations n)) \<and>
     (\<forall>t. nr_target n = Some t \<longrightarrow>
        tr_scope_kind t \<in> {''file'', ''container''} \<and> tr_key_kind t \<in> {''name'', ''qualifiedName''})"

lemma insert_declarations_Inr:
  assumes "\<forall>r\<in>set rows. fst r = i \<longrightarrow> dr_ordinal (snd r) \<notin> dr_ordinal ` set drs"
  shows "(\<exists>rows'. insert_declarations i drs rows = Inr rows') \<longleftrightarrow> distinct (map dr_ordinal drs)"
  using assms
proof (induction drs arbitrary: rows)
  case (Cons dr drs)
  have "\<not> list_ex (\<lambda>r. fst r = i \<and> dr_ordinal (snd r) = dr_ordinal dr) rows"
    using Cons.prems by (auto simp: list_ex_iff)
  moreover have "(\<exists>rows'. insert_declarations i drs (rows @ [(i, dr)]) = Inr rows') \<longleftrightarrow>
      distinct (map dr_ordinal (dr # drs))"
  proof (cases "dr_ordinal dr \<in> dr_ordinal ` set drs")
    case False
    then show ?thesis using Cons.IH [of "rows @ [(i, dr)]"] Cons.prems by auto
  next
    case True
    have "insert_declarations i ds (xs @ (i, dr) # ys) \<noteq> Inr z"
      if "dr_ordinal dr \<in> dr_ordinal ` set ds" for ds xs ys z
      using that
    proof (induction ds arbitrary: ys)
      case (Cons d ds)
      then show ?case by (cases "dr_ordinal d = dr_ordinal dr") auto
    qed simp
    with True show ?thesis by (metis distinct.simps(2) list.simps(9) set_map append_Nil2)
  qed
  ultimately show ?case by simp
qed simp

lemma upsert_node_row_fails: "(\<exists>st'. upsert_node_row n st = Inr st') \<longleftrightarrow> node_valid n"
proof -
  let ?rows = "filter (\<lambda>r. fst r \<noteq> nr_id n) (declarations st)"
  have d: "(\<exists>rows'. insert_declarations (nr_id n) (nr_declarations n) ?rows = Inr rows') \<longleftrightarrow>
      distinct (map dr_ordinal (nr_declarations n))"
    by (rule insert_declarations_Inr) auto
  have t: "(\<exists>s'. replace_target n s = Inr s') \<longleftrightarrow> (\<forall>t. nr_target n = Some t \<longrightarrow>
        tr_scope_kind t \<in> {''file'', ''container''} \<and> tr_key_kind t \<in> {''name'', ''qualifiedName''})" for s
    by (auto simp: replace_target_def check_target_def Let_def split: option.splits)
  show ?thesis
  proof (cases "\<exists>rows'. insert_declarations (nr_id n) (nr_declarations n) ?rows = Inr rows'")
    case True
    then obtain rows' where "insert_declarations (nr_id n) (nr_declarations n) ?rows = Inr rows'" ..
    then show ?thesis using d True t by (simp add: upsert_node_row_def node_valid_def Let_def)
  next
    case False
    then obtain e where "insert_declarations (nr_id n) (nr_declarations n) ?rows = Inl e"
      by (cases "insert_declarations (nr_id n) (nr_declarations n) ?rows") auto
    then show ?thesis using d False by (simp add: upsert_node_row_def node_valid_def Let_def)
  qed
qed

lemma try_fold_total:
  assumes "\<And>x s. (\<exists>s'. f x s = Inr s') \<longleftrightarrow> P x"
  shows "(\<exists>s'. try_fold f xs s = Inr s') \<longleftrightarrow> (\<forall>x\<in>set xs. P x)"
proof (induction xs arbitrary: s)
  case (Cons x xs)
  show ?case
  proof (cases "f x s")
    case (Inl e)
    then have "\<not> P x" using assms [of x s] by simp
    with Inl show ?thesis by simp
  next
    case (Inr s')
    then have "P x" using assms [of x s] by auto
    with Inr Cons show ?thesis by simp
  qed
qed simp

lemma apply_diff_accepts:
  "snd (apply_diff sha st d) = Inr () \<longleftrightarrow>
     (\<forall>n\<in>set (upsert_nodes d). node_valid n) \<and>
     (\<forall>e\<in>set (upsert_edges d). ed_source e \<in> {''syntactic'', ''semantic''})"
proof -
  have e: "(\<exists>s'. upsert_edge_row e s = Inr s') \<longleftrightarrow> ed_source e \<in> {''syntactic'', ''semantic''}" for e s
    by (auto simp: upsert_edge_row_def)
  note N = try_fold_total [of upsert_node_row, OF upsert_node_row_fails]
  note E = try_fold_total [of upsert_edge_row, OF e]
  have "(\<exists>st'. write_diff sha d st = Inr st') \<longleftrightarrow>
      (\<forall>n\<in>set (upsert_nodes d). node_valid n) \<and>
      (\<forall>e\<in>set (upsert_edges d). ed_source e \<in> {''syntactic'', ''semantic''})"
  proof -
    obtain s0 p where det: "detach sha st d = (s0, p)" by fastforce
    let ?s2 = "fold (delete_node_row (map nr_id (upsert_nodes d))) (delete_node_ids d)
      (fold delete_edge_row (delete_edge_ids d) s0)"
    show ?thesis
    proof (cases "try_fold upsert_node_row (upsert_nodes d) ?s2")
      case (Inl x)
      then show ?thesis using N [of "upsert_nodes d" ?s2] by (auto simp: write_diff_def det)
    next
      case (Inr s3)
      then show ?thesis
        using N [of "upsert_nodes d" ?s2] E [of "upsert_edges d" s3]
        by (cases "try_fold upsert_edge_row (upsert_edges d) s3") (auto simp: write_diff_def det)
    qed
  qed
  then show ?thesis
    by (auto simp: apply_diff_def diff_is_empty_def savepoint_def split: sum.splits)
qed

text \<open>
  C3. Whether \<^verbatim>\<open>apply_diff\<close> succeeds depends on the diff alone, never on the index: it fails
  exactly on a node with a visibility outside the closed set, repeated declaration ordinals or a
  target outside the closed kinds, or on an edge whose tier is neither syntactic nor semantic.
  The suffix, untyped-call, also-scope and target inserts never hit their primary keys. When it
  fails the index is what it was.
\<close>

theorem apply_diff_errors:
  "(snd (apply_diff sha st d) = Inr () \<longleftrightarrow>
      (\<forall>n\<in>set (upsert_nodes d). node_valid n) \<and>
      (\<forall>e\<in>set (upsert_edges d). ed_source e \<in> {''syntactic'', ''semantic''})) \<and>
   (snd (apply_diff sha st d) \<noteq> Inr () \<longrightarrow> fst (apply_diff sha st d) = st)"
  using apply_diff_accepts [of sha st d]
  by (auto simp: apply_diff_def savepoint_def split: sum.splits)

section \<open>A concrete run\<close>

text \<open>
  One Go function joining the package \<open>k\<close>, with reversal as the digest: short enough to
  evaluate, and free of collisions on this universe.
\<close>

definition sample_member :: NodeRecord where
  "sample_member = (new_NodeRecord ''a'' ''Function'' ''f'' ''k.f'' ''x.go'' ''go'')
     \<lparr>nr_container := Some ''k'', nr_visibility := ''public''\<rparr>"

definition sample_diff :: Diff where
  "sample_diff = default_Diff\<lparr>upsert_nodes := [sample_member]\<rparr>"

lemma sample_universe:
  "collision_free rev {(''go'', ''k'')} {''a''} \<and> diff_ok rev {(''go'', ''k'')} {''a''} sample_diff"
proof -
  have "cid rev (''go'', ''k'') \<noteq> ''a''" by code_simp
  moreover have "record_membership sample_member = Some (''go'', ''k'')" "nr_id sample_member = ''a''" by code_simp+
  ultimately show ?thesis
  by (auto simp: collision_free_def diff_ok_def sample_diff_def default_Diff_def)
qed

lemma sample_run:
  "containers (apply_diffs rev empty_store [sample_diff]) =
     [\<lparr>c_nodeId = cid rev (''go'', ''k''), c_language = ''go'', c_key = ''k'', c_parentKey = None,
       c_memberCount = 1\<rparr>]"
  by code_simp

theorem member_counts_exact_witness:
  "\<exists>c\<in>set (containers (apply_diffs rev empty_store [sample_diff])).
     c_memberCount c = 1 \<and>
     c_memberCount c = length (filter (\<lambda>r. row_membership r = Some (c_language c, c_key c))
       (nodes (apply_diffs rev empty_store [sample_diff]))) \<and>
     c_memberCount c = count_defines_edges (c_nodeId c) (apply_diffs rev empty_store [sample_diff]) \<and>
     0 < c_memberCount c"
proof -
  let ?c = "\<lparr>c_nodeId = cid rev (''go'', ''k''), c_language = ''go'', c_key = ''k'', c_parentKey = None,
       c_memberCount = 1\<rparr>"
  have mem: "?c \<in> set (containers (apply_diffs rev empty_store [sample_diff]))"
    by (simp only: sample_run) simp
  have one: "c_memberCount ?c = 1" by simp
  note C = member_counts_exact [of rev "{(''go'', ''k'')}" "{''a''}" "[sample_diff]" ?c]
  show ?thesis
    by (rule bexI [OF _ mem], rule conjI [OF one], rule C) (use sample_universe mem in simp_all)
qed

theorem member_is_defined_witness:
  "\<exists>c\<in>set (containers (apply_diffs rev empty_store [sample_diff])).
     (c_language c, c_key c) = (''go'', ''k'') \<and>
     (\<exists>e\<in>set (edges (apply_diffs rev empty_store [sample_diff])).
        e_fromId e = c_nodeId c \<and> e_toId e = ''a'' \<and> e_kind e = DEFINES_KIND)"
proof -
  have "node_row sample_member \<in> set (nodes (apply_diffs rev empty_store [sample_diff]))"
    "row_membership (node_row sample_member) = Some (''go'', ''k'')" "n_id (node_row sample_member) = ''a''"
    by code_simp+
  with member_is_defined [of rev "{(''go'', ''k'')}" "{''a''}" "[sample_diff]"] sample_universe
  show ?thesis by fastforce
qed

theorem apply_diff_errors_witness:
  "snd (apply_diff rev empty_store sample_diff) = Inr () \<and>
   snd (apply_diff rev empty_store
     (default_Diff\<lparr>upsert_nodes := [sample_member\<lparr>nr_visibility := ''secret''\<rparr>]\<rparr>)) \<noteq> Inr ()"
proof -
  have "node_valid sample_member"
    by (simp add: node_valid_def sample_member_def new_NodeRecord_def)
  then show ?thesis
    using apply_diff_errors [of rev empty_store]
    by (simp add: sample_diff_def default_Diff_def node_valid_def)
qed

end
