(* ===== verification/Write_Rows.thy ===== *)
theory Write_Rows
  imports Write_Correct
begin

text \<open>
  What a diff does to individual rows, for any digest: the node table as an updated map, where
  an edge of the result comes from, and the rows of the child tables, which no foreign key
  protects.
\<close>

section \<open>The stages of the write path\<close>

lemma write_diff_stages:
  assumes "write_diff sha d st = Inr st'"
  obtains s0 pending s2 s3 s4 where "detach sha st d = (s0, pending)"
    and "s2 = fold (delete_node_row (map nr_id (upsert_nodes d))) (delete_node_ids d)
                (fold delete_edge_row (delete_edge_ids d) s0)"
    and "try_fold upsert_node_row (upsert_nodes d) s2 = Inr s3"
    and "try_fold upsert_edge_row (upsert_edges d) s3 = Inr s4"
    and "st' = (case pending of None \<Rightarrow> s4 | Some p \<Rightarrow> attach sha p s4)"
  using assms by (auto simp: write_diff_def split: prod.splits sum.splits)

lemma edges_unchanged: "\<exists>E. st = st\<lparr>edges := E\<rparr> \<and> set E \<subseteq> set (edges st)" for st :: store
  by (rule exI [of _ "edges st"]) simp

lemma detach_named_frame:
  "detach_named sha d ids seen st touched = (st', touched') \<Longrightarrow>
     \<exists>E. st' = st\<lparr>edges := E\<rparr> \<and> set E \<subseteq> set (edges st)"
proof (induction sha d ids seen st touched rule: detach_named.induct)
  case (2 sha d i ids seen st touched)
  then show ?case
    by (fastforce simp: drop_member_edge_def delete_by_set split: if_splits option.splits)
qed (use edges_unchanged in auto)

lemma detach_frame:
  assumes "detach sha st d = (s0, pending)"
  obtains E where "s0 = st\<lparr>edges := E\<rparr>" "set E \<subseteq> set (edges st)"
proof -
  have "\<exists>E. s0 = st\<lparr>edges := E\<rparr> \<and> set E \<subseteq> set (edges st)"
  proof (cases "\<not> list_ex (\<lambda>n. record_membership n \<noteq> None) (upsert_nodes d) \<and> containers st = []")
    case True
    with assms have "s0 = st\<lparr>edges := edges st\<rparr>" by (simp add: detach_def)
    then show ?thesis by blast
  next
    case False
    then obtain t where "detach_named sha d (delete_node_ids d @ map nr_id (upsert_nodes d)) [] st [] = (s0, t)"
      using assms by (auto simp: detach_def Let_def split: prod.splits if_splits)
    then show ?thesis by (rule detach_named_frame)
  qed
  then show ?thesis using that by blast
qed


section \<open>No orphan rows\<close>

text \<open>The node ids the child tables mention.\<close>

definition child_ids :: "store \<Rightarrow> string set" where
  "child_ids st =
     fst ` set (declarations st) \<union> t_nodeId ` set (placeholder_targets st) \<union>
     fst ` set (placeholder_also_scopes st) \<union> snd ` set (qualified_suffixes st) \<union>
     snd ` set (untyped_calls st) \<union> v_nodeId ` set (vectors st)"

definition node_ids :: "store \<Rightarrow> string set" where
  "node_ids st = n_id ` set (nodes st)"

definition orphan_free :: "store \<Rightarrow> bool" where
  "orphan_free st \<longleftrightarrow> child_ids st \<subseteq> node_ids st"

lemma child_ids_frame [simp]:
  "child_ids (st\<lparr>edges := E\<rparr>) = child_ids st" "child_ids (st\<lparr>containers := C\<rparr>) = child_ids st"
  "child_ids (st\<lparr>nodes := N\<rparr>) = child_ids st" "child_ids (st\<lparr>indexed_files := F\<rparr>) = child_ids st"
  "node_ids (st\<lparr>edges := E\<rparr>) = node_ids st" "node_ids (st\<lparr>containers := C\<rparr>) = node_ids st"
  by (simp_all add: child_ids_def node_ids_def)

lemma delete_node_rows_ids [simp]:
  "child_ids (delete_node_rows i st) = child_ids st - {i}"
  "node_ids (delete_node_rows i st) = node_ids st - {i}"
  unfolding child_ids_def node_ids_def delete_node_rows_def delete_by_def by auto

lemma delete_node_row_ids [simp]:
  "child_ids (delete_node_row ups i st) = child_ids st - {i}"
  "node_ids (delete_node_row ups i st) = node_ids st - {i}"
  by (simp_all add: delete_node_row_def)

lemma delete_nodes_ids [simp]:
  "child_ids (fold (delete_node_row ups) is st) = child_ids st - set is"
  "node_ids (fold (delete_node_row ups) is st) = node_ids st - set is"
  by (induction "is" arbitrary: st) auto

lemma delete_edges_ids [simp]:
  "child_ids (fold delete_edge_row is st) = child_ids st"
  "node_ids (fold delete_edge_row is st) = node_ids st"
  by (induction "is" arbitrary: st) (auto simp: delete_edge_row_def)

lemma insert_declarations_rows:
  "insert_declarations i ds rows = Inr rows' \<Longrightarrow> rows' = rows @ map (Pair i) ds"
  by (induction i ds rows arbitrary: rows' rule: insert_declarations.induct) (auto split: if_splits)

lemma fold_insert_ignore_set:
  "set (fold (\<lambda>x rows. insert_ignore_by (\<lambda>r. r) (f x) rows) xs rows) = f ` set xs \<union> set rows"
  by (induction xs arbitrary: rows) (auto simp: insert_ignore_by_def)

lemma replace_untyped_calls_ids:
  "child_ids (replace_untyped_calls n st) \<subseteq> insert (nr_id n) (child_ids st)"
  "node_ids (replace_untyped_calls n st) = node_ids st"
  unfolding child_ids_def node_ids_def replace_untyped_calls_def
  by (auto simp: fold_insert_ignore_set)

lemma replace_target_ids:
  "replace_target n st = Inr st' \<Longrightarrow>
     child_ids st' \<subseteq> insert (nr_id n) (child_ids st) \<and> node_ids st' = node_ids st"
  unfolding child_ids_def node_ids_def replace_target_def Let_def
  by (auto simp: fold_insert_ignore_set target_row_def delete_by_set split: option.splits sum.splits)

lemma upsert_node_row_ids:
  assumes "upsert_node_row n st = Inr st'"
  shows "child_ids st' \<subseteq> insert (nr_id n) (child_ids st)" "node_ids st' = insert (nr_id n) (node_ids st)"
proof -
  have nid: "n_id (node_row n) = nr_id n" by (simp add: node_row_def)
  obtain decls where
    d: "insert_declarations (nr_id n) (nr_declarations n)
          (filter (\<lambda>r. fst r \<noteq> nr_id n) (declarations st)) = Inr decls"
    and r: "replace_target n (replace_untyped_calls n
        (st\<lparr>nodes := upsert_by n_id merge_node (node_row n) (nodes st), declarations := decls,
           qualified_suffixes := filter (\<lambda>r. snd r \<noteq> nr_id n) (qualified_suffixes st) @
             map (\<lambda>s. (s, nr_id n)) (suffixes (nr_qualified_path n) (nr_alias_paths n))\<rparr>)) = Inr st'"
    (is "replace_target n (replace_untyped_calls n ?s) = _")
    using assms by (auto simp: upsert_node_row_def Let_def split: if_splits sum.splits)
  have "child_ids ?s \<subseteq> insert (nr_id n) (child_ids st)"
    using insert_declarations_rows [OF d] by (auto simp: child_ids_def)
  with replace_target_ids [OF r] replace_untyped_calls_ids [of n ?s]
  show "child_ids st' \<subseteq> insert (nr_id n) (child_ids st)" by blast
  have "node_ids ?s = insert (nr_id n) (node_ids st)"
    by (simp add: node_ids_def node_table.upsert_keys nid)
  with replace_target_ids [OF r] replace_untyped_calls_ids [of n ?s]
  show "node_ids st' = insert (nr_id n) (node_ids st)" by simp
qed

lemma upsert_nodes_ids:
  assumes "try_fold upsert_node_row ns st = Inr st'"
  shows "child_ids st' \<subseteq> nr_id ` set ns \<union> child_ids st \<and> node_ids st' = nr_id ` set ns \<union> node_ids st"
  using assms
proof (induction ns arbitrary: st)
  case (Cons n ns)
  then obtain s1 where "upsert_node_row n st = Inr s1" "try_fold upsert_node_row ns s1 = Inr st'"
    by (auto split: sum.splits)
  with upsert_node_row_ids [of n st s1] Cons.IH [of s1] show ?case by auto
qed simp

lemma upsert_edges_frame:
  assumes "try_fold upsert_edge_row es st = Inr st'"
  shows "\<exists>E. st' = st\<lparr>edges := E\<rparr>"
  using assms
proof (induction es arbitrary: st)
  case (Cons e es)
  then obtain s1 where "upsert_edge_row e st = Inr s1" "try_fold upsert_edge_row es s1 = Inr st'"
    by (auto split: sum.splits)
  moreover from this(1) obtain E where "s1 = st\<lparr>edges := E\<rparr>"
    by (auto simp: upsert_edge_row_def split: if_splits)
  ultimately show ?case using Cons.IH by fastforce
qed (use edges_unchanged in auto)

lemma attach_members_ids:
  assumes "attach_members sha ms st created = (st', created')"
  shows "child_ids st' = child_ids st \<and> node_ids st \<subseteq> node_ids st'"
  using assms
proof (induction sha ms st created rule: attach_members.induct)
  case (2 sha m key ms st created)
  obtain s1 new where e: "ensure_container (container_id sha (fst key) (snd key)) key st = (s1, new)"
    by fastforce
  then have "child_ids s1 = child_ids st \<and> node_ids st \<subseteq> node_ids s1"
    by (auto simp: ensure_container_def Let_def node_ids_def insert_ignore_by_set split: if_splits)
  with 2 e show ?case by (fastforce simp: Let_def)
qed simp

lemma recount_ids:
  "orphan_free st \<Longrightarrow> orphan_free (recount sha key st)"
  "child_ids (recount sha key st) \<subseteq> child_ids st"
  "node_ids st - {container_id sha (fst key) (snd key)} \<subseteq> node_ids (recount sha key st)"
  by (auto simp: recount_def delete_container_def orphan_free_def Let_def)

lemma recounts_ids:
  "orphan_free st \<Longrightarrow> orphan_free (fold (recount sha) ks st)"
  "node_ids st - (\<lambda>k. container_id sha (fst k) (snd k)) ` set ks \<subseteq> node_ids (fold (recount sha) ks st)"
proof (induction ks arbitrary: st)
  case (Cons k ks)
  {
  case 1
  show ?case using 1 Cons(1) recount_ids(1) by simp
  next
  case 2
  show ?case using Cons(2) [of "recount sha k st"] recount_ids(3) [of st sha k] by auto
  }
qed auto

lemma attach_orphan_free:
  assumes "orphan_free st"
  shows "orphan_free (attach sha p st)"
proof -
  obtain s1 cr where a: "attach_members sha (p_members p) st [] = (s1, cr)" by fastforce
  then have "orphan_free s1"
    using assms attach_members_ids [OF a] unfolding orphan_free_def by blast
  then have "orphan_free (apply_parents (p_parents p) s1)"
    by (simp add: orphan_free_def apply_parents_def)
  with a recounts_ids(1) show ?thesis by (simp add: attach_def)
qed

lemma write_diff_orphan_free:
  assumes "write_diff sha d st = Inr st'" and "orphan_free st"
  shows "orphan_free st'"
proof -
  obtain s0 pending s2 s3 s4 where st: "detach sha st d = (s0, pending)"
    "s2 = fold (delete_node_row (map nr_id (upsert_nodes d))) (delete_node_ids d)
                (fold delete_edge_row (delete_edge_ids d) s0)"
    "try_fold upsert_node_row (upsert_nodes d) s2 = Inr s3"
    "try_fold upsert_edge_row (upsert_edges d) s3 = Inr s4"
    "st' = (case pending of None \<Rightarrow> s4 | Some p \<Rightarrow> attach sha p s4)"
    using write_diff_stages [OF assms(1)] .
  obtain E where "s0 = st\<lparr>edges := E\<rparr>" using detach_frame [OF st(1)] by blast
  with assms(2) have "orphan_free s2" by (auto simp: orphan_free_def st(2))
  with upsert_nodes_ids [OF st(3)] have "orphan_free s3" unfolding orphan_free_def by blast
  moreover obtain E' where "s4 = s3\<lparr>edges := E'\<rparr>" using upsert_edges_frame [OF st(4)] by blast
  ultimately have "orphan_free s4" by (simp add: orphan_free_def)
  with st(5) attach_orphan_free show ?thesis by (simp split: option.splits)
qed


section \<open>The node table as a map\<close>

definition node_at :: "store \<Rightarrow> string \<Rightarrow> NodeRow option" where
  "node_at st i = select_by n_id i (nodes st)"

definition last_upsert :: "NodeRecord list \<Rightarrow> string \<Rightarrow> NodeRecord option" where
  "last_upsert ns = map_of (rev (map (\<lambda>n. (nr_id n, n)) ns))"

text \<open>The map a diff is meant to write: the last record of each id, then the deletes, then what was there.\<close>

definition node_map_after :: "Diff \<Rightarrow> (string \<Rightarrow> NodeRow option) \<Rightarrow> string \<Rightarrow> NodeRow option" where
  "node_map_after d m i =
     (case last_upsert (upsert_nodes d) i of
        Some n \<Rightarrow> Some (node_row n)
      | None \<Rightarrow> if i \<in> set (delete_node_ids d) then None else m i)"

lemma node_at_edges [simp]: "node_at (st\<lparr>edges := E\<rparr>) i = node_at st i"
  "node_at (st\<lparr>containers := C\<rparr>) i = node_at st i"
  by (simp_all add: node_at_def)

lemma delete_edges_frame: "\<exists>E. fold delete_edge_row is st = st\<lparr>edges := E\<rparr> \<and> set E = {e \<in> set (edges st). e_id e \<notin> set is}"
proof (induction "is" arbitrary: st)
  case Nil
  show ?case by (rule exI [of _ "edges st"]) simp
next
  case (Cons i "is")
  obtain E where "fold delete_edge_row is (delete_edge_row i st) = (delete_edge_row i st)\<lparr>edges := E\<rparr>"
    "set E = {e \<in> set (edges (delete_edge_row i st)). e_id e \<notin> set is}"
    using Cons.IH by blast
  then show ?case
    by (intro exI [of _ E]) (auto simp: delete_edge_row_def [of i st] delete_by_set)
qed

lemma delete_nodes_nodes:
  "nodes (fold (delete_node_row ups) is st) = filter (\<lambda>r. n_id r \<notin> set is) (nodes st)"
  by (induction "is" arbitrary: st)
    (auto simp: delete_node_row_def delete_node_rows_def delete_by_def intro!: filter_cong)

lemma select_filter_ids:
  "select_by n_id i (filter (\<lambda>r. n_id r \<notin> set is) rows) =
     (if i \<in> set is then None else select_by n_id i rows)"
  by (auto simp: select_by_None intro!: select_by_filter)

lemma upsert_nodes_map:
  assumes "try_fold upsert_node_row ns st = Inr st'" and "keyed n_id (nodes st)"
  shows "keyed n_id (nodes st') \<and> node_at st' i =
    (case last_upsert ns i of Some n \<Rightarrow> Some (node_row n) | None \<Rightarrow> node_at st i)"
  using assms
proof (induction ns arbitrary: st)
  case (Cons n ns)
  then obtain s1 where s1: "upsert_node_row n st = Inr s1" and r: "try_fold upsert_node_row ns s1 = Inr st'"
    by (auto split: sum.splits)
  have n1: "nodes s1 = upsert_by n_id merge_node (node_row n) (nodes st)"
    by (rule upsert_node_row_effect [OF s1])
  have k1: "keyed n_id (nodes s1)" using Cons.prems(2) by (simp add: n1 node_table.keyed_upsert)
  have "node_at s1 i = (if i = nr_id n then Some (node_row n) else node_at st i)"
    using node_table.select_upsert [OF Cons.prems(2), of i "node_row n"]
    by (simp add: node_at_def n1 node_row_def merge_node_def split: option.splits)
  with Cons.IH [OF r k1] show ?case
    by (auto simp: last_upsert_def map_add_def split: option.splits)
qed (simp add: last_upsert_def)

lemma select_by_snoc_other: "key new \<noteq> k \<Longrightarrow> select_by key k (rows @ [new]) = select_by key k rows"
  by (induction rows) (auto simp: select_by_def)

lemma ensure_container_node:
  assumes "ensure_container c key st = (s1, new)" and "i \<noteq> c"
  shows "node_at s1 i = node_at st i"
  using assms by (auto simp: ensure_container_def Let_def node_at_def insert_ignore_by_def
      select_by_snoc_other container_node_def split: if_splits)

lemma attach_members_node:
  assumes "attach_members sha ms st created = (st', created')" and "\<forall>l k. i \<noteq> container_id sha l k"
  shows "node_at st' i = node_at st i"
  using assms
proof (induction sha ms st created rule: attach_members.induct)
  case (2 sha m key ms st created)
  obtain s1 new where e: "ensure_container (container_id sha (fst key) (snd key)) key st = (s1, new)"
    by fastforce
  then have "node_at s1 i = node_at st i" using ensure_container_node [OF e] 2(3) by simp
  with 2 e show ?case by (fastforce simp: Let_def)
qed simp

lemma recount_node:
  assumes "\<forall>l k. i \<noteq> container_id sha l k"
  shows "node_at (recount sha key st) i = node_at st i"
  using assms
  by (auto simp: recount_def Let_def delete_container_def delete_node_rows_def node_at_def delete_by_def
      intro!: select_by_filter)

lemma attach_node:
  assumes "\<forall>l k. i \<noteq> container_id sha l k"
  shows "node_at (attach sha p st) i = node_at st i"
proof -
  obtain s1 cr where a: "attach_members sha (p_members p) st [] = (s1, cr)" by fastforce
  have "node_at (fold (recount sha) ks s) i = node_at s i" for ks s
    by (induction ks arbitrary: s) (auto simp: recount_node [OF assms])
  with a attach_members_node [OF a assms] show ?thesis
    by (simp add: attach_def apply_parents_def)
qed

lemma write_diff_nodes:
  assumes "write_diff sha d st = Inr st'" and "keyed n_id (nodes st)"
    and "\<forall>l k. i \<noteq> container_id sha l k"
  shows "node_at st' i = node_map_after d (node_at st) i"
proof -
  obtain s0 pending s2 s3 s4 where st: "detach sha st d = (s0, pending)"
    "s2 = fold (delete_node_row (map nr_id (upsert_nodes d))) (delete_node_ids d)
                (fold delete_edge_row (delete_edge_ids d) s0)"
    "try_fold upsert_node_row (upsert_nodes d) s2 = Inr s3"
    "try_fold upsert_edge_row (upsert_edges d) s3 = Inr s4"
    "st' = (case pending of None \<Rightarrow> s4 | Some p \<Rightarrow> attach sha p s4)"
    using write_diff_stages [OF assms(1)] .
  obtain E where s0: "s0 = st\<lparr>edges := E\<rparr>" using detach_frame [OF st(1)] by blast
  obtain E1 where s1: "fold delete_edge_row (delete_edge_ids d) s0 = s0\<lparr>edges := E1\<rparr>"
    using delete_edges_frame by blast
  have n2: "nodes s2 = filter (\<lambda>r. n_id r \<notin> set (delete_node_ids d)) (nodes st)"
    unfolding st(2) s1 delete_nodes_nodes by (simp add: s0)
  obtain E2 where s4: "s4 = s3\<lparr>edges := E2\<rparr>" using upsert_edges_frame [OF st(4)] by blast
  have "node_at s4 i = node_map_after d (node_at st) i"
    using upsert_nodes_map [OF st(3), of i] keyed_filter [OF assms(2)]
    by (auto simp: n2 s4 node_map_after_def node_at_def select_filter_ids split: option.splits)
  with st(5) attach_node [OF assms(3)] show ?thesis by (simp split: option.splits)
qed


section \<open>Where an edge of the result comes from\<close>

definition edge_kept :: "EdgeRow \<Rightarrow> EdgeRow \<Rightarrow> bool" where
  "edge_kept e0 e \<longleftrightarrow>
     e_id e = e_id e0 \<and> e_fromId e = e_fromId e0 \<and> e_kind e = e_kind e0 \<and> e_source e = e_source e0"

lemma edge_kept_unlink: "edge_kept e (unlink_edge i e)"
  by (auto simp: edge_kept_def unlink_edge_def split: option.splits)

lemma delete_nodes_edges:
  "e \<in> set (edges (fold (delete_node_row ups) is st)) \<Longrightarrow> \<exists>e0\<in>set (edges st). edge_kept e0 e"
proof (induction "is" arbitrary: st)
  case (Cons i "is")
  then obtain e1 where e1: "e1 \<in> set (edges (delete_node_row ups i st))" "edge_kept e1 e" by auto
  then obtain e0 where "e0 \<in> set (edges st)" "e1 = e0 \<or> e1 = unlink_edge i e0"
    by (auto simp: delete_node_row_def delete_node_rows_def split: if_splits)
  with e1(2) edge_kept_unlink [of e0 i] show ?case by (auto simp: edge_kept_def)
qed (auto simp: edge_kept_def)

lemma upsert_edges_origin:
  assumes "try_fold upsert_edge_row es st = Inr st'" and "e \<in> set (edges st')"
  shows "(\<exists>x\<in>set es. e_id e = ed_id x \<and> e_fromId e = ed_from_id x) \<or>
    (e \<in> set (edges st) \<and> e_id e \<notin> ed_id ` set es)"
  using assms
proof (induction es arbitrary: st)
  case (Cons x es)
  then obtain s1 where s1: "upsert_edge_row x st = Inr s1" and r: "try_fold upsert_edge_row es s1 = Inr st'"
    by (auto split: sum.splits)
  have x: "e_id (edge_row x) = ed_id x" "e_fromId (edge_row x) = ed_from_id x"
    by (simp_all add: edge_row_def)
  have m: "e_id (merge_edge old (edge_row x)) = ed_id x"
    "e_fromId (merge_edge old (edge_row x)) = ed_from_id x" for old
    by (simp_all add: merge_edge_def edge_row_def)
  have "e' \<in> set (edges s1) \<Longrightarrow> (e_id e' = ed_id x \<and> e_fromId e' = ed_from_id x) \<or>
      (e' \<in> set (edges st) \<and> e_id e' \<noteq> ed_id x)" for e'
    using s1 x m by (auto simp: upsert_edge_row_def edge_table.upsert_set split: if_splits)
  then show ?case using Cons.IH [OF r Cons.prems(2)] by auto
qed simp

lemma attach_members_edges:
  assumes "attach_members sha ms st created = (st', created')" and "e \<in> set (edges st')"
  shows "e \<in> set (edges st) \<or> e_engine e = CORE_ENGINE"
  using assms
proof (induction sha ms st created rule: attach_members.induct)
  case (2 sha m key ms st created)
  obtain s1 new where e: "ensure_container (container_id sha (fst key) (snd key)) key st = (s1, new)"
    by fastforce
  then have "edges s1 = edges st" by (auto simp: ensure_container_def Let_def split: if_splits)
  moreover have "e_engine (member_edge sha key m) = CORE_ENGINE" by (simp add: member_edge_def)
  ultimately show ?case
    using 2 e by (fastforce simp: Let_def insert_ignore_by_set split: if_splits)
qed simp

lemma attach_edges:
  assumes "e \<in> set (edges (attach sha p st))"
  shows "e \<in> set (edges st) \<or> e_engine e = CORE_ENGINE"
proof -
  obtain s1 cr where a: "attach_members sha (p_members p) st [] = (s1, cr)" by fastforce
  have "set (edges (recount sha k s)) \<subseteq> set (edges s)" for k s
    by (auto simp: recount_def Let_def delete_container_def delete_node_rows_def)
  then have "set (edges (fold (recount sha) ks s)) \<subseteq> set (edges s)" for ks s
    by (induction ks arbitrary: s) (simp_all, meson subset_trans)
  from this [of "p_touched p" "apply_parents (p_parents p) s1"] assms a
  have "e \<in> set (edges s1)" by (auto simp: attach_def apply_parents_def)
  with attach_members_edges [OF a] show ?thesis by blast
qed

lemma write_diff_edge_origin:
  assumes "write_diff sha d st = Inr st'" and "e \<in> set (edges st')"
  shows "(\<exists>x\<in>set (upsert_edges d). e_id e = ed_id x \<and> e_fromId e = ed_from_id x) \<or>
    (\<exists>e0\<in>set (edges st). edge_kept e0 e \<and> e_id e \<notin> set (delete_edge_ids d)) \<or>
    e_engine e = CORE_ENGINE"
proof -
  obtain s0 pending s2 s3 s4 where st: "detach sha st d = (s0, pending)"
    "s2 = fold (delete_node_row (map nr_id (upsert_nodes d))) (delete_node_ids d)
                (fold delete_edge_row (delete_edge_ids d) s0)"
    "try_fold upsert_node_row (upsert_nodes d) s2 = Inr s3"
    "try_fold upsert_edge_row (upsert_edges d) s3 = Inr s4"
    "st' = (case pending of None \<Rightarrow> s4 | Some p \<Rightarrow> attach sha p s4)"
    using write_diff_stages [OF assms(1)] .
  obtain E where s0: "s0 = st\<lparr>edges := E\<rparr>" "set E \<subseteq> set (edges st)" using detach_frame [OF st(1)] by blast
  obtain E1 where s1: "fold delete_edge_row (delete_edge_ids d) s0 = s0\<lparr>edges := E1\<rparr>"
      "set E1 = {e \<in> set (edges s0). e_id e \<notin> set (delete_edge_ids d)}"
    using delete_edges_frame by blast
  have e3: "edges s3 = edges s2"
    using st(3) by (rule try_fold_invariant [where I = "\<lambda>s. edges s = edges s2"])
      (auto dest: upsert_node_row_effect)
  have "e \<in> set (edges s4) \<or> e_engine e = CORE_ENGINE"
    using assms(2) st(5) attach_edges by (auto split: option.splits)
  moreover have "\<exists>e0\<in>set (edges st). edge_kept e0 e \<and> e_id e \<notin> set (delete_edge_ids d)"
    if "e \<in> set (edges s2)"
  proof -
    have "e \<in> set (edges (fold (delete_node_row (map nr_id (upsert_nodes d))) (delete_node_ids d)
        (s0\<lparr>edges := E1\<rparr>)))" using that st(2) s1(1) by simp
    then obtain e0 where "e0 \<in> set E1" "edge_kept e0 e" using delete_nodes_edges by fastforce
    with s1(2) s0 show ?thesis by (auto simp: edge_kept_def)
  qed
  ultimately show ?thesis using upsert_edges_origin [OF st(4)] e3 by metis
qed

lemma apply_diff_nodes:
  assumes "keyed n_id (nodes st)" and "snd (apply_diff sha st d) = Inr ()"
    and "\<forall>l k. i \<noteq> container_id sha l k"
  shows "node_at (fst (apply_diff sha st d)) i = node_map_after d (node_at st) i"
proof (cases "diff_is_empty d")
  case True
  then show ?thesis by (simp add: apply_diff_def node_map_after_def diff_is_empty_def last_upsert_def)
next
  case False
  with assms(2) obtain st' where "write_diff sha d st = Inr st'" "fst (apply_diff sha st d) = st'"
    by (auto simp: apply_diff_def savepoint_def split: sum.splits)
  with write_diff_nodes [OF _ assms(1,3)] show ?thesis by simp
qed

section \<open>Properties\<close>


text \<open>
  C4. The node table after a diff that succeeds is the node table before it, updated as a map:
  an id the diff upserts has the columns of its last record (even when the diff also deletes
  it), an id it only deletes is gone, and every other id is untouched. Ids of container nodes,
  which core maintains itself, are excepted.
\<close>

theorem apply_diff_node_map:
  assumes "keyed n_id (nodes st)" and "snd (apply_diff sha st d) = Inr ()"
    and "\<forall>l k. i \<noteq> container_id sha l k"
  shows "node_at (fst (apply_diff sha st d)) i = node_map_after d (node_at st) i"
  by (rule apply_diff_nodes [OF assms])

text \<open>
  C6. The semantic tier never overwrites a structural row: through \<^verbatim>\<open>apply_semantic_diff\<close> a
  node that is stored and not deleted keeps every column, any other id is written as by
  \<^verbatim>\<open>apply_diff\<close>, and the diff handed on holds the same records, inserted ones first.
\<close>

theorem semantic_keeps_stored_rows:
  assumes "keyed n_id (nodes st)" and "apply_semantic_diff sha st d = (st', d', Inr ())"
    and "\<forall>l k. i \<noteq> container_id sha l k"
  shows "node_at st' i =
      (if i \<in> set (stored_node_ids st d) then node_at st i else node_map_after d (node_at st) i) \<and>
    mset (upsert_nodes d') = mset (upsert_nodes d) \<and> delete_node_ids d' = delete_node_ids d"
proof (cases "diff_is_empty d")
  case True
  with assms(2) have "st' = st" "d' = d" by (simp_all add: apply_semantic_diff_def)
  with True show ?thesis
    by (simp add: node_map_after_def diff_is_empty_def last_upsert_def)
next
  case False
  let ?S = "set (stored_node_ids st d)"
  let ?kept = "filter (\<lambda>n. nr_id n \<in> ?S) (upsert_nodes d)"
  let ?ins = "filter (\<lambda>n. nr_id n \<notin> ?S) (upsert_nodes d)"
  obtain s1 where w: "write_diff_unless_empty sha (d\<lparr>upsert_nodes := ?ins\<rparr>) st = Inr s1"
    and st': "st' = fold replace_untyped_calls ?kept s1"
    and d': "d' = d\<lparr>upsert_nodes := ?ins @ ?kept\<rparr>"
    using assms(2) False
    by (auto simp: apply_semantic_diff_def Let_def savepoint_def split: sum.splits prod.splits)
  have "node_at (fold replace_untyped_calls ns s) i = node_at s i" for ns s
    by (induction ns arbitrary: s) (auto simp: replace_untyped_calls_def node_at_def)
  then have "node_at st' i = node_at s1 i" by (simp add: st')
  also have "\<dots> = node_map_after (d\<lparr>upsert_nodes := ?ins\<rparr>) (node_at st) i"
  proof (cases "diff_is_empty (d\<lparr>upsert_nodes := ?ins\<rparr>)")
    case True
    with w show ?thesis
      by (simp add: write_diff_unless_empty_def node_map_after_def diff_is_empty_def last_upsert_def)
  next
    case False
    with w show ?thesis
      by (intro write_diff_nodes [OF _ assms(1,3)]) (simp add: write_diff_unless_empty_def)
  qed
  also have "\<dots> = (if i \<in> ?S then node_at st i else node_map_after d (node_at st) i)"
  proof -
    have "last_upsert (filter (\<lambda>n. nr_id n \<notin> S) ns) i =
        (if i \<in> S then None else last_upsert ns i)" for S ns
      by (induction ns) (auto simp: last_upsert_def map_add_def split: option.splits)
    moreover have "i \<in> ?S \<Longrightarrow> i \<notin> set (delete_node_ids d)" by (auto simp: stored_node_ids_def)
    ultimately show ?thesis by (auto simp: node_map_after_def)
  qed
  finally show ?thesis by (simp add: d' union_filter_mset_complement)
qed

section \<open>Concrete runs\<close>

lemma hex16_length: "length (hex16 sha t) = 2 * min 16 (length (sha t))"
  by (simp add: hex16_def length_concat hex_byte_def o_def sum_list_triv)

lemma sample_not_container: "\<forall>l k. ''a'' \<noteq> container_id rev l k"
proof (intro allI notI)
  fix l k :: string
  assume "''a'' = container_id rev l k"
  then have "length ''a'' = length (container_id rev l k)" by simp
  then show False by (simp add: container_id_def hex16_length)
qed


theorem apply_diff_node_map_witness:
  "node_at (fst (apply_diff rev empty_store sample_diff)) ''a'' = Some (node_row sample_member)"
proof -
  have k: "keyed n_id (nodes empty_store)" by (simp add: empty_store_def)
  have ok: "snd (apply_diff rev empty_store sample_diff) = Inr ()" by code_simp
  have "node_map_after sample_diff (node_at empty_store) ''a'' = Some (node_row sample_member)" by code_simp
  with apply_diff_node_map [OF k ok sample_not_container] show ?thesis by simp
qed

text \<open>The stored function keeps its name when the semantic tier sends another one for its id.\<close>

theorem semantic_keeps_stored_rows_witness:
  "node_at (fst (apply_semantic_diff rev (fst (apply_diff rev empty_store sample_diff))
      (default_Diff\<lparr>upsert_nodes := [sample_member\<lparr>nr_name := ''g''\<rparr>]\<rparr>))) ''a'' = Some (node_row sample_member)"
  (is "node_at (fst (apply_semantic_diff rev ?s ?d)) _ = _")
proof -
  obtain st' d' res where r: "apply_semantic_diff rev ?s ?d = (st', d', res)" by (metis prod_cases3)
  have "snd (snd (apply_semantic_diff rev ?s ?d)) = Inr ()" by code_simp
  with r have r': "apply_semantic_diff rev ?s ?d = (st', d', Inr ())" by simp
  have k: "keyed n_id (nodes ?s)" unfolding keyed_def by code_simp
  have "''a'' \<in> set (stored_node_ids ?s ?d)" "node_at ?s ''a'' = Some (node_row sample_member)" by code_simp+
  with semantic_keeps_stored_rows [OF k r' sample_not_container] r show ?thesis by simp
qed

end
