(* ===== verification/File_Rows.thy ===== *)
theory File_Rows
  imports Write_Rows
begin

text \<open>
  \<^verbatim>\<open>core/src/storage/file_rows.rs\<close>: the rows a file owns, and how a \<^verbatim>\<open>fileChanged\<close> diff is widened
  with the deletes its scope implies. \<^verbatim>\<open>ORDER BY\<close> on a text column is bytewise, which is the
  order of \<open>sort\<close> on strings here.
\<close>

datatype FileScope = Partial | Complete | Gone

definition stored_nodes :: "string \<Rightarrow> store \<Rightarrow> string list" where
  "stored_nodes path st = sort (map n_id (filter (\<lambda>n. n_filePath n = path) (nodes st)))"

text \<open>The join of edges with their source nodes, as id, source node and tier.\<close>

definition stored_edges :: "string \<Rightarrow> store \<Rightarrow> (string \<times> string \<times> string) list" where
  "stored_edges path st =
     sort_key fst (concat (map (\<lambda>e. map (\<lambda>n. (e_id e, e_fromId e, e_source e))
       (filter (\<lambda>n. n_id n = e_fromId e \<and> n_filePath n = path) (nodes st))) (edges st)))"

definition widen :: "string \<Rightarrow> FileScope \<Rightarrow> store \<Rightarrow> Diff \<Rightarrow> Diff" where
  "widen path scope st d =
     (if scope = Partial then d
      else
        let upserted_nodes = map nr_id (upsert_nodes d);
            upserted_edges = map ed_id (upsert_edges d);
            stored = stored_nodes path st;
            removed = filter (\<lambda>i. i \<notin> set upserted_nodes) stored;
            drop_edges = filter (\<lambda>(i, from_id, source).
                \<not> (i \<in> set upserted_edges \<or> i \<in> set (delete_edge_ids d)) \<and>
                \<not> (scope = Complete \<and> source = ''semantic'' \<and> from_id \<notin> set removed))
              (stored_edges path st)
        in d\<lparr>delete_edge_ids := delete_edge_ids d @ map fst drop_edges,
             delete_node_ids := delete_node_ids d @
               filter (\<lambda>i. i \<in> set removed \<and> i \<notin> set (delete_node_ids d)) stored\<rparr>)"

type_synonym LanguagePath = "string \<times> string"

text \<open>
  The importing files of a list of importing nodes, distinct and ordered by path then language;
  an importer's language is that of its own file node when it has one.
\<close>

definition importer_rows :: "store \<Rightarrow> string \<Rightarrow> NodeRow list \<Rightarrow> LanguagePath list" where
  "importer_rows st path srcs =
     map prod.swap (btree_set (concat (map (\<lambda>src.
       (case filter (\<lambda>f. n_filePath f = n_filePath src \<and> n_kind f = ''File'') (nodes st) of
          [] \<Rightarrow> [(n_filePath src, n_language src)]
        | fs \<Rightarrow> map (\<lambda>f. (n_filePath src, n_language f)) fs))
       (filter (\<lambda>src. n_filePath src \<noteq> path \<and> n_filePath src \<noteq> []) srcs))))"

definition importing_nodes :: "store \<Rightarrow> string list \<Rightarrow> NodeRow list" where
  "importing_nodes st targets =
     concat (map (\<lambda>e. filter (\<lambda>src. n_id src = e_fromId e) (nodes st))
       (filter (\<lambda>e. e_kind e = ''IMPORTS'' \<and> e_toId e \<in> set targets) (edges st)))"

definition file_nodes :: "store \<Rightarrow> string \<Rightarrow> NodeRow list" where
  "file_nodes st path = filter (\<lambda>n. n_filePath n = path \<and> n_kind n = ''File'') (nodes st)"

definition importers_of :: "store \<Rightarrow> string \<Rightarrow> (string \<times> LanguagePath list) option" where
  "importers_of st path =
     (case file_nodes st path of
        [] \<Rightarrow> None
      | f # _ \<Rightarrow> Some (n_language f,
          importer_rows st path (importing_nodes st (map n_id (file_nodes st path)))))"

definition waiting_ids :: "store \<Rightarrow> string \<Rightarrow> string list" where
  "waiting_ids st path =
     map t_nodeId (filter (\<lambda>t. t_scopeKind t = ''file'' \<and> t_scope t = path) (placeholder_targets st)) @
     map fst (filter (\<lambda>r. snd r = path) (placeholder_also_scopes st))"

definition waiting_importers :: "store \<Rightarrow> string \<Rightarrow> LanguagePath list" where
  "waiting_importers st path = importer_rows st path (importing_nodes st (waiting_ids st path))"

definition delete_indexed_file :: "string \<Rightarrow> store \<Rightarrow> store" where
  "delete_indexed_file path st = st\<lparr>indexed_files := delete_by if_filePath path (indexed_files st)\<rparr>"

section \<open>What widening adds\<close>

lemma set_stored_nodes: "i \<in> set (stored_nodes path st) \<longleftrightarrow> (\<exists>n\<in>set (nodes st). n_id n = i \<and> n_filePath n = path)"
  by (auto simp: stored_nodes_def)

lemma set_stored_edges:
  "(i, f, s) \<in> set (stored_edges path st) \<longleftrightarrow>
     (\<exists>e\<in>set (edges st). e_id e = i \<and> e_fromId e = f \<and> e_source e = s \<and>
        (\<exists>n\<in>set (nodes st). n_id n = f \<and> n_filePath n = path))"
  unfolding stored_edges_def by auto

lemma widen_upserts [simp]:
  "upsert_nodes (widen path scope st d) = upsert_nodes d"
  "upsert_edges (widen path scope st d) = upsert_edges d"
  by (simp_all add: widen_def Let_def)

lemma widen_deletes_node:
  assumes "scope \<noteq> Partial" and "n \<in> set (nodes st)" and "n_filePath n = path"
    and "n_id n \<notin> nr_id ` set (upsert_nodes d)"
  shows "n_id n \<in> set (delete_node_ids (widen path scope st d))"
proof -
  have "n_id n \<in> set (stored_nodes path st)" using assms(2,3) by (auto simp: set_stored_nodes)
  with assms(1,4) show ?thesis by (auto simp: widen_def Let_def)
qed

lemma widen_deletes_edge:
  assumes "scope \<noteq> Partial" and "e \<in> set (edges st)" and "n \<in> set (nodes st)" "n_id n = e_fromId e"
    "n_filePath n = path" and "e_id e \<notin> ed_id ` set (upsert_edges d)"
    and "\<not> (scope = Complete \<and> e_source e = ''semantic'' \<and> e_fromId e \<in> nr_id ` set (upsert_nodes d))"
  shows "e_id e \<in> set (delete_edge_ids (widen path scope st d))"
proof -
  have s: "(e_id e, e_fromId e, e_source e) \<in> set (stored_edges path st)"
    using assms(2-5) by (auto simp: set_stored_edges)
  have "e_fromId e \<in> set (stored_nodes path st)" using assms(3-5) by (auto simp: set_stored_nodes)
  with assms(1,6,7) s show ?thesis by (force simp: widen_def Let_def)
qed

text \<open>
  Widening deletes nothing else: the added node ids are stored nodes of the file that the diff
  does not send, the added edge ids are edges out of the file's nodes, and none is repeated.
\<close>

lemma widen_adds_only_file_rows:
  "set (delete_node_ids (widen path scope st d)) \<subseteq> set (delete_node_ids d) \<union>
     {n_id n | n. n \<in> set (nodes st) \<and> n_filePath n = path \<and> n_id n \<notin> nr_id ` set (upsert_nodes d)}"
  "set (delete_edge_ids (widen path scope st d)) \<subseteq> set (delete_edge_ids d) \<union>
     {e_id e | e. e \<in> set (edges st) \<and> e_id e \<notin> ed_id ` set (upsert_edges d) \<and>
        (\<exists>n\<in>set (nodes st). n_id n = e_fromId e \<and> n_filePath n = path)}"
proof -
  show "set (delete_node_ids (widen path scope st d)) \<subseteq> set (delete_node_ids d) \<union>
     {n_id n | n. n \<in> set (nodes st) \<and> n_filePath n = path \<and> n_id n \<notin> nr_id ` set (upsert_nodes d)}"
    by (auto simp: widen_def Let_def set_stored_nodes)
  show "set (delete_edge_ids (widen path scope st d)) \<subseteq> set (delete_edge_ids d) \<union>
     {e_id e | e. e \<in> set (edges st) \<and> e_id e \<notin> ed_id ` set (upsert_edges d) \<and>
        (\<exists>n\<in>set (nodes st). n_id n = e_fromId e \<and> n_filePath n = path)}"
    by (clarsimp simp: widen_def Let_def set_stored_edges split: if_splits) blast
qed

section \<open>Properties\<close>

lemma container_row_path:
  assumes "attach_members sha ms st created = (st', created')" and "r \<in> set (nodes st')"
  shows "r \<in> set (nodes st) \<or> n_filePath r = []"
  using assms
proof (induction sha ms st created rule: attach_members.induct)
  case (2 sha m key ms st created)
  obtain s1 new where e: "ensure_container (container_id sha (fst key) (snd key)) key st = (s1, new)"
    by fastforce
  then have "r \<in> set (nodes s1) \<Longrightarrow> r \<in> set (nodes st) \<or> n_filePath r = []"
    by (auto simp: ensure_container_def Let_def insert_ignore_by_set container_node_def split: if_splits)
  with 2 e show ?case by (fastforce simp: Let_def)
qed simp

lemma attach_row_path:
  assumes "r \<in> set (nodes (attach sha p st))"
  shows "r \<in> set (nodes st) \<or> n_filePath r = []"
proof -
  obtain s1 cr where a: "attach_members sha (p_members p) st [] = (s1, cr)" by fastforce
  have "set (nodes (recount sha k s)) \<subseteq> set (nodes s)" for k s
    by (auto simp: recount_def Let_def delete_container_def delete_node_rows_def delete_by_def)
  then have "set (nodes (fold (recount sha) ks s)) \<subseteq> set (nodes s)" for ks s
    by (induction ks arbitrary: s) (simp_all, meson subset_trans)
  from this [of "p_touched p" "apply_parents (p_parents p) s1"] assms a
  have "r \<in> set (nodes s1)" by (auto simp: attach_def apply_parents_def)
  with container_row_path [OF a] show ?thesis by blast
qed

lemma upsert_nodes_origin:
  assumes "try_fold upsert_node_row ns st = Inr st'" and "r \<in> set (nodes st')"
  shows "r \<in> node_row ` set ns \<or> (r \<in> set (nodes st) \<and> n_id r \<notin> nr_id ` set ns)"
  using assms
proof (induction ns arbitrary: st)
  case (Cons n ns)
  then obtain s1 where s1: "upsert_node_row n st = Inr s1" and t: "try_fold upsert_node_row ns s1 = Inr st'"
    by (auto split: sum.splits)
  have "r \<in> set (nodes s1) \<Longrightarrow> r = node_row n \<or> (r \<in> set (nodes st) \<and> n_id r \<noteq> nr_id n)"
    using upsert_node_row_effect(1) [OF s1]
    by (auto simp: node_table.upsert_set merge_node_def node_row_def split: if_splits)
  with Cons.IH [OF t Cons.prems(2)] show ?case by auto
qed simp

lemma write_diff_node_origin:
  assumes "write_diff sha d st = Inr st'" and "r \<in> set (nodes st')"
  shows "r \<in> node_row ` set (upsert_nodes d) \<or> n_filePath r = [] \<or>
    (r \<in> set (nodes st) \<and> n_id r \<notin> set (delete_node_ids d) \<and> n_id r \<notin> nr_id ` set (upsert_nodes d))"
proof -
  obtain s0 pending s2 s3 s4 where st: "detach sha st d = (s0, pending)"
    "s2 = fold (delete_node_row (map nr_id (upsert_nodes d))) (delete_node_ids d)
                (fold delete_edge_row (delete_edge_ids d) s0)"
    "try_fold upsert_node_row (upsert_nodes d) s2 = Inr s3"
    "try_fold upsert_edge_row (upsert_edges d) s3 = Inr s4"
    "st' = (case pending of None \<Rightarrow> s4 | Some p \<Rightarrow> attach sha p s4)"
    using write_diff_stages [OF assms(1)] .
  obtain E where s0: "s0 = st\<lparr>edges := E\<rparr>" using detach_frame [OF st(1)] by blast
  obtain E1 where s1: "fold delete_edge_row (delete_edge_ids d) s0 = s0\<lparr>edges := E1\<rparr>"
    using delete_edges_frame by blast
  have n2: "nodes s2 = filter (\<lambda>r. n_id r \<notin> set (delete_node_ids d)) (nodes st)"
    unfolding st(2) s1 delete_nodes_nodes by (simp add: s0)
  obtain E2 where s4: "s4 = s3\<lparr>edges := E2\<rparr>" using upsert_edges_frame [OF st(4)] by blast
  have "r \<in> set (nodes s3) \<or> n_filePath r = []"
    using assms(2) attach_row_path [of r sha _ s4] by (auto simp: st(5) s4 split: option.splits)
  with upsert_nodes_origin [OF st(3)] n2 show ?thesis by auto
qed

text \<open>
  C7. After a widened diff of scope \<open>Complete\<close> or \<open>Gone\<close> is applied, the file holds nothing the
  plugin did not just send: every node row of the file is one of the diff's records, and an edge
  out of a node the file had before is one the diff sends, a core edge, or, for \<open>Complete\<close> only,
  a semantic edge of a node that stays.
\<close>

theorem widened_diff_replaces_file:
  assumes "scope \<noteq> Partial" and "path \<noteq> []"
    and "apply_diff sha st (widen path scope st d) = (st', Inr ())"
  shows "(\<forall>r\<in>set (nodes st'). n_filePath r = path \<longrightarrow> r \<in> node_row ` set (upsert_nodes d)) \<and>
    (\<forall>e\<in>set (edges st'). (\<exists>n\<in>set (nodes st). n_id n = e_fromId e \<and> n_filePath n = path) \<longrightarrow>
       e_id e \<in> ed_id ` set (upsert_edges d) \<or> e_engine e = CORE_ENGINE \<or>
       (scope = Complete \<and> e_source e = ''semantic'' \<and> e_fromId e \<in> nr_id ` set (upsert_nodes d)))"
    (is "?N \<and> ?E")
proof (cases "diff_is_empty (widen path scope st d)")
  case True
  then have st': "st' = st" and e: "upsert_nodes d = []" "upsert_edges d = []"
    "delete_node_ids (widen path scope st d) = []" "delete_edge_ids (widen path scope st d) = []"
    using assms(3) by (auto simp: apply_diff_def diff_is_empty_def)
  show ?thesis
    using widen_deletes_node [OF assms(1), of _ st path d] widen_deletes_edge [OF assms(1), of _ st _ path d] e
    by (auto simp: st')
next
  case False
  with assms(3) have w: "write_diff sha (widen path scope st d) st = Inr st'"
    by (auto simp: apply_diff_def savepoint_def split: sum.splits)
  have ?N
  proof (intro ballI impI)
    fix r
    assume r: "r \<in> set (nodes st')" "n_filePath r = path"
    then show "r \<in> node_row ` set (upsert_nodes d)"
      using write_diff_node_origin [OF w r(1)] widen_deletes_node [OF assms(1) _ r(2), of st d] assms(2) by auto
  qed
  moreover have ?E
  proof (intro ballI impI)
    fix e
    assume e: "e \<in> set (edges st')" and "\<exists>n\<in>set (nodes st). n_id n = e_fromId e \<and> n_filePath n = path"
    then obtain n where n: "n \<in> set (nodes st)" "n_id n = e_fromId e" "n_filePath n = path" by blast
    show "e_id e \<in> ed_id ` set (upsert_edges d) \<or> e_engine e = CORE_ENGINE \<or>
       (scope = Complete \<and> e_source e = ''semantic'' \<and> e_fromId e \<in> nr_id ` set (upsert_nodes d))"
    proof (rule ccontr)
      assume no: "\<not> ?thesis"
      with write_diff_edge_origin [OF w e] obtain e0 where e0: "e0 \<in> set (edges st)" "edge_kept e0 e"
        "e_id e \<notin> set (delete_edge_ids (widen path scope st d))" by auto
      then have "e_id e0 \<in> set (delete_edge_ids (widen path scope st d))"
        using no n by (intro widen_deletes_edge [OF assms(1) _ n(1)]) (auto simp: edge_kept_def)
      with e0 show False by (simp add: edge_kept_def)
    qed
  qed
  ultimately show ?thesis ..
qed

section \<open>A concrete run\<close>

text \<open>A second version of the sample file without its function: widening retires the function.\<close>

definition sample_file_node :: NodeRecord where
  "sample_file_node = new_NodeRecord ''b'' ''File'' ''x.go'' ''x.go'' ''x.go'' ''go''"

theorem widened_diff_replaces_file_witness:
  "\<exists>st'. apply_diff rev (fst (apply_diff rev empty_store sample_diff))
      (widen ''x.go'' Complete (fst (apply_diff rev empty_store sample_diff))
         (default_Diff\<lparr>upsert_nodes := [sample_file_node]\<rparr>)) = (st', Inr ()) \<and>
    nodes st' = [node_row sample_file_node] \<and>
    (\<forall>r\<in>set (nodes st'). n_filePath r = ''x.go'' \<longrightarrow> r \<in> node_row ` {sample_file_node})"
  (is "\<exists>st'. ?r = (st', Inr ()) \<and> _")
proof -
  obtain st' res where r: "?r = (st', res)" by fastforce
  have "snd ?r = Inr ()" "nodes (fst ?r) = [node_row sample_file_node]" by code_simp+
  with r have r': "?r = (st', Inr ())" and n: "nodes st' = [node_row sample_file_node]" by simp_all
  have "Complete \<noteq> Partial" "''x.go'' \<noteq> ([] :: string)" by simp_all
  from widened_diff_replaces_file [OF this r'] n r' show ?thesis by (simp add: default_Diff_def)
qed

end
