(* ===== verification/Watch_Timers.thy ===== *)
theory Watch_Timers
  imports Write_Rows
begin

text \<open>
  The trailing-edge timers of the watcher: \<^verbatim>\<open>core/src/watcher/debounce.rs\<close> (one timer per path)
  and \<^verbatim>\<open>core/src/watcher/burst.rs\<close> (one timer for a whole batch of diffs). Both promise the same
  thing, stated once in the locale \<open>quiet_window\<close>. An \<^verbatim>\<open>Instant\<close> is a natural number of ticks and
  \<^verbatim>\<open>duration_since\<close> saturates at zero, as natural subtraction does. The clock is always the
  argument of the \<^verbatim>\<open>_at\<close> methods.
\<close>

section \<open>Debouncer\<close>

text \<open>The hash map of timestamps is an association list; nothing depends on its order.\<close>

record Debouncer =
  db_window :: nat
  db_last_seen :: "(string \<times> nat) list"

definition new_Debouncer :: "nat \<Rightarrow> Debouncer" where
  "new_Debouncer w = \<lparr>db_window = w, db_last_seen = []\<rparr>"

definition db_record_at :: "string \<Rightarrow> nat \<Rightarrow> Debouncer \<Rightarrow> Debouncer" where
  "db_record_at path now s =
     s\<lparr>db_last_seen := (path, now) # filter (\<lambda>e. fst e \<noteq> path) (db_last_seen s)\<rparr>"

definition drain_ready_at :: "nat \<Rightarrow> Debouncer \<Rightarrow> Debouncer \<times> string list" where
  "drain_ready_at now s =
     (let ready = map fst (filter (\<lambda>(_, seen). db_window s \<le> now - seen) (db_last_seen s))
      in (s\<lparr>db_last_seen := filter (\<lambda>e. fst e \<notin> set ready) (db_last_seen s)\<rparr>, ready))"

section \<open>BurstBatcher\<close>

record BurstBatcher =
  bb_window :: nat
  bb_pending :: Diff
  bb_last_seen :: "nat option"

definition new_BurstBatcher :: "nat \<Rightarrow> BurstBatcher" where
  "new_BurstBatcher w = \<lparr>bb_window = w, bb_pending = default_Diff, bb_last_seen = None\<rparr>"

definition extend_diff :: "Diff \<Rightarrow> Diff \<Rightarrow> Diff" where
  "extend_diff pending d =
     \<lparr>upsert_nodes = upsert_nodes pending @ upsert_nodes d,
      delete_node_ids = delete_node_ids pending @ delete_node_ids d,
      upsert_edges = upsert_edges pending @ upsert_edges d,
      delete_edge_ids = delete_edge_ids pending @ delete_edge_ids d\<rparr>"

definition bb_record_at :: "Diff \<Rightarrow> nat \<Rightarrow> BurstBatcher \<Rightarrow> BurstBatcher" where
  "bb_record_at d now s =
     s\<lparr>bb_pending := extend_diff (bb_pending s) d, bb_last_seen := Some now\<rparr>"

definition ready_to_flush_at :: "nat \<Rightarrow> BurstBatcher \<Rightarrow> bool" where
  "ready_to_flush_at now s =
     (case bb_last_seen s of
        Some seen \<Rightarrow> \<not> diff_is_empty (bb_pending s) \<and> bb_window s \<le> now - seen
      | None \<Rightarrow> False)"

text \<open>The batch is cleared before the write, so a diff the store refuses is dropped with it.\<close>

definition flush_if_ready_at ::
  "digest \<Rightarrow> nat \<Rightarrow> BurstBatcher \<Rightarrow> store \<Rightarrow> BurstBatcher \<times> store \<times> (store_error + bool)" where
  "flush_if_ready_at sha now s st =
     (if \<not> ready_to_flush_at now s then (s, st, Inr False)
      else
        let s' = s\<lparr>bb_pending := default_Diff, bb_last_seen := None\<rparr>
        in case apply_diff sha st (bb_pending s) of
             (st', Inl e) \<Rightarrow> (s', st', Inl e)
           | (st', Inr _) \<Rightarrow> (s', st', Inr True))"

section \<open>The quiet window\<close>

text \<open>
  A timer reads \<open>armed s\<close> as the time of the last event not yet fired for. An operation resets
  the timer at a time, restarts it only if it is armed, polls it at a time, or is of no concern
  to it.
\<close>

fun run_ops :: "('a \<Rightarrow> 's \<Rightarrow> 's \<times> 'b) \<Rightarrow> 'a list \<Rightarrow> 's \<Rightarrow> 's \<times> 'b list" where
  "run_ops f [] s = (s, [])"
| "run_ops f (a # as) s =
     (fst (run_ops f as (fst (f a s))), snd (f a s) # snd (run_ops f as (fst (f a s))))"

lemma length_run_ops [simp]: "length (snd (run_ops f as s)) = length as"
  by (induction as arbitrary: s) auto

lemma no_fire: "True \<notin> set bs \<Longrightarrow> bs = replicate (length bs) False"
  by (induction bs) auto

datatype timer_op = Reset nat | Touch nat | Poll nat | Other

locale quiet_window =
  fixes window :: nat
    and op :: "'a \<Rightarrow> timer_op"
    and exec :: "'a \<Rightarrow> 's \<Rightarrow> 's \<times> bool"
    and armed :: "'s \<Rightarrow> nat option"
    and ok :: "'s \<Rightarrow> bool"
  assumes exec_ok: "ok s \<Longrightarrow> ok (fst (exec a s))"
    and exec_reset: "ok s \<Longrightarrow> op a = Reset t \<Longrightarrow> armed (fst (exec a s)) = Some t \<and> \<not> snd (exec a s)"
    and exec_touch: "ok s \<Longrightarrow> op a = Touch t \<Longrightarrow>
      armed (fst (exec a s)) = (if armed s = None then None else Some t) \<and> \<not> snd (exec a s)"
    and exec_poll: "ok s \<Longrightarrow> op a = Poll t \<Longrightarrow>
      (snd (exec a s) \<longleftrightarrow> (\<exists>seen. armed s = Some seen \<and> window \<le> t - seen)) \<and>
      armed (fst (exec a s)) = (if snd (exec a s) then None else armed s)"
    and exec_other: "ok s \<Longrightarrow> op a = Other \<Longrightarrow> armed (fst (exec a s)) = armed s \<and> \<not> snd (exec a s)"
begin

definition due :: "nat \<Rightarrow> 'a \<Rightarrow> bool" where
  "due seen a \<longleftrightarrow> (\<exists>t. op a = Poll t \<and> window \<le> t - seen)"

lemma run_idle:
  assumes "ok s" and "armed s = None" and "\<forall>a\<in>set as. \<forall>t. op a \<noteq> Reset t \<and> op a \<noteq> Touch t"
  shows "armed (fst (run_ops exec as s)) = None \<and> True \<notin> set (snd (run_ops exec as s))"
  using assms
proof (induction as arbitrary: s)
  case (Cons a as)
  have "armed (fst (exec a s)) = None \<and> \<not> snd (exec a s)"
    using Cons.prems exec_poll [of s a] exec_other [of s a] by (cases "op a") auto
  with Cons.IH [of "fst (exec a s)"] Cons.prems exec_ok show ?case by simp
qed simp

text \<open>
  From an armed timer and with no further reset, the run fires at exactly one place: the first
  poll that finds the window elapsed; and nowhere if there is no such poll.
\<close>

lemma run_armed:
  assumes "ok s" and "armed s = Some seen" and "\<forall>a\<in>set as. \<forall>t. op a \<noteq> Reset t \<and> op a \<noteq> Touch t"
  shows "snd (run_ops exec as s) =
    map (\<lambda>i. due seen (as ! i) \<and> (\<forall>j<i. \<not> due seen (as ! j))) [0..<length as]"
  using assms
proof (induction as arbitrary: s)
  case (Cons a as)
  let ?s = "fst (exec a s)"
  have ok: "ok ?s" using Cons.prems exec_ok by simp
  have fired: "snd (exec a s) \<longleftrightarrow> due seen a"
    and armed: "armed ?s = (if due seen a then None else Some seen)"
    using Cons.prems exec_poll [of s a] exec_other [of s a] by (cases "op a"; auto simp: due_def)+
  have split: "[0..<length (a # as)] = 0 # map Suc [0..<length as]"
    by (simp add: upt_conv_Cons map_Suc_upt del: upt_Suc)
  show ?case
  proof (cases "due seen a")
    case True
    have idle: "True \<notin> set (snd (run_ops exec as ?s))"
      using run_idle [OF ok] armed True Cons.prems(3) by simp
    have "snd (run_ops exec as ?s) = map (\<lambda>_. False) [0..<length as]"
      using no_fire [OF idle] by (simp add: map_replicate_const)
    with True fired show ?thesis unfolding split by auto
  next
    case False
    have "(\<forall>j<Suc i. \<not> due seen ((a # as) ! j)) \<longleftrightarrow> (\<forall>j<i. \<not> due seen (as ! j))" for i
      using False by (auto simp: less_Suc_eq_0_disj)
    then show ?thesis
      unfolding split using Cons.IH [OF ok] armed False fired Cons.prems(3)
      by (simp add: o_def)
  qed
qed simp

theorem fires_once_after_quiet:
  assumes "ok s" and "op a = Reset seen" and "\<forall>b\<in>set bs. \<forall>t. op b \<noteq> Reset t \<and> op b \<noteq> Touch t"
  shows "snd (run_ops exec (a # bs) s) = False #
    map (\<lambda>i. due seen (bs ! i) \<and> (\<forall>j<i. \<not> due seen (bs ! j))) [0..<length bs]"
  using exec_reset [OF assms(1,2)] run_armed [OF exec_ok [OF assms(1)] _ assms(3)]
  by simp

end

section \<open>The debouncer keeps the contract, for every path\<close>

datatype db_op = DbRecord string nat | DbDrain nat

definition db_step :: "db_op \<Rightarrow> Debouncer \<Rightarrow> Debouncer \<times> string list" where
  "db_step a s =
     (case a of DbRecord path t \<Rightarrow> (db_record_at path t s, []) | DbDrain t \<Rightarrow> drain_ready_at t s)"

definition db_timer :: "string \<Rightarrow> db_op \<Rightarrow> timer_op" where
  "db_timer p a = (case a of DbRecord q t \<Rightarrow> if q = p then Reset t else Other | DbDrain t \<Rightarrow> Poll t)"

definition db_exec :: "string \<Rightarrow> db_op \<Rightarrow> Debouncer \<Rightarrow> Debouncer \<times> bool" where
  "db_exec p a s = (fst (db_step a s), p \<in> set (snd (db_step a s)))"

definition db_ok :: "nat \<Rightarrow> Debouncer \<Rightarrow> bool" where
  "db_ok w s \<longleftrightarrow> db_window s = w \<and> distinct (map fst (db_last_seen s))"

lemma db_ok_step: "db_ok w s \<Longrightarrow> db_ok w (fst (db_step a s))"
  by (auto simp: db_ok_def db_step_def db_record_at_def drain_ready_at_def Let_def distinct_map_filter
      split: db_op.splits)

lemma map_of_filter_key: "map_of (filter (\<lambda>e. P (fst e)) xs) k = (if P k then map_of xs k else None)"
  by (induction xs) auto

lemma map_of_filter_neq [simp]:
  "map_of (filter (\<lambda>e. fst e \<noteq> q) xs) k = (if k \<noteq> q then map_of xs k else None)"
  by (rule map_of_filter_key)

lemma drain_ready_iff:
  assumes "db_ok w s"
  shows "p \<in> set (snd (drain_ready_at t s)) \<longleftrightarrow> (\<exists>seen. map_of (db_last_seen s) p = Some seen \<and> w \<le> t - seen)"
    "map_of (db_last_seen (fst (drain_ready_at t s))) p =
       (if p \<in> set (snd (drain_ready_at t s)) then None else map_of (db_last_seen s) p)"
proof -
  have d: "distinct (map fst (db_last_seen s))" and w: "db_window s = w"
    using assms by (auto simp: db_ok_def)
  show "p \<in> set (snd (drain_ready_at t s)) \<longleftrightarrow> (\<exists>seen. map_of (db_last_seen s) p = Some seen \<and> w \<le> t - seen)"
    using w map_of_eq_Some_iff [OF d] by (force simp: drain_ready_at_def Let_def)
  show "map_of (db_last_seen (fst (drain_ready_at t s))) p =
       (if p \<in> set (snd (drain_ready_at t s)) then None else map_of (db_last_seen s) p)"
    using map_of_filter_key [of "\<lambda>k. k \<notin> set (snd (drain_ready_at t s))" "db_last_seen s" p]
    by (simp add: drain_ready_at_def Let_def)
qed

interpretation debounce: quiet_window w "db_timer p" "db_exec p" "\<lambda>s. map_of (db_last_seen s) p" "db_ok w"
  for w p
proof
  fix s a t
  assume ok: "db_ok w s"
  show "db_ok w (fst (db_exec p a s))" using db_ok_step [OF ok] by (simp add: db_exec_def)
  show "db_timer p a = Reset t \<Longrightarrow>
      map_of (db_last_seen (fst (db_exec p a s))) p = Some t \<and> \<not> snd (db_exec p a s)"
    by (auto simp: db_timer_def db_exec_def db_step_def db_record_at_def split: db_op.splits if_splits)
  show "db_timer p a = Touch t \<Longrightarrow> map_of (db_last_seen (fst (db_exec p a s))) p =
      (if map_of (db_last_seen s) p = None then None else Some t) \<and> \<not> snd (db_exec p a s)"
    by (auto simp: db_timer_def split: db_op.splits if_splits)
  show "db_timer p a = Other \<Longrightarrow>
      map_of (db_last_seen (fst (db_exec p a s))) p = map_of (db_last_seen s) p \<and> \<not> snd (db_exec p a s)"
    by (auto simp: db_timer_def db_exec_def db_step_def db_record_at_def split: db_op.splits if_splits)
  show "db_timer p a = Poll t \<Longrightarrow>
      (snd (db_exec p a s) \<longleftrightarrow> (\<exists>seen. map_of (db_last_seen s) p = Some seen \<and> w \<le> t - seen)) \<and>
      map_of (db_last_seen (fst (db_exec p a s))) p =
        (if snd (db_exec p a s) then None else map_of (db_last_seen s) p)"
    using drain_ready_iff [OF ok, where p = p and t = t]
    by (auto simp: db_timer_def db_exec_def db_step_def split: db_op.splits if_splits)
qed

lemma run_ops_db_exec:
  "run_ops (db_exec p) as s =
     (fst (run_ops db_step as s), map (\<lambda>r. p \<in> set r) (snd (run_ops db_step as s)))"
  by (induction as arbitrary: s) (auto simp: db_exec_def)

lemma run_ops_ok: "db_ok w s \<Longrightarrow> db_ok w (fst (run_ops db_step as s))"
  by (induction as arbitrary: s) (auto simp: db_ok_step)

lemma new_Debouncer_ok: "db_ok w (new_Debouncer w)"
  by (simp add: db_ok_def new_Debouncer_def)

text \<open>
  C28. Trailing edge, once per burst: whatever happened before, after an event for a path at time
  \<open>seen\<close> and until the next event for it, the path is handed out by exactly one drain, the first
  one at least \<open>window\<close> after \<open>seen\<close>, whatever other paths do; and by none if there is no such drain.
\<close>

theorem debounce_trailing_edge:
  assumes "\<forall>t. DbRecord p t \<notin> set bs" and "i < length bs"
  shows "p \<in> set (snd (run_ops db_step bs
      (db_record_at p seen (fst (run_ops db_step before (new_Debouncer w))))) ! i) \<longleftrightarrow>
    (\<exists>t. bs ! i = DbDrain t \<and> w \<le> t - seen) \<and>
    (\<forall>j<i. \<not> (\<exists>t. bs ! j = DbDrain t \<and> w \<le> t - seen))"
proof -
  let ?s = "fst (run_ops db_step before (new_Debouncer w))"
  have ok: "db_ok w ?s" by (intro run_ops_ok new_Debouncer_ok)
  have due: "debounce.due w p seen a \<longleftrightarrow> (\<exists>t. a = DbDrain t \<and> w \<le> t - seen)" for a
    by (auto simp: debounce.due_def db_timer_def split: db_op.splits)
  have "\<forall>b\<in>set bs. \<forall>t. db_timer p b \<noteq> Reset t \<and> db_timer p b \<noteq> Touch t"
    using assms(1) by (auto simp: db_timer_def split: db_op.splits)
  then have "snd (run_ops (db_exec p) (DbRecord p seen # bs) ?s) = False #
      map (\<lambda>i. debounce.due w p seen (bs ! i) \<and> (\<forall>j<i. \<not> debounce.due w p seen (bs ! j))) [0..<length bs]"
    by (intro debounce.fires_once_after_quiet ok) (simp_all add: db_timer_def)
  then have "map (\<lambda>r. p \<in> set r) (snd (run_ops db_step bs (db_record_at p seen ?s))) ! i =
      map (\<lambda>i. debounce.due w p seen (bs ! i) \<and> (\<forall>j<i. \<not> debounce.due w p seen (bs ! j))) [0..<length bs] ! i"
    by (simp add: run_ops_db_exec db_exec_def db_step_def)
  with assms(2) show ?thesis by (simp add: due)
qed

theorem debounce_trailing_edge_witness:
  "''a'' \<in> set (snd (run_ops db_step [DbDrain 10, DbRecord ''b'' 20, DbDrain 60, DbDrain 70]
      (db_record_at ''a'' 0 (fst (run_ops db_step [] (new_Debouncer 50))))) ! 2)"
  using debounce_trailing_edge
    [of "''a''" "[DbDrain 10, DbRecord ''b'' 20, DbDrain 60, DbDrain 70]" 2 0 "[]" 50]
  by (auto simp: less_Suc_eq numeral_2_eq_2)

section \<open>The batcher keeps the contract too\<close>

datatype bb_op = BbRecord Diff nat | BbFlush nat

text \<open>One operation on the batcher and the index; it says whether a flush happened, failed ones included.\<close>

definition bb_exec :: "digest \<Rightarrow> bb_op \<Rightarrow> BurstBatcher \<times> store \<Rightarrow> (BurstBatcher \<times> store) \<times> bool" where
  "bb_exec sha a s =
     (case a of
        BbRecord d t \<Rightarrow> ((bb_record_at d t (fst s), snd s), False)
      | BbFlush t \<Rightarrow>
          let (s', st', res) = flush_if_ready_at sha t (fst s) (snd s)
          in ((s', st'), res \<noteq> Inr False))"

definition bb_timer :: "bb_op \<Rightarrow> timer_op" where
  "bb_timer a =
     (case a of BbRecord d t \<Rightarrow> if diff_is_empty d then Touch t else Reset t | BbFlush t \<Rightarrow> Poll t)"

definition bb_armed :: "BurstBatcher \<times> store \<Rightarrow> nat option" where
  "bb_armed s = (if diff_is_empty (bb_pending (fst s)) then None else bb_last_seen (fst s))"

definition bb_ok :: "nat \<Rightarrow> BurstBatcher \<times> store \<Rightarrow> bool" where
  "bb_ok w s \<longleftrightarrow> bb_window (fst s) = w \<and>
     (diff_is_empty (bb_pending (fst s)) \<or> bb_last_seen (fst s) \<noteq> None)"

lemma extend_diff_empty:
  "diff_is_empty (extend_diff p d) \<longleftrightarrow> diff_is_empty p \<and> diff_is_empty d" "diff_is_empty default_Diff"
  by (auto simp: diff_is_empty_def extend_diff_def default_Diff_def)

lemma bb_flush:
  assumes "bb_ok w s"
  shows "snd (bb_exec sha (BbFlush t) s) \<longleftrightarrow> (\<exists>seen. bb_armed s = Some seen \<and> w \<le> t - seen)"
    "fst (fst (bb_exec sha (BbFlush t) s)) = (if snd (bb_exec sha (BbFlush t) s)
       then (fst s)\<lparr>bb_pending := default_Diff, bb_last_seen := None\<rparr> else fst s)"
proof -
  have "ready_to_flush_at t (fst s) \<longleftrightarrow> (\<exists>seen. bb_armed s = Some seen \<and> w \<le> t - seen)"
    using assms by (auto simp: ready_to_flush_at_def bb_armed_def bb_ok_def split: option.splits)
  moreover have "snd (bb_exec sha (BbFlush t) s) \<longleftrightarrow> ready_to_flush_at t (fst s)"
    by (auto simp: bb_exec_def flush_if_ready_at_def Let_def split: prod.splits sum.splits)
  moreover have "fst (fst (bb_exec sha (BbFlush t) s)) = (if ready_to_flush_at t (fst s)
       then (fst s)\<lparr>bb_pending := default_Diff, bb_last_seen := None\<rparr> else fst s)"
    by (auto simp: bb_exec_def flush_if_ready_at_def Let_def split: prod.splits sum.splits)
  ultimately show "snd (bb_exec sha (BbFlush t) s) \<longleftrightarrow> (\<exists>seen. bb_armed s = Some seen \<and> w \<le> t - seen)"
    "fst (fst (bb_exec sha (BbFlush t) s)) = (if snd (bb_exec sha (BbFlush t) s)
       then (fst s)\<lparr>bb_pending := default_Diff, bb_last_seen := None\<rparr> else fst s)" by simp_all
qed

interpretation burst: quiet_window w bb_timer "bb_exec sha" bb_armed "bb_ok w" for w sha
proof
  fix s :: "BurstBatcher \<times> store" and a t
  assume ok: "bb_ok w s"
  note F = bb_flush [OF ok, of sha]
  note defs = bb_ok_def bb_armed_def bb_record_at_def extend_diff_empty
  have R: "bb_exec sha (BbRecord d u) s = ((bb_record_at d u (fst s), snd s), False)" for d u
    by (simp add: bb_exec_def)
  show "bb_ok w (fst (bb_exec sha a s))"
    using ok F(2) by (cases a) (auto simp: R defs)
  show "bb_timer a = Reset t \<Longrightarrow> bb_armed (fst (bb_exec sha a s)) = Some t \<and> \<not> snd (bb_exec sha a s)"
    by (cases a) (auto simp: bb_timer_def R defs split: if_splits)
  show "bb_timer a = Touch t \<Longrightarrow> bb_armed (fst (bb_exec sha a s)) =
      (if bb_armed s = None then None else Some t) \<and> \<not> snd (bb_exec sha a s)"
    using ok by (cases a) (auto simp: bb_timer_def R defs split: if_splits)
  show "bb_timer a = Other \<Longrightarrow> bb_armed (fst (bb_exec sha a s)) = bb_armed s \<and> \<not> snd (bb_exec sha a s)"
    by (cases a) (auto simp: bb_timer_def split: if_splits)
  show "bb_timer a = Poll t \<Longrightarrow>
      (snd (bb_exec sha a s) \<longleftrightarrow> (\<exists>seen. bb_armed s = Some seen \<and> w \<le> t - seen)) \<and>
      bb_armed (fst (bb_exec sha a s)) = (if snd (bb_exec sha a s) then None else bb_armed s)"
    using F [of t] by (cases a) (auto simp: bb_timer_def defs split: if_splits)
qed

section \<open>A batch against the same diffs one at a time\<close>

definition batch_of :: "Diff list \<Rightarrow> Diff" where
  "batch_of ds = foldl extend_diff default_Diff ds"

text \<open>
  An id keeps its fate in the batch when no diff that only deletes it comes after one that
  upserts it: in the batch every delete runs before every upsert.
\<close>

fun order_kept :: "string \<Rightarrow> Diff list \<Rightarrow> bool" where
  "order_kept i [] \<longleftrightarrow> True"
| "order_kept i (d # ds) \<longleftrightarrow>
     (i \<in> nr_id ` set (upsert_nodes d) \<longrightarrow>
        (\<forall>e\<in>set ds. i \<in> set (delete_node_ids e) \<longrightarrow> i \<in> nr_id ` set (upsert_nodes e))) \<and>
     order_kept i ds"

lemma last_upsert_append:
  "last_upsert (ns @ ms) i = (case last_upsert ms i of None \<Rightarrow> last_upsert ns i | Some n \<Rightarrow> Some n)"
  by (auto simp: last_upsert_def map_add_def split: option.splits)

lemma last_upsert_None: "last_upsert ns i = None \<longleftrightarrow> i \<notin> nr_id ` set ns"
  by (auto simp: last_upsert_def map_of_eq_None_iff image_image)

lemma node_map_extend:
  assumes "i \<in> nr_id ` set (upsert_nodes p) \<Longrightarrow> i \<in> set (delete_node_ids d) \<Longrightarrow> i \<in> nr_id ` set (upsert_nodes d)"
  shows "node_map_after (extend_diff p d) m i = node_map_after d (node_map_after p m) i"
proof (cases "last_upsert (upsert_nodes d) i")
  case None
  then show ?thesis
    using assms last_upsert_None [of "upsert_nodes d" i] last_upsert_None [of "upsert_nodes p" i]
    by (auto simp: node_map_after_def extend_diff_def last_upsert_append split: option.splits)
qed (simp add: node_map_after_def extend_diff_def last_upsert_append)

lemma node_map_point: "f i = g i \<Longrightarrow> node_map_after d f i = node_map_after d g i"
  by (simp add: node_map_after_def split: option.splits)

lemma node_maps_point:
  assumes "f i = g i"
  shows "foldl (\<lambda>m d. node_map_after d m) f es i = foldl (\<lambda>m d. node_map_after d m) g es i"
  using assms
proof (induction es arbitrary: f g)
  case (Cons e es)
  show ?case
    using Cons.IH [of "node_map_after e f" "node_map_after e g"] node_map_point [of f i g e, OF Cons.prems]
    by simp
qed simp

lemma node_map_batch:
  assumes "order_kept i ds"
    and "i \<in> nr_id ` set (upsert_nodes p) \<Longrightarrow>
      \<forall>e\<in>set ds. i \<in> set (delete_node_ids e) \<longrightarrow> i \<in> nr_id ` set (upsert_nodes e)"
  shows "node_map_after (foldl extend_diff p ds) m i = foldl (\<lambda>m d. node_map_after d m) (node_map_after p m) ds i"
  using assms
proof (induction ds arbitrary: p m)
  case (Cons d ds)
  have eq: "node_map_after (extend_diff p d) m i = node_map_after d (node_map_after p m) i"
    using Cons.prems(2) by (intro node_map_extend) auto
  have later: "\<forall>e\<in>set ds. i \<in> set (delete_node_ids e) \<longrightarrow> i \<in> nr_id ` set (upsert_nodes e)"
    if "i \<in> nr_id ` set (upsert_nodes (extend_diff p d))"
  proof -
    from that consider "i \<in> nr_id ` set (upsert_nodes p)" | "i \<in> nr_id ` set (upsert_nodes d)"
      by (auto simp: extend_diff_def)
    then show ?thesis
    proof cases
      case 1
      from Cons.prems(2) [OF this] show ?thesis by simp
    next
      case 2
      with Cons.prems(1) show ?thesis by simp
    qed
  qed
  have "order_kept i ds" using Cons.prems(1) by simp
  then have "node_map_after (foldl extend_diff (extend_diff p d) ds) m i =
      foldl (\<lambda>m d. node_map_after d m) (node_map_after (extend_diff p d) m) ds i"
    by (rule Cons.IH) (rule later)
  also have "\<dots> = foldl (\<lambda>m d. node_map_after d m) (node_map_after d (node_map_after p m)) ds i"
    by (rule node_maps_point) (rule eq)
  finally show ?case by simp
qed simp

lemma batch_of_pending:
  "bb_pending (fold (\<lambda>d. bb_record_at d t) ds s) = foldl extend_diff (bb_pending s) ds"
  by (induction ds arbitrary: s) (simp_all add: bb_record_at_def)

lemma flush_applied:
  "flush_if_ready_at sha now s st = (s', st', Inr True) \<Longrightarrow> apply_diff sha st (bb_pending s) = (st', Inr ())"
  by (cases "ready_to_flush_at now s"; cases "apply_diff sha st (bb_pending s)")
    (auto simp: flush_if_ready_at_def Let_def split: sum.splits)

text \<open>
  A burst flushed as one transaction leaves every node as the node-map updates of its diffs
  composed in order, for each id that no diff deletes after an earlier diff of the burst
  upserted it. Container nodes are excepted.
\<close>

theorem burst_flush_as_sequence:
  assumes "keyed n_id (nodes st)" and "\<forall>l k. i \<noteq> container_id sha l k" and "order_kept i ds"
    and "flush_if_ready_at sha now (fold (\<lambda>d. bb_record_at d t) ds (new_BurstBatcher w)) st =
      (s', st', Inr True)"
  shows "node_at st' i = foldl (\<lambda>m d. node_map_after d m) (node_at st) ds i"
proof -
  let ?d = "batch_of ds"
  have pend: "bb_pending (fold (\<lambda>d. bb_record_at d t) ds (new_BurstBatcher w)) = ?d"
    by (simp add: batch_of_pending new_BurstBatcher_def batch_of_def)
  have "apply_diff sha st ?d = (st', Inr ())"
    using flush_applied [OF assms(4)] unfolding pend .
  then have "node_at st' i = node_map_after ?d (node_at st) i"
    using apply_diff_nodes [OF assms(1) _ assms(2), of ?d] by simp
  also have "\<dots> = foldl (\<lambda>m d. node_map_after d m) (node_map_after default_Diff (node_at st)) ds i"
    unfolding batch_of_def by (rule node_map_batch [OF assms(3)]) (simp add: default_Diff_def)
  also have "node_map_after default_Diff (node_at st) = node_at st"
    by (rule ext) (simp add: node_map_after_def default_Diff_def last_upsert_def)
  finally show ?thesis .
qed


theorem burst_flush_as_sequence_witness:
  "node_at (fst (snd (flush_if_ready_at rev 60
     (fold (\<lambda>d. bb_record_at d 0) [sample_diff, default_Diff\<lparr>delete_node_ids := [''z'']\<rparr>] (new_BurstBatcher 50))
     empty_store))) ''a'' = Some (node_row sample_member)"
  (is "node_at (fst (snd ?r)) _ = _")
proof -
  obtain s' st' res where r: "?r = (s', st', res)" by (metis prod_cases3)
  have "snd (snd ?r) = Inr True" by code_simp
  with r have r': "?r = (s', st', Inr True)" by simp
  have k: "keyed n_id (nodes empty_store)" by (simp add: empty_store_def)
  have o': "order_kept ''a'' [sample_diff, default_Diff\<lparr>delete_node_ids := [''z'']\<rparr>]"
    by (simp add: default_Diff_def)
  have "foldl (\<lambda>m d. node_map_after d m) (node_at empty_store)
      [sample_diff, default_Diff\<lparr>delete_node_ids := [''z'']\<rparr>] ''a'' = Some (node_row sample_member)"
    by code_simp
  with burst_flush_as_sequence [OF k sample_not_container o' r'] r show ?thesis by simp
qed

end
