(* ===== verification/Rescan.thy ===== *)
theory Rescan
  imports Watch_Timers
begin

text \<open>
  \<^verbatim>\<open>core/src/watcher/rescan.rs\<close> (which subtrees to reconcile after the OS dropped events, and
  when), with \<^verbatim>\<open>under_any\<close> of \<^verbatim>\<open>core/src/project_walk.rs\<close>, and \<^verbatim>\<open>core/src/watcher/batch.rs\<close> (the order
  in which a settled batch is routed). Durations and instants are numbers of milliseconds;
  the saturation of \<^verbatim>\<open>saturating_mul\<close> at the largest duration is out of reach and left out.
\<close>

section \<open>Subtrees\<close>

definition under_one :: "string \<Rightarrow> string \<Rightarrow> bool" where
  "under_one relative subtree =
     (subtree = [] \<or>
      (case strip_prefix subtree relative of
         None \<Rightarrow> False
       | Some rest \<Rightarrow> rest = [] \<or> starts_with rest ''/''))"

definition under_any :: "string \<Rightarrow> string list \<Rightarrow> bool" where
  "under_any relative subtrees = list_ex (under_one relative) subtrees"

lemma under_one_iff: "under_one r s \<longleftrightarrow> s = [] \<or> r = s \<or> (\<exists>t. r = s @ CHR ''/'' # t)"
  by (auto simp: under_one_def str_simps split: option.splits)

lemma under_one_components:
  "under_one r s \<longleftrightarrow> s = [] \<or> (\<exists>rest. components r = components s @ rest)"
  by (simp only: under_one_iff components_prefix [symmetric])

lemma under_one_refl [simp]: "under_one r r"
  by (simp add: under_one_iff)

lemma under_one_trans: "under_one a b \<Longrightarrow> under_one b c \<Longrightarrow> under_one a c"
  by (auto simp: under_one_iff)

lemma under_any_iff: "under_any r ss \<longleftrightarrow> (\<exists>s\<in>set ss. under_one r s)"
  by (simp add: under_any_def list_ex_iff)

section \<open>RescanScheduler\<close>

record RescanScheduler =
  rs_settle :: nat
  rs_max_delay :: nat
  rs_gap_factor :: nat
  rs_pending :: "string list"
  rs_first_at :: "nat option"
  rs_last_at :: "nat option"
  rs_not_before :: "nat option"

definition RESCAN_SETTLE :: nat where "RESCAN_SETTLE = 1000"
definition RESCAN_MAX_DELAY :: nat where "RESCAN_MAX_DELAY = 30000"
definition RESCAN_MIN_GAP_FACTOR :: nat where "RESCAN_MIN_GAP_FACTOR = 3"

definition with_timings :: "nat \<Rightarrow> nat \<Rightarrow> nat \<Rightarrow> RescanScheduler" where
  "with_timings settle max_delay gap_factor =
     \<lparr>rs_settle = settle, rs_max_delay = max_delay, rs_gap_factor = gap_factor, rs_pending = [],
      rs_first_at = None, rs_last_at = None, rs_not_before = None\<rparr>"

definition new_RescanScheduler :: RescanScheduler where
  "new_RescanScheduler = with_timings RESCAN_SETTLE RESCAN_MAX_DELAY RESCAN_MIN_GAP_FACTOR"

definition rs_record_at :: "string \<Rightarrow> nat \<Rightarrow> RescanScheduler \<Rightarrow> RescanScheduler" where
  "rs_record_at subtree now s =
     (let s1 = (if rs_pending s = [] then s\<lparr>rs_first_at := Some now\<rparr> else s);
          s2 = s1\<lparr>rs_last_at := Some now\<rparr>
      in if under_any subtree (rs_pending s2) then s2
         else s2\<lparr>rs_pending :=
                filter (\<lambda>p. \<not> under_any p [subtree]) (rs_pending s2) @ [subtree]\<rparr>)"

definition rs_sorted_pending :: "RescanScheduler \<Rightarrow> string list" where
  "rs_sorted_pending s = sort (rs_pending s)"

definition due_at :: "nat \<Rightarrow> RescanScheduler \<Rightarrow> RescanScheduler \<times> string list option" where
  "due_at now s =
     (case (rs_first_at s, rs_last_at s) of
        (Some first_at, Some last_at) \<Rightarrow>
          if rs_pending s = [] then (s, None)
          else if (case rs_not_before s of None \<Rightarrow> False | Some nb \<Rightarrow> now < nb) then (s, None)
          else if \<not> rs_settle s \<le> now - last_at \<and> \<not> rs_max_delay s \<le> now - first_at then (s, None)
          else (s\<lparr>rs_first_at := None, rs_last_at := None, rs_pending := []\<rparr>,
                Some (sort (rs_pending s)))
      | _ \<Rightarrow> (s, None))"

definition ran_at :: "nat \<Rightarrow> nat \<Rightarrow> RescanScheduler \<Rightarrow> RescanScheduler" where
  "ran_at ended took s = s\<lparr>rs_not_before := Some (ended + took * rs_gap_factor s)\<rparr>"

section \<open>A scheduler driven by events\<close>

datatype rs_op = RsRecord string nat | RsDue nat | RsRan nat nat

definition rs_step :: "rs_op \<Rightarrow> RescanScheduler \<Rightarrow> RescanScheduler \<times> string list option" where
  "rs_step a s =
     (case a of RsRecord t now \<Rightarrow> (rs_record_at t now s, None)
      | RsDue now \<Rightarrow> due_at now s
      | RsRan ended took \<Rightarrow> (ran_at ended took s, None))"

text \<open>No pending subtree lies in another, and the first and last times are those of the pending ones.\<close>

definition antichain :: "string list \<Rightarrow> bool" where
  "antichain ss \<longleftrightarrow> (\<forall>a\<in>set ss. \<forall>b\<in>set ss. under_one a b \<longrightarrow> a = b) \<and> distinct ss"

definition rs_inv :: "RescanScheduler \<Rightarrow> bool" where
  "rs_inv s \<longleftrightarrow> antichain (rs_pending s) \<and>
     (rs_pending s \<noteq> [] \<longrightarrow> rs_first_at s \<noteq> None \<and> rs_last_at s \<noteq> None)"

lemma antichain_insert:
  assumes "antichain ss" and "\<not> under_any t ss"
  shows "antichain (filter (\<lambda>p. \<not> under_any p [t]) ss @ [t])"
  using assms by (auto simp: antichain_def under_any_iff)

lemma rs_inv_record: "rs_inv s \<Longrightarrow> rs_inv (rs_record_at t now s)"
  using antichain_insert [of "rs_pending s" t]
  by (auto simp: rs_inv_def rs_record_at_def Let_def)

lemma rs_inv_step: "rs_inv s \<Longrightarrow> rs_inv (fst (rs_step a s))"
  by (cases a)
    (auto simp: rs_step_def rs_inv_record, auto simp: rs_inv_def due_at_def ran_at_def antichain_def
      split: option.splits)

lemma rs_inv_run: "rs_inv s \<Longrightarrow> rs_inv (fst (run_ops rs_step as s))"
  by (induction as arbitrary: s) (auto simp: rs_inv_step)

lemma rs_inv_new: "rs_inv (with_timings a b c)"
  by (simp add: rs_inv_def with_timings_def antichain_def)

lemma record_covers:
  "under_any t (rs_pending (rs_record_at t now s))"
  "under_any u (rs_pending s) \<Longrightarrow> under_any u (rs_pending (rs_record_at t now s))"
proof -
  show "under_any t (rs_pending (rs_record_at t now s))"
    by (auto simp: rs_record_at_def Let_def under_any_iff)
  assume "under_any u (rs_pending s)"
  then obtain p where "p \<in> set (rs_pending s)" "under_one u p" by (auto simp: under_any_iff)
  moreover have "under_one p t \<Longrightarrow> under_one u t" using \<open>under_one u p\<close> under_one_trans by blast
  ultimately show "under_any u (rs_pending (rs_record_at t now s))"
    by (auto simp: rs_record_at_def Let_def under_any_iff)
qed

lemma record_subset: "set (rs_pending (rs_record_at t now s)) \<subseteq> insert t (set (rs_pending s))"
  by (auto simp: rs_record_at_def Let_def)

text \<open>What a trace says: the times of its rescans and the runs it reports.\<close>

definition rescans :: "rs_op list \<Rightarrow> (string \<times> nat) list" where
  "rescans as = concat (map (\<lambda>a. case a of RsRecord t now \<Rightarrow> [(t, now)] | _ \<Rightarrow> []) as)"

definition runs :: "rs_op list \<Rightarrow> (nat \<times> nat) list" where
  "runs as = concat (map (\<lambda>a. case a of RsRan ended took \<Rightarrow> [(ended, took)] | _ \<Rightarrow> []) as)"

lemma run_ops_append:
  "run_ops f (as @ bs) s =
     (fst (run_ops f bs (fst (run_ops f as s))),
      snd (run_ops f as s) @ snd (run_ops f bs (fst (run_ops f as s))))"
  by (induction as arbitrary: s) auto

lemma due_at_silent: "snd (due_at now s) = None \<Longrightarrow> fst (due_at now s) = s"
  by (auto simp: due_at_def split: option.splits if_splits)

definition tracks :: "RescanScheduler \<Rightarrow> (string \<times> nat) list \<Rightarrow> bool" where
  "tracks s rs \<longleftrightarrow>
     (\<forall>t\<in>fst ` set rs. under_any t (rs_pending s)) \<and> set (rs_pending s) \<subseteq> fst ` set rs \<and>
     (if rs = [] then rs_pending s = []
      else rs_pending s \<noteq> [] \<and> rs_first_at s = Some (snd (hd rs)) \<and> rs_last_at s = Some (snd (last rs)))"

lemma tracks_record:
  assumes "tracks s rs"
  shows "tracks (rs_record_at t now s) (rs @ [(t, now)])"
proof -
  have cov: "\<forall>u\<in>fst ` set (rs @ [(t, now)]). under_any u (rs_pending (rs_record_at t now s))"
    using assms record_covers(1) [where t = t and now = now and s = s] record_covers(2) [where t = t and now = now and s = s] by (auto simp: tracks_def)
  have sub: "set (rs_pending (rs_record_at t now s)) \<subseteq> fst ` set (rs @ [(t, now)])"
    using assms record_subset [of t now s] by (auto simp: tracks_def)
  have ne: "rs_pending (rs_record_at t now s) \<noteq> []"
    using cov by (auto simp: under_any_iff)
  have "rs_first_at (rs_record_at t now s) = Some (snd (hd (rs @ [(t, now)])))"
    using assms by (auto simp: tracks_def rs_record_at_def Let_def hd_append split: if_splits)
  moreover have "rs_last_at (rs_record_at t now s) = Some now"
    by (simp add: rs_record_at_def Let_def)
  ultimately show ?thesis using cov sub ne by (simp add: tracks_def)
qed

lemma tracks_run:
  assumes "tracks s rs" and "\<forall>r\<in>set (snd (run_ops rs_step as s)). r = None"
  shows "tracks (fst (run_ops rs_step as s)) (rs @ rescans as)"
  using assms
proof (induction as arbitrary: s rs)
  case (Cons a as)
  have "tracks (fst (rs_step a s)) (rs @ rescans [a])"
  proof (cases a)
    case (RsRecord t now)
    with tracks_record [OF Cons.prems(1)] show ?thesis by (simp add: rs_step_def rescans_def)
  next
    case (RsDue now)
    with Cons.prems(2) have "fst (due_at now s) = s" by (intro due_at_silent) (simp add: rs_step_def)
    with RsDue Cons.prems(1) show ?thesis by (simp add: rs_step_def rescans_def)
  next
    case (RsRan ended took)
    with Cons.prems(1) show ?thesis by (simp add: rs_step_def rescans_def ran_at_def tracks_def)
  qed
  from Cons.IH [OF this] Cons.prems(2) show ?case by (simp add: rescans_def)
qed (simp add: rescans_def)

lemma timings_run:
  "rs_settle (fst (run_ops rs_step as s)) = rs_settle s \<and>
   rs_max_delay (fst (run_ops rs_step as s)) = rs_max_delay s \<and>
   rs_gap_factor (fst (run_ops rs_step as s)) = rs_gap_factor s \<and>
   rs_not_before (fst (run_ops rs_step as s)) =
     (if runs as = [] then rs_not_before s
      else Some (fst (last (runs as)) + snd (last (runs as)) * rs_gap_factor s))"
proof (induction as arbitrary: s)
  case (Cons a as)
  have "rs_settle (fst (rs_step a s)) = rs_settle s" "rs_max_delay (fst (rs_step a s)) = rs_max_delay s"
    "rs_gap_factor (fst (rs_step a s)) = rs_gap_factor s"
    "rs_not_before (fst (rs_step a s)) =
       (if runs [a] = [] then rs_not_before s
        else Some (fst (last (runs [a])) + snd (last (runs [a])) * rs_gap_factor s))"
    by (cases a; auto simp: rs_step_def rs_record_at_def due_at_def ran_at_def runs_def Let_def
        split: option.splits)+
  moreover have "runs (a # as) = runs [a] @ runs as" by (simp add: runs_def)
  ultimately show ?case using Cons.IH [of "fst (rs_step a s)"] by simp
qed (simp add: runs_def)

text \<open>
  C31. No dropped subtree is forgotten: when the scheduler fires, what it returns covers every
  subtree recorded since it last fired (each lies in a returned one), returns only recorded
  subtrees, sorted, none inside another, and leaves nothing pending.
\<close>

theorem rescan_covers_recorded:
  assumes "rs_pending s = []" and "rs_inv s"
    and "\<forall>r\<in>set (snd (run_ops rs_step as s)). r = None"
    and "due_at now (fst (run_ops rs_step as s)) = (s', Some subtrees)"
  shows "(\<forall>t\<in>fst ` set (rescans as). under_any t subtrees) \<and>
    set subtrees \<subseteq> fst ` set (rescans as) \<and> sorted subtrees \<and> antichain subtrees \<and> rs_pending s' = []"
proof -
  let ?s = "fst (run_ops rs_step as s)"
  have "tracks s []" using assms(1) by (simp add: tracks_def)
  with tracks_run [OF this assms(3)] have tr: "tracks ?s (rescans as)" by simp
  have out: "subtrees = sort (rs_pending ?s)" "rs_pending s' = []"
    using assms(4) by (auto simp: due_at_def split: option.splits if_splits)
  have "antichain (rs_pending ?s)" using rs_inv_run [OF assms(2)] by (simp add: rs_inv_def)
  then have "antichain subtrees" by (simp add: out antichain_def)
  with tr out show ?thesis by (auto simp: tracks_def under_any_iff)
qed

text \<open>
  When it fires: after a silent stretch, a poll fires exactly when something was recorded,
  the gap of \<open>gap_factor\<close> times the last run's duration after that run has passed, and either
  no rescan arrived for \<open>settle\<close> or the oldest pending one is \<open>max_delay\<close> old. So a steady
  stream of rescans cannot put a reconcile off for ever.
\<close>

theorem rescan_fires_when_due:
  assumes "rs_pending s = []" and "s = fst (run_ops rs_step before (with_timings settle max_delay gap))"
    and "\<forall>r\<in>set (snd (run_ops rs_step as s)). r = None"
  shows "snd (due_at now (fst (run_ops rs_step as s))) \<noteq> None \<longleftrightarrow>
    rescans as \<noteq> [] \<and>
    (runs (before @ as) = [] \<or>
       fst (last (runs (before @ as))) + gap * snd (last (runs (before @ as))) \<le> now) \<and>
    (settle \<le> now - snd (last (rescans as)) \<or> max_delay \<le> now - snd (hd (rescans as)))"
proof -
  let ?s = "fst (run_ops rs_step as s)"
  have "tracks s []" using assms(1) by (simp add: tracks_def)
  with tracks_run [OF this assms(3)] have tr: "tracks ?s (rescans as)" by simp
  have eq: "?s = fst (run_ops rs_step (before @ as) (with_timings settle max_delay gap))"
    by (simp add: assms(2) run_ops_append)
  note T = timings_run [of "before @ as" "with_timings settle max_delay gap", folded eq]
  show ?thesis
  proof (cases "rescans as = []")
    case True
    with tr have "rs_pending ?s = []" by (simp add: tracks_def)
    with True show ?thesis by (simp add: due_at_def split: option.splits)
  next
    case False
    with tr T show ?thesis
      by (auto simp: tracks_def due_at_def with_timings_def mult.commute split: option.splits if_splits)
  qed
qed

section \<open>A concrete schedule\<close>

definition sample_rescans :: "rs_op list" where
  "sample_rescans = [RsRecord ''src/a'' 0, RsDue 10, RsRecord ''docs'' 20, RsRecord ''src'' 30]"

lemma sample_schedule:
  "\<forall>r\<in>set (snd (run_ops rs_step sample_rescans (with_timings 100 1000 3))). r = None"
  "snd (due_at 130 (fst (run_ops rs_step sample_rescans (with_timings 100 1000 3)))) = Some [''docs'', ''src'']"
  by code_simp+

theorem rescan_covers_recorded_witness:
  "snd (due_at 130 (fst (run_ops rs_step sample_rescans (with_timings 100 1000 3)))) = Some [''docs'', ''src''] \<and>
   under_any ''src/a'' [''docs'', ''src''] \<and> antichain [''docs'', ''src'']"
proof -
  obtain s' where d: "due_at 130 (fst (run_ops rs_step sample_rescans (with_timings 100 1000 3)))
      = (s', Some [''docs'', ''src''])"
    using sample_schedule(2) by (metis prod.collapse)
  have "rs_pending (with_timings 100 1000 3) = []" by (simp add: with_timings_def)
  from rescan_covers_recorded [OF this rs_inv_new sample_schedule(1) d] sample_schedule(2)
  show ?thesis by (simp add: sample_rescans_def rescans_def)
qed

theorem rescan_fires_when_due_witness:
  "snd (due_at 130 (fst (run_ops rs_step sample_rescans (with_timings 100 1000 3)))) \<noteq> None"
  using rescan_fires_when_due [of "with_timings 100 1000 3" "[]" 100 1000 3 sample_rescans 130]
    sample_schedule(1)
  by (simp add: with_timings_def sample_rescans_def rescans_def runs_def)

section \<open>Settled batches\<close>

datatype SettledKind = Deleted | Created | Modified

text \<open>The derived order of the enum: by position of the variant.\<close>

definition rank_SettledKind :: "SettledKind \<Rightarrow> nat" where
  "rank_SettledKind k = (case k of Deleted \<Rightarrow> 0 | Created \<Rightarrow> 1 | Modified \<Rightarrow> 2)"

instantiation SettledKind :: linorder
begin

definition less_eq_SettledKind :: "SettledKind \<Rightarrow> SettledKind \<Rightarrow> bool" where
  "less_eq_SettledKind a b \<longleftrightarrow> rank_SettledKind a \<le> rank_SettledKind b"

definition less_SettledKind :: "SettledKind \<Rightarrow> SettledKind \<Rightarrow> bool" where
  "less_SettledKind a b \<longleftrightarrow> rank_SettledKind a < rank_SettledKind b"

instance
  by standard
    (auto simp: less_eq_SettledKind_def less_SettledKind_def rank_SettledKind_def split: SettledKind.splits)

end

text \<open>
  Whether the path exists is the answer of the file system, and the baseline lookup may fail.
\<close>

definition classify_settled :: "bool \<Rightarrow> 'e + bool \<Rightarrow> SettledKind" where
  "classify_settled path_exists baseline =
     (if \<not> path_exists then Deleted
      else (case baseline of Inr False \<Rightarrow> Created | _ \<Rightarrow> Modified))"

record 'a RoutingOrder =
  ro_deleted :: "'a list"
  ro_created :: "'a list"
  ro_modified :: "'a list"

definition into_routed :: "'a RoutingOrder \<Rightarrow> 'a list" where
  "into_routed r = ro_deleted r @ ro_created r @ ro_modified r"

definition push_settled :: "SettledKind \<times> 'a \<Rightarrow> 'a RoutingOrder \<Rightarrow> 'a RoutingOrder" where
  "push_settled ki r =
     (case fst ki of
        Deleted \<Rightarrow> r\<lparr>ro_deleted := ro_deleted r @ [snd ki]\<rparr>
      | Created \<Rightarrow> r\<lparr>ro_created := ro_created r @ [snd ki]\<rparr>
      | Modified \<Rightarrow> r\<lparr>ro_modified := ro_modified r @ [snd ki]\<rparr>)"

definition order_for_routing :: "(SettledKind \<times> 'a) list \<Rightarrow> 'a RoutingOrder" where
  "order_for_routing batch =
     fold push_settled batch \<lparr>ro_deleted = [], ro_created = [], ro_modified = []\<rparr>"

lemma push_settled_fold:
  "fold push_settled batch r =
     \<lparr>ro_deleted = ro_deleted r @ map snd (filter (\<lambda>x. fst x = Deleted) batch),
      ro_created = ro_created r @ map snd (filter (\<lambda>x. fst x = Created) batch),
      ro_modified = ro_modified r @ map snd (filter (\<lambda>x. fst x = Modified) batch)\<rparr>"
  by (induction batch arbitrary: r) (auto simp: push_settled_def split: SettledKind.splits)

lemma sorted_by_kind:
  "sorted (map fst xs) \<Longrightarrow>
     xs = filter (\<lambda>x. fst x = Deleted) xs @ filter (\<lambda>x. fst x = Created) xs @ filter (\<lambda>x. fst x = Modified) xs"
proof (induction xs)
  case (Cons x xs)
  have le: "a \<le> b \<longleftrightarrow> rank_SettledKind a \<le> rank_SettledKind b" for a b
    by (simp add: less_eq_SettledKind_def)
  have no: "k < fst x \<Longrightarrow> filter (\<lambda>y. fst y = k) xs = []" for k
    using Cons.prems by (auto simp: filter_empty_conv)
  have "Deleted < Created" "Created < Modified" "Deleted < Modified"
    by (simp_all add: less_SettledKind_def rank_SettledKind_def)
  with Cons no [of Deleted] no [of Created] show ?case by (cases "fst x") auto
qed simp

text \<open>
  The routed order of a settled batch is the stable sort of the batch by kind, deletes
  first, then creations, then modifications; nothing is lost and paths of one kind keep their
  order.
\<close>

lemma routed_order_is_stable_sort:
  "into_routed (order_for_routing batch) = map snd (sort_key fst batch)"
proof -
  have "sort_key fst batch = filter (\<lambda>x. fst x = Deleted) batch @ filter (\<lambda>x. fst x = Created) batch @
      filter (\<lambda>x. fst x = Modified) batch"
    using sorted_by_kind [of "sort_key fst batch"] by (simp add: sort_key_stable)
  then show ?thesis
    by (simp add: into_routed_def order_for_routing_def push_settled_fold)
qed

end
