(* ===== verification/Staleness.thy ===== *)
theory Staleness
  imports Rescan
begin

text \<open>
  \<^verbatim>\<open>core/src/watcher/staleness.rs\<close>: whether a file changed since it was indexed (modification time
  first, content hash as the fallback), and the baselines a bulk walk records. What the file
  system answers is an argument: the metadata of a \<^verbatim>\<open>stat\<close>, if any, and the bytes of a read, if
  any. A \<^verbatim>\<open>Metadata\<close> without a usable modification time (unsupported, or before the epoch) has
  \<open>None\<close>. Times are milliseconds since the epoch.
\<close>

record Metadata =
  md_is_file :: bool
  md_mtime :: "int option"
  md_len :: nat

datatype staleness_error = StatFailed | MtimeFailed | HashFailed

datatype Decision =
    AlreadyFresh
  | ContentUnchanged (d_mtime: int) (d_hash: string)
  | NeedsReindex (d_mtime: int) (d_hash: string) (d_had_prior: bool)

definition hash_bytes :: "digest \<Rightarrow> string \<Rightarrow> string" where
  "hash_bytes sha bytes = concat (map hex_byte (sha bytes))"

definition lookup_indexed_file :: "store \<Rightarrow> string \<Rightarrow> IndexedFileRow option" where
  "lookup_indexed_file st path = select_by if_filePath path (indexed_files st)"

definition has_indexed_baseline :: "store \<Rightarrow> string \<Rightarrow> bool" where
  "has_indexed_baseline st path \<longleftrightarrow> lookup_indexed_file st path \<noteq> None"

definition mtime_millis :: "Metadata \<Rightarrow> staleness_error + int" where
  "mtime_millis md = (case md_mtime md of None \<Rightarrow> Inl MtimeFailed | Some m \<Rightarrow> Inr m)"

definition hash_file :: "digest \<Rightarrow> string option \<Rightarrow> staleness_error + string" where
  "hash_file sha content =
     (case content of None \<Rightarrow> Inl HashFailed | Some bytes \<Rightarrow> Inr (hash_bytes sha bytes))"

definition decide ::
  "digest \<Rightarrow> store \<Rightarrow> string \<Rightarrow> Metadata option \<Rightarrow> string option \<Rightarrow> staleness_error + Decision" where
  "decide sha st path stat content =
     (case stat of
        None \<Rightarrow> Inl StatFailed
      | Some md \<Rightarrow>
          (case mtime_millis md of
             Inl e \<Rightarrow> Inl e
           | Inr current_mtime \<Rightarrow>
               let prior = lookup_indexed_file st path
               in if (case prior of None \<Rightarrow> False | Some r \<Rightarrow> if_mtimeMillis r = current_mtime)
                  then Inr AlreadyFresh
                  else (case hash_file sha content of
                          Inl e \<Rightarrow> Inl e
                        | Inr current_hash \<Rightarrow>
                            if (case prior of None \<Rightarrow> False | Some r \<Rightarrow> if_contentHash r = current_hash)
                            then Inr (ContentUnchanged current_mtime current_hash)
                            else Inr (NeedsReindex current_mtime current_hash (prior \<noteq> None)))))"

definition is_stale ::
  "digest \<Rightarrow> store \<Rightarrow> string \<Rightarrow> Metadata option \<Rightarrow> string option \<Rightarrow> store \<times> (staleness_error + bool)" where
  "is_stale sha st path stat content =
     (case decide sha st path stat content of
        Inl e \<Rightarrow> (st, Inl e)
      | Inr AlreadyFresh \<Rightarrow> (st, Inr False)
      | Inr (ContentUnchanged mtime hash) \<Rightarrow> (upsert_indexed_file path mtime hash st, Inr False)
      | Inr (NeedsReindex _ _ _) \<Rightarrow> (st, Inr True))"

definition WALK_BASELINE_MTIME_MARGIN :: int where
  "WALK_BASELINE_MTIME_MARGIN = 2000"

text \<open>The three looks at the file: a stat, a read, and a stat again.\<close>

definition walk_baseline_for ::
  "digest \<Rightarrow> int \<Rightarrow> Metadata option \<Rightarrow> string option \<Rightarrow> Metadata option \<Rightarrow> (int \<times> string) option" where
  "walk_baseline_for sha cutoff_millis before content after =
     (case before of None \<Rightarrow> None
      | Some b \<Rightarrow>
          if \<not> md_is_file b then None
          else (case mtime_millis b of Inl _ \<Rightarrow> None
                | Inr mtime \<Rightarrow>
                    if cutoff_millis \<le> mtime then None
                    else (case hash_file sha content of Inl _ \<Rightarrow> None
                          | Inr hash \<Rightarrow>
                              (case after of None \<Rightarrow> None
                               | Some a \<Rightarrow>
                                   (case mtime_millis a of Inl _ \<Rightarrow> None
                                    | Inr mtime' \<Rightarrow>
                                        if mtime' \<noteq> mtime \<or> md_len a \<noteq> md_len b then None
                                        else Some (mtime, hash))))))"

record WalkBaselines =
  recorded :: nat
  skipped :: nat

type_synonym looks = "string \<Rightarrow> Metadata option \<times> string option \<times> Metadata option"

definition walk_rows :: "digest \<Rightarrow> int \<Rightarrow> looks \<Rightarrow> string list \<Rightarrow> (string \<times> int \<times> string) list" where
  "walk_rows sha cutoff_millis look files =
     concat (map (\<lambda>f. case walk_baseline_for sha cutoff_millis (fst (look f)) (fst (snd (look f))) (snd (snd (look f))) of
                        None \<Rightarrow> [] | Some (mtime, hash) \<Rightarrow> [(f, mtime, hash)]) files)"

definition store_walk_baselines :: "(string \<times> int \<times> string) list \<Rightarrow> store \<Rightarrow> store" where
  "store_walk_baselines rows st =
     fold (\<lambda>(path, mtime, hash). upsert_indexed_file path mtime hash) rows st"

definition record_walk_baselines ::
  "digest \<Rightarrow> looks \<Rightarrow> string list \<Rightarrow> int \<Rightarrow> store \<Rightarrow> store \<times> WalkBaselines" where
  "record_walk_baselines sha look files walk_started st =
     (let cutoff = walk_started - WALK_BASELINE_MTIME_MARGIN
      in if cutoff < 0 then (st, \<lparr>recorded = 0, skipped = length files\<rparr>)
         else
           let rows = walk_rows sha cutoff look files
           in (store_walk_baselines rows st,
               \<lparr>recorded = length rows, skipped = length files - length rows\<rparr>))"

section \<open>Baselines are promises kept\<close>

lemma lookup_upsert:
  assumes "keyed if_filePath (indexed_files st)"
  shows "lookup_indexed_file (upsert_indexed_file path m h st) p =
    (if p = path then Some \<lparr>if_filePath = path, if_mtimeMillis = m, if_contentHash = h\<rparr>
     else lookup_indexed_file st p)"
    "keyed if_filePath (indexed_files (upsert_indexed_file path m h st))"
proof -
  show "keyed if_filePath (indexed_files (upsert_indexed_file path m h st))"
    using assms by (simp add: upsert_indexed_file_def file_table.keyed_upsert)
  show "lookup_indexed_file (upsert_indexed_file path m h st) p =
    (if p = path then Some \<lparr>if_filePath = path, if_mtimeMillis = m, if_contentHash = h\<rparr>
     else lookup_indexed_file st p)"
    using file_table.select_upsert [OF assms, of p "\<lparr>if_filePath = path, if_mtimeMillis = m, if_contentHash = h\<rparr>"]
    by (auto simp: lookup_indexed_file_def upsert_indexed_file_def merge_indexed_file_def split: option.splits)
qed

text \<open>The contents and modification time of one file over time.\<close>

record file_state =
  fs_mtime :: int
  fs_bytes :: string

definition stat_of :: "file_state \<Rightarrow> Metadata option" where
  "stat_of f = Some \<lparr>md_is_file = True, md_mtime = Some (fs_mtime f), md_len = length (fs_bytes f)\<rparr>"

text \<open>
  What the fast path trusts: a write stamps a modification time at most \<open>margin\<close> before it
  happens, so once the bytes changed after \<open>a\<close> the modification time is never before \<open>a - margin\<close>.
\<close>

definition honest_mtimes :: "int \<Rightarrow> (int \<Rightarrow> file_state) \<Rightarrow> bool" where
  "honest_mtimes margin h \<longleftrightarrow>
     (\<forall>a b c. a \<le> b \<and> b \<le> c \<and> fs_bytes (h a) \<noteq> fs_bytes (h b) \<longrightarrow> a - margin \<le> fs_mtime (h c))"

text \<open>
  C29. A baseline recorded after a bulk walk never claims content the walk did not see: if the
  plugin read the file at some moment after the walk started and the three looks came later in
  order, a row is only produced when its hash is the hash of the bytes the plugin read, even if
  the file was written between any of these moments.
\<close>

theorem walk_baseline_matches_indexed_bytes:
  assumes "honest_mtimes WALK_BASELINE_MTIME_MARGIN h"
    and "walk_started \<le> read" "read \<le> t1" "t1 \<le> t2" "t2 \<le> t3"
    and "walk_baseline_for sha (walk_started - WALK_BASELINE_MTIME_MARGIN) (stat_of (h t1))
           (Some (fs_bytes (h t2))) (stat_of (h t3)) = Some (mtime, hash)"
  shows "hash = hash_bytes sha (fs_bytes (h read)) \<and> mtime = fs_mtime (h t1)"
proof -
  have m: "fs_mtime (h t1) < walk_started - WALK_BASELINE_MTIME_MARGIN" "fs_mtime (h t3) = fs_mtime (h t1)"
    and out: "hash = hash_bytes sha (fs_bytes (h t2))" "mtime = fs_mtime (h t1)"
    using assms(6)
    by (auto simp: walk_baseline_for_def stat_of_def mtime_millis_def hash_file_def split: if_splits)
  have "fs_bytes (h read) = fs_bytes (h t1)"
  proof (rule ccontr)
    assume "fs_bytes (h read) \<noteq> fs_bytes (h t1)"
    with assms(1,3) have "read - WALK_BASELINE_MTIME_MARGIN \<le> fs_mtime (h t1)"
      unfolding honest_mtimes_def by blast
    with m(1) assms(2) show False by simp
  qed
  moreover have "fs_bytes (h t1) = fs_bytes (h t2)"
  proof (rule ccontr)
    assume "fs_bytes (h t1) \<noteq> fs_bytes (h t2)"
    with assms(1,4,5) have "t1 - WALK_BASELINE_MTIME_MARGIN \<le> fs_mtime (h t3)"
      unfolding honest_mtimes_def by blast
    with m assms(2,3) show False by simp
  qed
  ultimately show ?thesis using out by simp
qed

text \<open>
  The freshness decision. A file passes as fresh only if its recorded modification time is
  the current one or its recorded hash is that of its current bytes, and then the same question
  asked again is answered from the modification time alone, without reading the file, and
  changes nothing; a file with neither is stale and the index is not touched.
\<close>

theorem is_stale_decision:
  assumes "keyed if_filePath (indexed_files st)" and "md_mtime md = Some m"
    and "is_stale sha st path (Some md) (Some bytes) = (st', Inr stale)"
  shows "(stale \<longleftrightarrow> \<not> (\<exists>r. lookup_indexed_file st path = Some r \<and>
            (if_mtimeMillis r = m \<or> if_contentHash r = hash_bytes sha bytes))) \<and>
    (stale \<longrightarrow> st' = st) \<and>
    (\<not> stale \<longrightarrow> (\<forall>content. is_stale sha st' path (Some md) content = (st', Inr False)))"
proof (cases "lookup_indexed_file st path")
  case None
  with assms(2,3) show ?thesis by (auto simp: is_stale_def decide_def mtime_millis_def hash_file_def)
next
  case (Some r)
  consider (fresh) "if_mtimeMillis r = m"
    | (same) "if_mtimeMillis r \<noteq> m" "if_contentHash r = hash_bytes sha bytes"
    | (stale) "if_mtimeMillis r \<noteq> m" "if_contentHash r \<noteq> hash_bytes sha bytes" by blast
  then show ?thesis
  proof cases
    case same
    with Some assms(2,3) have "st' = upsert_indexed_file path m (hash_bytes sha bytes) st" "\<not> stale"
      by (auto simp: is_stale_def decide_def mtime_millis_def hash_file_def)
    with same Some assms(1,2) show ?thesis
      by (auto simp: is_stale_def decide_def mtime_millis_def lookup_upsert)
  qed (use Some assms(2,3) in \<open>auto simp: is_stale_def decide_def mtime_millis_def hash_file_def\<close>)
qed

text \<open>A file written at 0, indexed by a walk that started at 10000, and never touched again.\<close>

theorem walk_baseline_matches_indexed_bytes_witness:
  "walk_baseline_for rev (10000 - WALK_BASELINE_MTIME_MARGIN) (stat_of \<lparr>fs_mtime = 0, fs_bytes = ''x''\<rparr>)
      (Some ''x'') (stat_of \<lparr>fs_mtime = 0, fs_bytes = ''x''\<rparr>) = Some (0, hash_bytes rev ''x'') \<and>
   hash_bytes rev ''x'' = ''78''"
proof -
  let ?h = "\<lambda>_ :: int. \<lparr>fs_mtime = 0, fs_bytes = ''x''\<rparr>"
  have hon: "honest_mtimes WALK_BASELINE_MTIME_MARGIN ?h" by (simp add: honest_mtimes_def)
  have r: "walk_baseline_for rev (10000 - WALK_BASELINE_MTIME_MARGIN) (stat_of (?h 10002))
      (Some (fs_bytes (?h 10003))) (stat_of (?h 10004)) = Some (0, ''78'')" by code_simp
  have "''78'' = hash_bytes rev (fs_bytes (?h 10001)) \<and> (0::int) = fs_mtime (?h 10002)"
    by (rule walk_baseline_matches_indexed_bytes [where h = ?h and walk_started = 10000 and read = 10001 and ?t1.0 = 10002
        and ?t2.0 = 10003 and ?t3.0 = 10004]) (use hon r in simp_all)
  with r show ?thesis by simp
qed

theorem is_stale_decision_witness:
  "\<exists>st'. is_stale rev (upsert_indexed_file ''f'' 1 ''78'' empty_store) ''f''
      (Some \<lparr>md_is_file = True, md_mtime = Some 2, md_len = 1\<rparr>) (Some ''x'') = (st', Inr False) \<and>
    is_stale rev st' ''f'' (Some \<lparr>md_is_file = True, md_mtime = Some 2, md_len = 1\<rparr>) None = (st', Inr False)"
  (is "\<exists>st'. is_stale rev ?s ''f'' (Some ?md) (Some ''x'') = (st', _) \<and> _")
proof -
  have k: "keyed if_filePath (indexed_files ?s)" by code_simp
  have m: "md_mtime ?md = Some 2" by simp
  obtain st' res where r: "is_stale rev ?s ''f'' (Some ?md) (Some ''x'') = (st', res)" by fastforce
  have "snd (is_stale rev ?s ''f'' (Some ?md) (Some ''x'')) = Inr False" by code_simp
  with r have r': "is_stale rev ?s ''f'' (Some ?md) (Some ''x'') = (st', Inr False)" by simp
  from is_stale_decision [OF k m r'] r' show ?thesis by blast
qed

end
