(* ===== verification/Keyset.thy ===== *)
theory Keyset
  imports Store
begin

text \<open>
  Keyset pagination, stated once for the paginators of \<^verbatim>\<open>core/src/graph/pagination.rs\<close>: rows are
  ordered by a rank, a page holds the first rows after the cursor's rank, and the cursor of a
  page is the rank of its last row. A client that follows the cursors sees every row once.
\<close>

record 'a Page =
  results :: "'a list"
  has_more :: bool
  next_cursor :: "string option"
  all_unresolved :: bool

text \<open>The page every paginator cuts: one row more than the page size is read to know whether more is left.\<close>

definition cut_rows :: "nat \<Rightarrow> ('r \<Rightarrow> 'a) \<Rightarrow> ('r \<Rightarrow> string) \<Rightarrow> 'r list \<Rightarrow> 'a Page" where
  "cut_rows page_size item cursor_of rows =
     (let more_left = page_size < length rows; page = take page_size rows
      in \<lparr>results = map item page, has_more = more_left,
          next_cursor = (if more_left then Some (cursor_of (last page)) else None),
          all_unresolved = False\<rparr>)"

text \<open>
  A client following cursors from a given one, for at most \<open>fuel\<close> pages; \<open>None\<close> when a page is
  refused or the fuel ends.
\<close>

fun follow_pages :: "(string option \<Rightarrow> 'e + 'a Page) \<Rightarrow> nat \<Rightarrow> string option \<Rightarrow> 'a list option" where
  "follow_pages fetch 0 c = None"
| "follow_pages fetch (Suc n) c =
     (case fetch c of
        Inl _ \<Rightarrow> None
      | Inr p \<Rightarrow>
          if has_more p then map_option (\<lambda>rest. results p @ rest) (follow_pages fetch n (next_cursor p))
          else Some (results p))"

lemma filter_after_sorted:
  fixes f :: "'a \<Rightarrow> 'k::linorder"
  assumes "sorted_wrt (<) (map f xs)" and "0 < m" and "m \<le> length xs"
  shows "filter (\<lambda>x. f (last (take m xs)) < f x) xs = drop m xs"
proof -
  have last: "last (take m xs) = xs ! (m - 1)"
    using assms(2,3) by (subst last_conv_nth) auto
  have lt: "i < j \<Longrightarrow> j < length xs \<Longrightarrow> f (xs ! i) < f (xs ! j)" for i j
    using assms(1) by (simp add: sorted_wrt_iff_nth_less)
  have "filter (\<lambda>x. f (xs ! (m - 1)) < f x) (take m xs) = []"
  proof (rule filter_False, rule ballI)
    fix x
    assume "x \<in> set (take m xs)"
    then obtain i where "i < m" "x = xs ! i" using assms(3) by (auto simp: in_set_conv_nth)
    then show "\<not> f (xs ! (m - 1)) < f x"
      using lt [of i "m - 1"] assms(2,3) by (cases "i < m - 1") (auto simp: not_less le_less)
  qed
  moreover have "filter (\<lambda>x. f (xs ! (m - 1)) < f x) (drop m xs) = drop m xs"
    using lt [of "m - 1"] assms(2,3) by (auto simp: filter_id_conv in_set_conv_nth)
  ultimately show ?thesis
    unfolding last by (metis append_Nil append_take_drop_id filter_append)
qed

locale keyset =
  fixes rank :: "'src \<Rightarrow> 'r \<Rightarrow> 'k::linorder"
    and rows :: "'src \<Rightarrow> 'r list"
    and enc :: "'k \<Rightarrow> string"
    and dec :: "string \<Rightarrow> 'k option"
    and ok :: "'src \<Rightarrow> bool"
  assumes distinct_ranks: "ok s \<Longrightarrow> distinct (map (rank s) (rows s))"
    and dec_enc: "ok s \<Longrightarrow> r \<in> set (rows s) \<Longrightarrow> dec (enc (rank s r)) = Some (rank s r)"
begin

definition ordered :: "'src \<Rightarrow> 'r list" where
  "ordered s = sort_key (rank s) (rows s)"

definition after :: "'src \<Rightarrow> 'k option \<Rightarrow> 'r list" where
  "after s pos = filter (\<lambda>r. case pos of None \<Rightarrow> True | Some k \<Rightarrow> k < rank s r) (ordered s)"

text \<open>A page at a position: a non-empty stretch of what is left, and the cursor of its last row if more is left.\<close>

definition page_at :: "'src \<Rightarrow> ('r \<Rightarrow> 'a) \<Rightarrow> 'k option \<Rightarrow> 'a Page \<Rightarrow> bool" where
  "page_at s item pos p \<longleftrightarrow>
     (\<exists>m. results p = map item (take m (after s pos)) \<and> (after s pos \<noteq> [] \<longrightarrow> 0 < m) \<and>
        (has_more p \<longleftrightarrow> m < length (after s pos)) \<and>
        (has_more p \<longrightarrow> next_cursor p = Some (enc (rank s (last (take m (after s pos)))))))"

lemma set_ordered [simp]: "set (ordered s) = set (rows s)"
  by (simp add: ordered_def)

lemma ordered_strict: "ok s \<Longrightarrow> sorted_wrt (<) (map (rank s) (ordered s))"
  using distinct_ranks [of s] by (simp add: ordered_def strict_sorted_iff distinct_map)

lemma after_None [simp]: "after s None = ordered s"
  by (simp add: after_def)

lemma after_strict: "ok s \<Longrightarrow> sorted_wrt (<) (map (rank s) (after s pos))"
  using ordered_strict [of s] unfolding after_def
  by (simp add: sorted_wrt_map sorted_wrt_filter)

lemma after_next:
  assumes "ok s" and "0 < m" and "m \<le> length (after s pos)"
  shows "after s (Some (rank s (last (take m (after s pos))))) = drop m (after s pos)"
proof -
  let ?k = "rank s (last (take m (after s pos)))"
  have "last (take m (after s pos)) \<in> set (after s pos)"
    using assms(2,3) by (metis in_set_takeD last_in_set length_greater_0_conv less_le_trans take_eq_Nil
        list.size(3) not_less_zero zero_less_iff_neq_zero)
  then have "case pos of None \<Rightarrow> True | Some k \<Rightarrow> k < ?k" unfolding after_def set_filter by blast
  then have "after s (Some ?k) = filter (\<lambda>r. ?k < rank s r) (after s pos)"
    by (auto simp: after_def intro!: filter_cong split: option.splits)
  then show ?thesis using filter_after_sorted [OF after_strict [OF assms(1)] assms(2,3)] by simp
qed

lemma follow_from:
  assumes "ok s"
    and fetch: "\<And>c pos. (c = None \<and> pos = None) \<or> (\<exists>r\<in>set (rows s). c = Some (enc (rank s r)) \<and> pos = Some (rank s r))
      \<Longrightarrow> \<exists>p. fetch c = Inr p \<and> page_at s item pos p"
    and "(c = None \<and> pos = None) \<or> (\<exists>r\<in>set (rows s). c = Some (enc (rank s r)) \<and> pos = Some (rank s r))"
    and "length (after s pos) < fuel"
  shows "follow_pages fetch fuel c = Some (map item (after s pos))"
  using assms(3,4)
proof (induction fuel arbitrary: c pos)
  case (Suc fuel)
  obtain p where p: "fetch c = Inr p" "page_at s item pos p" using fetch [OF Suc.prems(1)] by blast
  then obtain m where m: "results p = map item (take m (after s pos))" "after s pos \<noteq> [] \<longrightarrow> 0 < m"
    "has_more p \<longleftrightarrow> m < length (after s pos)"
    "has_more p \<longrightarrow> next_cursor p = Some (enc (rank s (last (take m (after s pos)))))"
    by (auto simp: page_at_def)
  show ?case
  proof (cases "has_more p")
    case False
    with p m show ?thesis by simp
  next
    case True
    with m have lt: "m < length (after s pos)" and pos: "0 < m" by auto
    let ?r = "last (take m (after s pos))"
    have "?r \<in> set (after s pos)"
      using lt pos by (metis in_set_takeD last_in_set length_take less_numeral_extra(3) list.size(3) min.absorb4)
    then have r: "?r \<in> set (rows s)" by (auto simp: after_def ordered_def)
    have rest: "after s (Some (rank s ?r)) = drop m (after s pos)"
      using after_next [OF assms(1) pos] lt by simp
    have "follow_pages fetch fuel (next_cursor p) = Some (map item (after s (Some (rank s ?r))))"
      using m(4) True r lt pos Suc.prems(2) by (intro Suc.IH) (auto simp: rest)
    with p m(1) True rest show ?thesis by (simp flip: map_append)
  qed
qed simp

theorem follow_all:
  assumes "ok s"
    and "\<And>c pos. (c = None \<and> pos = None) \<or> (\<exists>r\<in>set (rows s). c = Some (enc (rank s r)) \<and> pos = Some (rank s r))
      \<Longrightarrow> \<exists>p. fetch c = Inr p \<and> page_at s item pos p"
    and "length (rows s) < fuel"
  shows "follow_pages fetch fuel None = Some (map item (ordered s))"
  using follow_from [where c = None and pos = None and s = s and fuel = fuel and fetch = fetch and item = item]
    assms by (simp add: ordered_def)

lemma limit_page:
  assumes "0 < page_size"
  shows "page_at s item pos (cut_rows page_size item (\<lambda>r. enc (rank s r)) (take (page_size + 1) (after s pos)))"
  unfolding page_at_def cut_rows_def Let_def
  using assms by (intro exI [of _ page_size]) (auto simp: min_def)

end

end
