(* ===== verification/Response_Bound.thy ===== *)
theory Response_Bound
  imports Keyset
begin

text \<open>
  The byte budget of a response in \<^verbatim>\<open>core/src/graph/pagination.rs\<close>: the binary search for the
  longest prefix that fits, the loop that finds the budget under which the whole response fits,
  and the cuts built on them. The length of the JSON text of a list is the argument \<open>wl\<close> (serde_json).
\<close>

definition DEFAULT_PAGE_SIZE :: nat where "DEFAULT_PAGE_SIZE = 20"
definition MAX_PAGE_SIZE :: nat where "MAX_PAGE_SIZE = 200"
definition MAX_RESPONSE_BYTES :: nat where "MAX_RESPONSE_BYTES = 20000"
definition USIZE_MAX :: nat where "USIZE_MAX = 2 ^ 64 - 1"

definition resolve_page_size :: "nat option \<Rightarrow> nat" where
  "resolve_page_size limit =
     max 1 (min MAX_PAGE_SIZE (case limit of None \<Rightarrow> DEFAULT_PAGE_SIZE | Some l \<Rightarrow> l))"

lemma resolve_page_size_bounds: "1 \<le> resolve_page_size l" "resolve_page_size l \<le> MAX_PAGE_SIZE"
  by (simp_all add: resolve_page_size_def MAX_PAGE_SIZE_def)

section \<open>The longest prefix that fits\<close>

function fitting_loop :: "(nat \<Rightarrow> bool) \<Rightarrow> nat \<Rightarrow> nat \<Rightarrow> nat" where
  "fitting_loop fits lo hi =
     (if lo < hi
      then let mid = lo + (hi - lo + 1) div 2
           in if fits mid then fitting_loop fits mid hi else fitting_loop fits lo (mid - 1)
      else lo)"
  by pat_completeness auto
termination
  by (relation "measure (\<lambda>(_, lo, hi). hi - lo)") auto

declare fitting_loop.simps [simp del]

definition longest_prefix_fitting :: "('a list \<Rightarrow> nat) \<Rightarrow> 'a list \<Rightarrow> nat \<Rightarrow> nat option" where
  "longest_prefix_fitting wl items budget =
     (let fits = (\<lambda>n. wl (take n items) \<le> budget)
      in if fits (length items) then None else Some (fitting_loop fits 1 (length items)))"

text \<open>
  What the text of a JSON array promises: with more elements it is longer. Sizes stay below the
  largest \<^verbatim>\<open>usize\<close>, which stands for a failed serialisation.
\<close>

definition json_len :: "('a list \<Rightarrow> nat) \<Rightarrow> 'a list \<Rightarrow> bool" where
  "json_len wl items \<longleftrightarrow>
     (\<forall>m n. m < n \<and> n \<le> length items \<longrightarrow> wl (take m items) < wl (take n items)) \<and> wl items < USIZE_MAX"

lemma json_len_mono:
  assumes "json_len wl items" and "m \<le> n"
  shows "wl (take m items) \<le> wl (take n items)"
proof (cases "n \<le> length items")
  case True
  with assms show ?thesis by (cases "m = n") (auto simp: json_len_def le_less)
next
  case False
  have "m < length items \<Longrightarrow> wl (take m items) < wl (take (length items) items)"
    using assms(1) unfolding json_len_def by blast
  with False show ?thesis by (cases "m < length items") (auto simp: not_less)
qed

lemma json_len_max: "json_len wl items \<Longrightarrow> wl (take n items) < USIZE_MAX"
  using json_len_mono [of wl items n "length items"] json_len_mono [of wl items "length items" n]
  by (cases "n \<le> length items") (auto simp: json_len_def)

lemma fitting_loop_spec:
  assumes "lo \<le> hi" and "\<forall>m n. m \<le> n \<longrightarrow> fits n \<longrightarrow> fits m"
  shows "lo \<le> fitting_loop fits lo hi \<and> fitting_loop fits lo hi \<le> hi \<and>
    (fitting_loop fits lo hi = lo \<or> fits (fitting_loop fits lo hi)) \<and>
    (\<forall>n. fitting_loop fits lo hi < n \<and> n \<le> hi \<longrightarrow> \<not> fits n)"
  using assms
proof (induction fits lo hi rule: fitting_loop.induct)
  case (1 fits lo hi)
  show ?case
  proof (cases "lo < hi")
    case True
    define mid where "mid = lo + (hi - lo + 1) div 2"
    have mid: "lo < mid" "mid \<le> hi" using True by (auto simp: mid_def)
    have step: "fitting_loop fits lo hi = (if fits mid then fitting_loop fits mid hi else fitting_loop fits lo (mid - 1))"
      using True by (subst fitting_loop.simps) (simp add: mid_def Let_def)
    show ?thesis
    proof (cases "fits mid")
      case fit: True
      from "1.IH"(1) [OF True mid_def fit mid(2) "1.prems"(2)] fit mid show ?thesis
        unfolding step by auto
    next
      case nofit: False
      have no: "\<not> fits n" if "mid \<le> n" for n using that nofit "1.prems"(2) by blast
      have "lo \<le> mid - 1" using mid by simp
      from "1.IH"(2) [OF True mid_def nofit this "1.prems"(2)]
      have IH: "lo \<le> fitting_loop fits lo (mid - 1)" "fitting_loop fits lo (mid - 1) \<le> mid - 1"
        "fitting_loop fits lo (mid - 1) = lo \<or> fits (fitting_loop fits lo (mid - 1))"
        "\<And>n. fitting_loop fits lo (mid - 1) < n \<Longrightarrow> n \<le> mid - 1 \<Longrightarrow> \<not> fits n" by blast+
      have "\<not> fits n" if "fitting_loop fits lo (mid - 1) < n" for n
        using IH(4) [OF that] no [of n] by (cases "n \<le> mid - 1") auto
      with IH(1-3) mid nofit show ?thesis unfolding step by simp
    qed
  next
    case False
    with "1.prems"(1) have "lo = hi" by simp
    moreover have "fitting_loop fits hi hi = hi" by (subst fitting_loop.simps) simp
    ultimately show ?thesis by auto
  qed
qed

lemma longest_prefix_fitting_spec:
  assumes "json_len wl items" and "items \<noteq> []"
  shows "case longest_prefix_fitting wl items budget of
      None \<Rightarrow> wl items \<le> budget
    | Some k \<Rightarrow> budget < wl items \<and> 1 \<le> k \<and> k \<le> length items \<and>
        (wl (take k items) \<le> budget \<or> k = 1) \<and>
        (\<forall>n. k < n \<and> n \<le> length items \<longrightarrow> budget < wl (take n items))"
proof (cases "wl items \<le> budget")
  case False
  let ?fits = "\<lambda>n. wl (take n items) \<le> budget"
  have "1 \<le> length items" using assms(2) by (simp add: Suc_le_eq)
  moreover have "\<forall>m n. m \<le> n \<longrightarrow> ?fits n \<longrightarrow> ?fits m"
    using json_len_mono [OF assms(1)] le_trans by blast
  ultimately have spec: "1 \<le> fitting_loop ?fits 1 (length items) \<and>
      fitting_loop ?fits 1 (length items) \<le> length items \<and>
      (fitting_loop ?fits 1 (length items) = 1 \<or> ?fits (fitting_loop ?fits 1 (length items))) \<and>
      (\<forall>n. fitting_loop ?fits 1 (length items) < n \<and> n \<le> length items \<longrightarrow> \<not> ?fits n)"
    by (rule fitting_loop_spec)
  have res: "longest_prefix_fitting wl items budget = Some (fitting_loop ?fits 1 (length items))"
    using False by (simp add: longest_prefix_fitting_def)
  show ?thesis unfolding res option.case using spec False by (meson not_le)
qed (simp add: longest_prefix_fitting_def)

section \<open>The budget under which a whole response fits\<close>

text \<open>A measuring closure may panic (\<open>None\<close>), and the panic leaves the loop.\<close>

function fit_loop :: "nat \<Rightarrow> (nat \<Rightarrow> (nat \<times> nat) option) \<Rightarrow> nat \<Rightarrow> nat \<Rightarrow> nat option" where
  "fit_loop ceiling measured budget last_part =
     (case measured budget of
        None \<Rightarrow> None
      | Some (part, whole) \<Rightarrow>
          if whole \<le> ceiling \<or> last_part \<le> part \<or> budget = 0 then Some budget
          else fit_loop ceiling measured (min budget part - (whole - ceiling)) part)"
  by pat_completeness auto
termination
  by (relation "measure (\<lambda>(_, _, _, last_part). last_part)") auto

declare fit_loop.simps [simp del]

definition fit_budget_within :: "nat \<Rightarrow> (nat \<Rightarrow> (nat \<times> nat) option) \<Rightarrow> nat option" where
  "fit_budget_within ceiling measured = fit_loop ceiling measured ceiling USIZE_MAX"

definition fit_budget :: "(nat \<Rightarrow> (nat \<times> nat) option) \<Rightarrow> nat option" where
  "fit_budget measured = fit_budget_within MAX_RESPONSE_BYTES measured"

text \<open>
  A part cut to a budget is within the budget or cannot be cut further (\<open>least\<close>). Whatever the
  envelope adds to the part, the loop ends with a response that fits or with the least part.
\<close>

lemma fit_loop_fits:
  assumes "\<forall>b. p b \<le> b \<or> p b = least" and "\<forall>b. least \<le> p b"
    and "p budget < last_part \<or> p budget = least" and "m = (\<lambda>b. Some (p b, w b))"
  shows "\<exists>b\<le>budget. fit_loop ceiling m budget last_part = Some b \<and> (w b \<le> ceiling \<or> p b = least)"
  using assms
proof (induction ceiling m budget last_part rule: fit_loop.induct)
  case (1 ceiling m budget last_part)
  have m: "m budget = Some (p budget, w budget)" using "1.prems"(4) by simp
  show ?case
  proof (cases "w budget \<le> ceiling \<or> last_part \<le> p budget \<or> budget = 0")
    case True
    then have eq: "fit_loop ceiling m budget last_part = Some budget"
      using m by (subst fit_loop.simps) simp
    have "p 0 = least" using "1.prems"(1,2) by (metis le_zero_eq)
    with True "1.prems"(3) have "w budget \<le> ceiling \<or> p budget = least" by auto
    with eq show ?thesis by blast
  next
    case False
    let ?b = "min budget (p budget) - (w budget - ceiling)"
    have eq: "fit_loop ceiling m budget last_part = fit_loop ceiling m ?b (p budget)"
      using m False by (subst fit_loop.simps) simp
    have "p ?b < p budget \<or> p ?b = least"
    proof (cases "p ?b = least")
      case False': False
      then have le: "p ?b \<le> ?b" using "1.prems"(1) by blast
      have "p budget \<noteq> 0"
      proof
        assume "p budget = 0"
        with le False' "1.prems"(2) show False by (metis diff_0_eq_0 le_zero_eq min_0R)
      qed
      with le False show ?thesis by auto
    qed simp
    from "1.IH" [OF m refl False "1.prems"(1,2) this "1.prems"(4)] obtain b
      where b: "b \<le> ?b" "fit_loop ceiling m ?b (p budget) = Some b" "w b \<le> ceiling \<or> p b = least" by blast
    from b(1) have "b \<le> budget" by simp
    with b(2,3) show ?thesis unfolding eq by blast
  qed
qed

text \<open>Used on cuts of a list that keep at least one element: the response fits or one element is left.\<close>

lemma fit_cuts:
  assumes "json_len wl items"
    and k: "\<And>b. 1 \<le> k b \<and> k b \<le> length items \<and> (wl (take (k b) items) \<le> b \<or> k b = 1)"
  shows "\<exists>b. fit_budget_within ceiling (\<lambda>b. Some (wl (take (k b) items), w b)) = Some b \<and>
    (w b \<le> ceiling \<or> k b = 1)"
proof -
  let ?p = "\<lambda>b. wl (take (k b) items)"
  let ?least = "wl (take 1 items)"
  have "\<forall>b. ?p b \<le> b \<or> ?p b = ?least" using k by metis
  moreover have "\<forall>b. ?least \<le> ?p b" using k json_len_mono [OF assms(1)] by blast
  moreover have "?p ceiling < USIZE_MAX" by (rule json_len_max [OF assms(1)])
  ultimately obtain b where b: "fit_budget_within ceiling (\<lambda>b. Some (?p b, w b)) = Some b"
    "w b \<le> ceiling \<or> ?p b = ?least"
    using fit_loop_fits [of ?p ?least ceiling USIZE_MAX "\<lambda>b. Some (?p b, w b)" w ceiling]
    unfolding fit_budget_within_def by blast
  have "k b = 1" if "?p b = ?least"
  proof (rule ccontr)
    assume "k b \<noteq> 1"
    with k [of b] assms(1) have "?least < ?p b" unfolding json_len_def by auto
    with that show False by simp
  qed
  with b show ?thesis by blast
qed

section \<open>Cutting a page\<close>

record EdgeRank =
  er_resolved :: bool
  er_locality :: int
  er_file_row :: int
  er_file_path :: string
  er_start_line :: int
  er_id :: string

text \<open>\<^verbatim>\<open>EdgeRow\<close> of the source: a rendered row with its rank.\<close>

record 'a RankedRow =
  rr_item :: 'a
  rr_rank :: EdgeRank

definition bound_page_within ::
  "('a list \<Rightarrow> nat) \<Rightarrow> (EdgeRank \<Rightarrow> string) \<Rightarrow> 'a RankedRow list \<Rightarrow> bool \<Rightarrow> string option \<Rightarrow> nat \<Rightarrow> 'a Page" where
  "bound_page_within wl enc rows incomplete next budget =
     (if rows = [] then \<lparr>results = [], has_more = incomplete, next_cursor = next, all_unresolved = False\<rparr>
      else (case longest_prefix_fitting wl (map rr_item rows) budget of
              None \<Rightarrow> \<lparr>results = map rr_item rows, has_more = incomplete, next_cursor = next,
                       all_unresolved = list_all (\<lambda>r. \<not> er_resolved (rr_rank r)) rows\<rparr>
            | Some k \<Rightarrow> \<lparr>results = map rr_item (take k rows), has_more = True,
                           next_cursor = Some (enc (rr_rank (rows ! (k - 1)))),
                           all_unresolved = list_all (\<lambda>r. \<not> er_resolved (rr_rank r)) (take k rows)\<rparr>))"

definition bound_page ::
  "('a list \<Rightarrow> nat) \<Rightarrow> (EdgeRank \<Rightarrow> string) \<Rightarrow> 'a RankedRow list \<Rightarrow> bool \<Rightarrow> string option \<Rightarrow> 'a Page" where
  "bound_page wl enc rows incomplete next = bound_page_within wl enc rows incomplete next MAX_RESPONSE_BYTES"

definition bound_page_in_response ::
  "('a list \<Rightarrow> nat) \<Rightarrow> (EdgeRank \<Rightarrow> string) \<Rightarrow> 'a RankedRow list \<Rightarrow> bool \<Rightarrow> string option
    \<Rightarrow> ('a Page \<Rightarrow> nat) \<Rightarrow> 'a Page option" where
  "bound_page_in_response wl enc rows incomplete next response_len =
     (case fit_budget (\<lambda>b. let page = bound_page_within wl enc rows incomplete next b
                           in Some (wl (results page), response_len page)) of
        None \<Rightarrow> None
      | Some budget \<Rightarrow> Some (bound_page_within wl enc rows incomplete next budget))"

text \<open>\<open>None\<close> is the panic of the slice, when nothing fits and there is nothing to keep.\<close>

definition truncate_to_bytes :: "('a list \<Rightarrow> nat) \<Rightarrow> 'a list \<Rightarrow> nat \<Rightarrow> ('a list \<times> bool) option" where
  "truncate_to_bytes wl items max_bytes =
     (case longest_prefix_fitting wl items max_bytes of
        None \<Rightarrow> Some (items, False)
      | Some keep \<Rightarrow>
          if length items < keep then None
          else Some (take (if max_bytes < wl (take keep items) then 0 else keep) items, True))"

lemma bound_page_within_cut:
  assumes "json_len wl (map rr_item rows)" and "rows \<noteq> []"
  obtains k where "1 \<le> k" "k \<le> length rows"
    "results (bound_page_within wl enc rows incomplete next b) = map rr_item (take k rows)"
    "wl (map rr_item (take k rows)) \<le> b \<or> k = 1"
    "has_more (bound_page_within wl enc rows incomplete next b) \<longleftrightarrow> k < length rows \<or> b < wl (map rr_item rows) \<or> incomplete"
    "k < length rows \<or> b < wl (map rr_item rows) \<Longrightarrow>
      next_cursor (bound_page_within wl enc rows incomplete next b) = Some (enc (rr_rank (last (take k rows))))"
    "\<not> (k < length rows \<or> b < wl (map rr_item rows)) \<Longrightarrow>
      next_cursor (bound_page_within wl enc rows incomplete next b) = next"
proof -
  note S = longest_prefix_fitting_spec [OF assms(1), of b]
  show ?thesis
  proof (cases "longest_prefix_fitting wl (map rr_item rows) b")
    case None
    with S assms(2) that [of "length rows"] show ?thesis
      by (auto simp: bound_page_within_def Suc_le_eq)
  next
    case (Some k)
    with S assms(2) have k: "b < wl (map rr_item rows)" "1 \<le> k" "k \<le> length rows"
      "wl (map rr_item (take k rows)) \<le> b \<or> k = 1" by (auto simp: take_map)
    moreover have "rows ! (k - 1) = last (take k rows)"
      using k(2,3) by (subst last_conv_nth) auto
    ultimately show ?thesis using Some assms(2) that [of k] by (auto simp: bound_page_within_def)
  qed
qed

text \<open>
  C27. Whatever the envelope costs, bounding a page inside its response ends without a panic, keeps
  a non-empty prefix of the rows, and the response fits \<^verbatim>\<open>MAX_RESPONSE_BYTES\<close> unless the page is
  down to a single row; a page that was cut says there is more and resumes right after its last
  row.
\<close>

theorem bounded_response_fits:
  assumes "json_len wl (map rr_item rows)" and "rows \<noteq> []"
  shows "\<exists>page k. bound_page_in_response wl enc rows incomplete next response_len = Some page \<and>
    1 \<le> k \<and> k \<le> length rows \<and> results page = map rr_item (take k rows) \<and>
    (response_len page \<le> MAX_RESPONSE_BYTES \<or> k = 1) \<and>
    (k < length rows \<longrightarrow> has_more page \<and> next_cursor page = Some (enc (rr_rank (last (take k rows)))))"
proof -
  let ?page = "\<lambda>b. bound_page_within wl enc rows incomplete next b"
  have "\<exists>k. 1 \<le> k \<and> k \<le> length rows \<and> results (?page b) = map rr_item (take k rows) \<and>
      (wl (map rr_item (take k rows)) \<le> b \<or> k = 1) \<and>
      (k < length rows \<longrightarrow> has_more (?page b) \<and> next_cursor (?page b) = Some (enc (rr_rank (last (take k rows)))))" for b
    by (rule bound_page_within_cut [OF assms(1,2), of enc incomplete "next" b]) blast
  then obtain k where k: "\<And>b. 1 \<le> k b \<and> k b \<le> length rows \<and> (wl (map rr_item (take (k b) rows)) \<le> b \<or> k b = 1)"
    and res: "\<And>b. results (?page b) = map rr_item (take (k b) rows)"
    and cur: "\<And>b. k b < length rows \<longrightarrow>
      has_more (?page b) \<and> next_cursor (?page b) = Some (enc (rr_rank (last (take (k b) rows))))" by metis
  obtain b where b: "fit_budget (\<lambda>b. Some (wl (take (k b) (map rr_item rows)), response_len (?page b))) = Some b"
    "response_len (?page b) \<le> MAX_RESPONSE_BYTES \<or> k b = 1"
    using fit_cuts [OF assms(1), of k MAX_RESPONSE_BYTES "\<lambda>b. response_len (?page b)"] k
    unfolding fit_budget_def by (auto simp: take_map)
  then have "bound_page_in_response wl enc rows incomplete next response_len = Some (?page b)"
    by (simp add: bound_page_in_response_def Let_def res take_map)
  with b(2) k res cur show ?thesis by blast
qed

text \<open>Three rows of ten bytes each with an envelope that leaves room for two.\<close>

definition sample_rank :: "string \<Rightarrow> EdgeRank" where
  "sample_rank i = \<lparr>er_resolved = True, er_locality = 0, er_file_row = 0, er_file_path = ''f'',
     er_start_line = 1, er_id = i\<rparr>"

definition sample_rows :: "nat RankedRow list" where
  "sample_rows = map (\<lambda>i. \<lparr>rr_item = i, rr_rank = sample_rank [char_of i]\<rparr>) [1, 2, 3]"

lemma sample_json_len: "json_len (\<lambda>xs. 2 + 10 * length xs) (map rr_item sample_rows)"
  by (simp add: json_len_def sample_rows_def USIZE_MAX_def)

theorem bounded_response_fits_witness:
  "\<exists>page k. bound_page_in_response (\<lambda>xs. 2 + 10 * length xs) er_id sample_rows False None
      (\<lambda>p. 19970 + 2 + 10 * length (results p)) = Some page \<and>
    1 \<le> k \<and> k \<le> 3 \<and> results page = take k [1, 2, 3] \<and>
    (19970 + 2 + 10 * length (results page) \<le> 20000 \<or> k = 1)"
proof -
  have "sample_rows \<noteq> []" "length sample_rows = 3" "map rr_item (take k sample_rows) = take k [1, 2, 3]" for k
    by (simp_all add: sample_rows_def flip: take_map)
  with bounded_response_fits [OF sample_json_len, of er_id False None
      "\<lambda>p. 19970 + 2 + 10 * length (results p)"]
  show ?thesis unfolding MAX_RESPONSE_BYTES_def by metis
qed

end
