(* ===== verification/Pagination.thy ===== *)
theory Pagination
  imports Response_Bound Containers
begin

text \<open>
  The paginated queries of \<^verbatim>\<open>core/src/graph/pagination.rs\<close>: edges of a node in rank order, the
  outline of a file in source order, scored rows, and the per-file tallies and counts that go
  with them. The cursor text (base64 of JSON) is a pair of arguments \<open>enc\<close> and \<open>dec\<close>; a third says
  whether a text parses as a cursor of an older version. A SQL row-value comparison is the
  lexicographic order on tuples. The character count of \<^verbatim>\<open>substr\<close> and byte prefixes select the
  same paths, so lengths are bytes here.
\<close>

datatype cursor_error = InvalidCursor | OlderCursor

datatype Direction = Outgoing | Incoming

datatype Distinctness = Edges | OtherEndpoint

definition other_endpoint :: "Direction \<Rightarrow> EdgeRow \<Rightarrow> string" where
  "other_endpoint d e = (case d of Outgoing \<Rightarrow> e_toId e | Incoming \<Rightarrow> e_fromId e)"

definition this_endpoint :: "Direction \<Rightarrow> EdgeRow \<Rightarrow> string" where
  "this_endpoint d e = (case d of Outgoing \<Rightarrow> e_fromId e | Incoming \<Rightarrow> e_toId e)"

definition directory_prefix :: "string \<Rightarrow> string \<times> nat" where
  "directory_prefix path =
     (let prefix = rev (dropWhile (\<lambda>c. c \<noteq> CHR ''/'') (rev path)) in (prefix, length prefix))"

definition locality :: "string \<Rightarrow> string \<Rightarrow> int" where
  "locality anchor path =
     (let (prefix, len) = directory_prefix anchor
      in if path = anchor then 0
         else if take len path = prefix \<and> CHR ''/'' \<notin> set (drop len path) then 1 else 2)"

definition superseded_call :: "store \<Rightarrow> EdgeRow \<Rightarrow> bool" where
  "superseded_call st e \<longleftrightarrow>
     e_kind e = ''CALLS'' \<and> e_toDeclaration e = None \<and>
     list_ex (\<lambda>b. e_fromId b = e_fromId e \<and> e_toId b = e_toId e \<and> e_kind b = ''CALLS'' \<and>
                e_toDeclaration b \<noteq> None) (edges st)"

record EdgeQuery =
  q_anchor :: string
  q_direction :: Direction
  q_kinds :: "string list"
  q_files :: "string list"

definition distinct_filter :: "store \<Rightarrow> EdgeQuery \<Rightarrow> Distinctness \<Rightarrow> EdgeRow \<Rightarrow> bool" where
  "distinct_filter st q dist e =
     (case dist of
        Edges \<Rightarrow> True
      | OtherEndpoint \<Rightarrow>
          \<not> list_ex (\<lambda>d. this_endpoint (q_direction q) d = q_anchor q \<and>
               other_endpoint (q_direction q) d = other_endpoint (q_direction q) e \<and>
               e_kind d = e_kind e \<and>
               ((e_resolved d \<and> \<not> e_resolved e) \<or> (e_resolved d = e_resolved e \<and> e_id d < e_id e)))
             (edges st))"

text \<open>The edges the filters keep, joined with the node at their other end.\<close>

definition matching :: "store \<Rightarrow> EdgeQuery \<Rightarrow> (EdgeRow \<times> NodeRow) list" where
  "matching st q =
     filter (\<lambda>(e, n). this_endpoint (q_direction q) e = q_anchor q \<and>
         (q_kinds q = [] \<or> e_kind e \<in> set (q_kinds q)) \<and>
         (q_files q = [] \<or> n_filePath n \<in> set (q_files q)) \<and> \<not> superseded_call st e)
       (concat (map (\<lambda>e. map (Pair e) (filter (\<lambda>n. n_id n = other_endpoint (q_direction q) e) (nodes st)))
          (edges st)))"

section \<open>Edges in rank order\<close>

type_synonym edge_key = "nat \<times> int \<times> int \<times> string \<times> int \<times> string"

definition edge_key :: "EdgeRank \<Rightarrow> edge_key" where
  "edge_key r = (if er_resolved r then 0 else 1, er_locality r, er_file_row r, er_file_path r,
     er_start_line r, er_id r)"

definition rank_of_key :: "edge_key \<Rightarrow> EdgeRank" where
  "rank_of_key k = (case k of (u, l, f, p, s, i) \<Rightarrow>
     \<lparr>er_resolved = (u = 0), er_locality = l, er_file_row = f, er_file_path = p, er_start_line = s, er_id = i\<rparr>)"

definition edge_rank :: "string \<Rightarrow> EdgeRow \<times> NodeRow \<Rightarrow> EdgeRank" where
  "edge_rank anchor_file en =
     \<lparr>er_resolved = e_resolved (fst en), er_locality = locality anchor_file (n_filePath (snd en)),
      er_file_row = (if n_kind (snd en) = FILE_KIND then 1 else 0), er_file_path = n_filePath (snd en),
      er_start_line = n_startLine (snd en), er_id = e_id (fst en)\<rparr>"

record ScoredEdge =
  se_edge :: EdgeRecord
  se_rank :: EdgeRank

definition scored_edge :: "string \<Rightarrow> EdgeRow \<times> NodeRow \<Rightarrow> ScoredEdge" where
  "scored_edge anchor_file en = \<lparr>se_edge = map_edge_row (fst en), se_rank = edge_rank anchor_file en\<rparr>"

definition decode_edge_cursor ::
  "(string \<Rightarrow> EdgeRank option) \<Rightarrow> (string \<Rightarrow> bool) \<Rightarrow> string \<Rightarrow> cursor_error + EdgeRank" where
  "decode_edge_cursor dec legacy raw =
     (case dec raw of
        Some r \<Rightarrow> Inr r
      | None \<Rightarrow> if legacy raw then Inl OlderCursor else Inl InvalidCursor)"

definition paginate_edges ::
  "(EdgeRank \<Rightarrow> string) \<Rightarrow> (string \<Rightarrow> EdgeRank option) \<Rightarrow> (string \<Rightarrow> bool) \<Rightarrow> store \<Rightarrow> EdgeQuery
    \<Rightarrow> string \<Rightarrow> Distinctness \<Rightarrow> nat \<Rightarrow> string option \<Rightarrow> cursor_error + ScoredEdge Page" where
  "paginate_edges enc dec legacy st q anchor_file dist page_size cursor =
     (case (case cursor of None \<Rightarrow> Inr None
            | Some raw \<Rightarrow> (case decode_edge_cursor dec legacy raw of Inl e \<Rightarrow> Inl e | Inr r \<Rightarrow> Inr (Some r))) of
        Inl e \<Rightarrow> Inl e
      | Inr pos \<Rightarrow>
          Inr (cut_rows page_size (scored_edge anchor_file) (\<lambda>en. enc (edge_rank anchor_file en))
            (take (page_size + 1)
              (filter (\<lambda>en. case pos of None \<Rightarrow> True
                            | Some r \<Rightarrow> edge_key r < edge_key (edge_rank anchor_file en))
                (sort_key (\<lambda>en. edge_key (edge_rank anchor_file en))
                  (filter (\<lambda>en. distinct_filter st q dist (fst en)) (matching st q)))))))"

text \<open>The rows of a query, as the pagination contract sees them.\<close>

type_synonym edge_source = "store \<times> EdgeQuery \<times> string \<times> Distinctness"

definition edge_rows :: "edge_source \<Rightarrow> (EdgeRow \<times> NodeRow) list" where
  "edge_rows s = (case s of (st, q, anchor, dist) \<Rightarrow>
     filter (\<lambda>en. distinct_filter st q dist (fst en)) (matching st q))"

definition edge_row_key :: "edge_source \<Rightarrow> EdgeRow \<times> NodeRow \<Rightarrow> edge_key" where
  "edge_row_key s en = (case s of (st, q, anchor, dist) \<Rightarrow> edge_key (edge_rank anchor en))"

definition edge_source_ok ::
  "(EdgeRank \<Rightarrow> string) \<Rightarrow> (string \<Rightarrow> EdgeRank option) \<Rightarrow> edge_source \<Rightarrow> bool" where
  "edge_source_ok enc dec s = (case s of (st, q, anchor, dist) \<Rightarrow>
     keyed e_id (edges st) \<and> keyed n_id (nodes st) \<and>
     (\<forall>en\<in>set (edge_rows s). dec (enc (edge_rank anchor en)) = Some (edge_rank anchor en)))"

lemma distinct_map_finer:
  assumes "distinct (map g xs)" and "\<And>x y. f x = f y \<Longrightarrow> g x = g y"
  shows "distinct (map f xs)"
proof -
  have "inj_on f (set xs)"
    using assms unfolding distinct_map by (meson inj_onD inj_onI)
  with assms(1) show ?thesis by (simp add: distinct_map)
qed

lemma edge_row_key_eq: "edge_row_key (st, q, anchor, dist) = (\<lambda>en. edge_key (edge_rank anchor en))"
  by (rule ext) (simp add: edge_row_key_def)

lemma rank_of_edge_key [simp]: "rank_of_key (edge_key r) = r"
  by (simp add: rank_of_key_def edge_key_def)

lemma edge_key_eq: "edge_key r = edge_key r' \<longleftrightarrow> r = r'"
  by (metis rank_of_edge_key)

lemma matching_set:
  "(e, n) \<in> set (matching st q) \<longleftrightarrow>
     e \<in> set (edges st) \<and> n \<in> set (nodes st) \<and> n_id n = other_endpoint (q_direction q) e \<and>
     this_endpoint (q_direction q) e = q_anchor q \<and>
     (q_kinds q = [] \<or> e_kind e \<in> set (q_kinds q)) \<and>
     (q_files q = [] \<or> n_filePath n \<in> set (q_files q)) \<and> \<not> superseded_call st e"
  by (auto simp: matching_def)

lemma keyed_join_distinct:
  assumes "keyed e_id E" and "keyed n_id N"
  shows "distinct (map (\<lambda>en. e_id (fst en)) (concat (map (\<lambda>e. map (Pair e) (filter (\<lambda>n. n_id n = f e) N)) E)))"
  using assms(1)
proof (induction E)
  case (Cons e E)
  have one: "length (filter (\<lambda>n. n_id n = f e) N) \<le> 1"
  proof -
    have d: "distinct (map n_id (filter (\<lambda>n. n_id n = f e) N))"
      using keyed_filter [OF assms(2)] by (simp add: keyed_def)
    have "set (map n_id (filter (\<lambda>n. n_id n = f e) N)) \<subseteq> {f e}" by auto
    then have "card (set (map n_id (filter (\<lambda>n. n_id n = f e) N))) \<le> 1"
      by (metis card_mono finite.emptyI finite.insertI card.empty card_insert_if empty_iff One_nat_def)
    with distinct_card [OF d] show ?thesis by simp
  qed
  then have "filter (\<lambda>n. n_id n = f e) N = [] \<or> (\<exists>n. filter (\<lambda>n. n_id n = f e) N = [n])"
    by (metis One_nat_def length_0_conv length_Suc_conv le_Suc_eq le_zero_eq)
  with Cons show ?case by (auto simp: keyed_def)
qed simp

lemma edge_rows_distinct:
  assumes "keyed e_id (edges st)" and "keyed n_id (nodes st)"
  shows "distinct (map (\<lambda>en. e_id (fst en)) (edge_rows (st, q, anchor, dist)))"
  using keyed_join_distinct [OF assms, of "other_endpoint (q_direction q)"]
  unfolding edge_rows_def matching_def by (simp add: distinct_map_filter)

interpretation edge_pages: keyset edge_row_key edge_rows "\<lambda>k. enc (rank_of_key k)"
  "\<lambda>raw. map_option edge_key (dec raw)" "edge_source_ok enc dec" for enc dec
proof
  fix s :: edge_source and r
  obtain st q anchor dist where s: "s = (st, q, anchor, dist)" by (metis prod_cases4)
  assume ok: "edge_source_ok enc dec s"
  then have "distinct (map (\<lambda>en. e_id (fst en)) (edge_rows s))"
    using edge_rows_distinct by (simp add: s edge_source_ok_def)
  moreover have "e_id (fst x) = e_id (fst y)" if "edge_row_key s x = edge_row_key s y" for x y
    using that by (simp add: edge_row_key_def s edge_key_eq edge_rank_def)
  ultimately show "distinct (map (edge_row_key s) (edge_rows s))" by (rule distinct_map_finer)
  assume "r \<in> set (edge_rows s)"
  with ok show "map_option edge_key (dec (enc (rank_of_key (edge_row_key s r)))) = Some (edge_row_key s r)"
    by (auto simp: edge_row_key_def s edge_source_ok_def)
qed

lemma paginate_edges_page:
  assumes "0 < page_size"
    and "(cursor = None \<and> pos = None) \<or>
      (\<exists>r\<in>set (edge_rows s). cursor = Some (enc (rank_of_key (edge_row_key s r))) \<and> pos = Some (edge_row_key s r))"
    and "s = (st, q, anchor, dist)" and "edge_source_ok enc dec s"
  shows "\<exists>p. paginate_edges enc dec legacy st q anchor dist page_size cursor = Inr p \<and>
    edge_pages.page_at enc s (scored_edge anchor) pos p"
proof -
  have after: "edge_pages.after s pos =
      filter (\<lambda>en. case pos of None \<Rightarrow> True | Some k \<Rightarrow> k < edge_key (edge_rank anchor en))
      (sort_key (\<lambda>en. edge_key (edge_rank anchor en))
        (filter (\<lambda>en. distinct_filter st q dist (fst en)) (matching st q)))"
    unfolding edge_pages.after_def edge_pages.ordered_def assms(3) edge_row_key_eq edge_rows_def prod.case ..
  have "paginate_edges enc dec legacy st q anchor dist page_size cursor =
      Inr (cut_rows page_size (scored_edge anchor) (\<lambda>en. enc (edge_rank anchor en))
        (take (page_size + 1) (edge_pages.after s pos)))"
  proof (cases cursor)
    case None
    with assms(2) have "pos = None" by auto
    with None show ?thesis unfolding after by (simp add: paginate_edges_def)
  next
    case (Some raw)
    with assms(2) obtain r where r: "r \<in> set (edge_rows s)" "raw = enc (edge_rank anchor r)"
      "pos = Some (edge_key (edge_rank anchor r))"
      by (auto simp: edge_row_key_def assms(3))
    with assms(3,4) have "dec raw = Some (edge_rank anchor r)" by (auto simp: edge_source_ok_def)
    with r(3) Some show ?thesis unfolding after by (simp add: paginate_edges_def decode_edge_cursor_def)
  qed
  moreover have "(\<lambda>en. enc (edge_rank anchor en)) = (\<lambda>en. enc (rank_of_key (edge_row_key s en)))"
    by (simp add: assms(3) edge_row_key_eq)
  ultimately show ?thesis
    using edge_pages.limit_page [OF assms(1), of enc s "scored_edge anchor" pos] by simp
qed

text \<open>
  C20. Following the cursors of \<^verbatim>\<open>paginate_edges\<close> from the first page to the last yields every
  matching edge exactly once, in rank order, for any page size; the number of pages needed is
  at most the number of rows plus one. The cursor codec must give back the ranks of these rows.
\<close>

theorem paginate_edges_complete:
  assumes "0 < page_size" and "keyed e_id (edges st)" and "keyed n_id (nodes st)"
    and "\<forall>en\<in>set (edge_rows (st, q, anchor, dist)). dec (enc (edge_rank anchor en)) = Some (edge_rank anchor en)"
    and "length (edge_rows (st, q, anchor, dist)) < fuel"
  shows "follow_pages (paginate_edges enc dec legacy st q anchor dist page_size) fuel None =
      Some (map (scored_edge anchor)
        (sort_key (\<lambda>en. edge_key (edge_rank anchor en)) (edge_rows (st, q, anchor, dist)))) \<and>
    distinct (map (\<lambda>en. e_id (fst en)) (edge_rows (st, q, anchor, dist)))"
proof -
  let ?s = "(st, q, anchor, dist)"
  have ok: "edge_source_ok enc dec ?s" using assms(2-4) by (simp add: edge_source_ok_def)
  have "follow_pages (paginate_edges enc dec legacy st q anchor dist page_size) fuel None =
      Some (map (scored_edge anchor) (edge_pages.ordered ?s))"
    by (rule edge_pages.follow_all [OF ok _ assms(5)]) (rule paginate_edges_page [OF assms(1) _ refl ok])
  moreover have "edge_pages.ordered ?s =
      sort_key (\<lambda>en. edge_key (edge_rank anchor en)) (edge_rows (st, q, anchor, dist))"
    by (simp add: edge_pages.ordered_def edge_row_key_eq)
  ultimately show ?thesis using edge_rows_distinct [OF assms(2,3)] by simp
qed

section \<open>A file's outline in source order\<close>

record SourceOrderCursor =
  so_start_line :: int
  so_start_col :: int
  so_id :: string

type_synonym source_key = "int \<times> int \<times> string"

definition source_order :: "NodeRecord \<Rightarrow> SourceOrderCursor" where
  "source_order n = \<lparr>so_start_line = nr_start_line n, so_start_col = nr_start_col n, so_id = nr_id n\<rparr>"

definition source_key :: "SourceOrderCursor \<Rightarrow> source_key" where
  "source_key c = (so_start_line c, so_start_col c, so_id c)"

definition source_cursor :: "source_key \<Rightarrow> SourceOrderCursor" where
  "source_cursor k = (case k of (l, c, i) \<Rightarrow> \<lparr>so_start_line = l, so_start_col = c, so_id = i\<rparr>)"

text \<open>The nodes the file's DEFINES edges reach, one per edge whose target is stored.\<close>

definition defines_rows :: "store \<times> string \<Rightarrow> NodeRecord list" where
  "defines_rows s =
     concat (map (\<lambda>e. map map_node_row (filter (\<lambda>n. n_id n = e_toId e) (nodes (fst s))))
       (filter (\<lambda>e. e_fromId e = snd s \<and> e_kind e = DEFINES_KIND) (edges (fst s))))"

definition source_after :: "SourceOrderCursor option \<Rightarrow> NodeRecord \<Rightarrow> bool" where
  "source_after pos n =
     (case pos of None \<Rightarrow> True
      | Some c \<Rightarrow> so_start_line c < nr_start_line n \<or>
          (nr_start_line n = so_start_line c \<and> so_start_col c < nr_start_col n) \<or>
          (nr_start_line n = so_start_line c \<and> nr_start_col n = so_start_col c \<and> so_id c < nr_id n))"

definition paginate_defines ::
  "(SourceOrderCursor \<Rightarrow> string) \<Rightarrow> (string \<Rightarrow> SourceOrderCursor option) \<Rightarrow> store \<Rightarrow> string \<Rightarrow> nat
    \<Rightarrow> string option \<Rightarrow> cursor_error + NodeRecord Page" where
  "paginate_defines enc dec st file_node_id page_size cursor =
     (case (case cursor of None \<Rightarrow> Inr None
            | Some raw \<Rightarrow> (case dec raw of None \<Rightarrow> Inl InvalidCursor | Some c \<Rightarrow> Inr (Some c))) of
        Inl e \<Rightarrow> Inl e
      | Inr pos \<Rightarrow>
          Inr (cut_rows page_size (\<lambda>n. n) (\<lambda>n. enc (source_order n))
            (take (page_size + 1)
              (filter (source_after pos)
                (sort_key (\<lambda>n. source_key (source_order n)) (defines_rows (st, file_node_id)))))))"

definition defines_ok ::
  "(SourceOrderCursor \<Rightarrow> string) \<Rightarrow> (string \<Rightarrow> SourceOrderCursor option) \<Rightarrow> store \<times> string \<Rightarrow> bool" where
  "defines_ok enc dec s \<longleftrightarrow>
     distinct (map nr_id (defines_rows s)) \<and>
     (\<forall>n\<in>set (defines_rows s). dec (enc (source_order n)) = Some (source_order n))"

lemma source_cursor_key [simp]: "source_cursor (source_key c) = c"
  by (simp add: source_cursor_def source_key_def)

lemma source_after_key:
  "source_after pos n = (case map_option source_key pos of None \<Rightarrow> True | Some k \<Rightarrow> k < source_key (source_order n))"
  by (auto simp: source_after_def source_key_def source_order_def less_prod_def split: option.splits)

interpretation defines_pages: keyset "\<lambda>s n. source_key (source_order n)" defines_rows
  "\<lambda>k. enc (source_cursor k)" "\<lambda>raw. map_option source_key (dec raw)" "defines_ok enc dec" for enc dec
proof
  fix s r
  assume ok: "defines_ok enc dec s"
  then have "distinct (map nr_id (defines_rows s))" by (simp add: defines_ok_def)
  then show "distinct (map (\<lambda>n. source_key (source_order n)) (defines_rows s))"
    by (rule distinct_map_finer) (simp add: source_key_def source_order_def)
  assume "r \<in> set (defines_rows s)"
  with ok show "map_option source_key (dec (enc (source_cursor (source_key (source_order r))))) =
      Some (source_key (source_order r))"
    by (simp add: defines_ok_def)
qed

lemma paginate_defines_page:
  assumes "0 < page_size" and "defines_ok enc dec (st, f)"
    and "(cursor = None \<and> pos = None) \<or>
      (\<exists>r\<in>set (defines_rows (st, f)). cursor = Some (enc (source_cursor (source_key (source_order r)))) \<and>
         pos = Some (source_key (source_order r)))"
  shows "\<exists>p. paginate_defines enc dec st f page_size cursor = Inr p \<and>
    defines_pages.page_at enc (st, f) (\<lambda>n. n) pos p"
proof -
  have "\<exists>c. pos = map_option source_key c \<and> paginate_defines enc dec st f page_size cursor =
      Inr (cut_rows page_size (\<lambda>n. n) (\<lambda>n. enc (source_order n))
        (take (page_size + 1) (filter (source_after c)
          (sort_key (\<lambda>n. source_key (source_order n)) (defines_rows (st, f))))))"
  proof (cases cursor)
    case None
    with assms(3) show ?thesis by (intro exI [of _ None]) (auto simp: paginate_defines_def)
  next
    case (Some raw)
    with assms(3) obtain r where r: "r \<in> set (defines_rows (st, f))" "raw = enc (source_order r)"
      "pos = Some (source_key (source_order r))" by auto
    with assms(2) have "dec raw = Some (source_order r)" by (simp add: defines_ok_def)
    with r Some show ?thesis
      by (intro exI [of _ "Some (source_order r)"]) (simp add: paginate_defines_def)
  qed
  moreover have "defines_pages.after (st, f) (map_option source_key c) =
      filter (source_after c) (sort_key (\<lambda>n. source_key (source_order n)) (defines_rows (st, f)))" for c
    unfolding defines_pages.after_def defines_pages.ordered_def source_after_key ..
  ultimately show ?thesis
    using defines_pages.limit_page [OF assms(1), of enc "(st, f)" "\<lambda>n. n" pos] by fastforce
qed

text \<open>
  Paging through a file's outline returns every definition once, in source order. Each
  definition is reached by one DEFINES edge.
\<close>

theorem paginate_defines_complete:
  assumes "0 < page_size" and "distinct (map nr_id (defines_rows (st, f)))"
    and "\<forall>n\<in>set (defines_rows (st, f)). dec (enc (source_order n)) = Some (source_order n)"
    and "length (defines_rows (st, f)) < fuel"
  shows "follow_pages (paginate_defines enc dec st f page_size) fuel None =
    Some (sort_key (\<lambda>n. (nr_start_line n, nr_start_col n, nr_id n)) (defines_rows (st, f)))"
proof -
  have ok: "defines_ok enc dec (st, f)" using assms(2,3) by (simp add: defines_ok_def)
  have "follow_pages (paginate_defines enc dec st f page_size) fuel None =
      Some (map (\<lambda>n. n) (defines_pages.ordered (st, f)))"
    by (rule defines_pages.follow_all [OF ok _ assms(4)]) (rule paginate_defines_page [OF assms(1) ok])
  then show ?thesis
    unfolding defines_pages.ordered_def by (simp add: source_key_def source_order_def)
qed

section \<open>Cutting an outline to its response\<close>

definition cut_at ::
  "('a list \<Rightarrow> nat) \<Rightarrow> string list \<Rightarrow> bool \<Rightarrow> string option \<Rightarrow> 'a list \<Rightarrow> nat
    \<Rightarrow> (nat \<times> bool \<times> string option) option" where
  "cut_at wl cursors incomplete next items budget =
     (case longest_prefix_fitting wl items budget of
        None \<Rightarrow> Some (length items, incomplete, next)
      | Some k \<Rightarrow> if k - 1 < length cursors then Some (k, True, Some (cursors ! (k - 1))) else None)"

text \<open>\<open>None\<close> is the out-of-range panic on the cursors of an empty page.\<close>

definition bound_defines_page ::
  "('a list \<Rightarrow> nat) \<Rightarrow> (SourceOrderCursor \<Rightarrow> string) \<Rightarrow> NodeRecord Page \<Rightarrow> (NodeRecord \<Rightarrow> 'a)
    \<Rightarrow> ('a list \<Rightarrow> bool \<Rightarrow> string option \<Rightarrow> nat) \<Rightarrow> nat \<Rightarrow> 'a Page option" where
  "bound_defines_page wl enc page render response_len ceiling =
     (let cursors = map (\<lambda>n. enc (source_order n)) (results page);
          items = map render (results page);
          cut_items = cut_at wl cursors (has_more page) (next_cursor page) items
      in case fit_budget_within ceiling (\<lambda>b. case cut_items b of None \<Rightarrow> None
               | Some (kept, incomplete, cursor) \<Rightarrow>
                   Some (wl (take kept items), response_len (take kept items) incomplete cursor)) of
           None \<Rightarrow> None
         | Some budget \<Rightarrow>
             (case cut_items budget of None \<Rightarrow> None
              | Some (kept, incomplete, cursor) \<Rightarrow>
                  Some \<lparr>results = take kept items, has_more = incomplete, next_cursor = cursor,
                        all_unresolved = all_unresolved page\<rparr>))"

lemma cut_at_spec:
  assumes "json_len wl items" and "items \<noteq> []" and "length cursors = length items"
  shows "\<exists>k. 1 \<le> k \<and> k \<le> length items \<and> (wl (take k items) \<le> b \<or> k = 1) \<and>
    (cut_at wl cursors incomplete next items b = Some (k, True, Some (cursors ! (k - 1))) \<or>
     (k = length items \<and> cut_at wl cursors incomplete next items b = Some (k, incomplete, next)))"
proof (cases "longest_prefix_fitting wl items b")
  case None
  with longest_prefix_fitting_spec [OF assms(1,2), of b] assms(2) show ?thesis
    by (intro exI [of _ "length items"]) (simp add: cut_at_def Suc_le_eq)
next
  case (Some k)
  with longest_prefix_fitting_spec [OF assms(1,2), of b] have k: "1 \<le> k" "k \<le> length items"
    "wl (take k items) \<le> b \<or> k = 1" by auto
  with Some assms(3) show ?thesis by (intro exI [of _ k]) (auto simp: cut_at_def)
qed

text \<open>
  Cutting a non-empty outline page to its response never panics, keeps at least one row and
  resumes right after the last row kept when it drops rows, and the response fits the ceiling
  unless the page is down to one row.
\<close>

theorem bound_defines_page_fits:
  assumes "results page \<noteq> []" and "json_len wl (map render (results page))"
  shows "\<exists>p k. bound_defines_page wl enc page render response_len ceiling = Some p \<and>
    1 \<le> k \<and> k \<le> length (results page) \<and> results p = map render (take k (results page)) \<and>
    (k < length (results page) \<longrightarrow>
       has_more p \<and> next_cursor p = Some (enc (source_order (last (take k (results page)))))) \<and>
    (response_len (results p) (has_more p) (next_cursor p) \<le> ceiling \<or> k = 1)"
proof -
  let ?items = "map render (results page)"
  let ?cursors = "map (\<lambda>n. enc (source_order n)) (results page)"
  let ?cut = "cut_at wl ?cursors (has_more page) (next_cursor page) ?items"
  have "\<exists>k inc cur. ?cut b = Some (k, inc, cur) \<and> 1 \<le> k \<and> k \<le> length ?items \<and>
      (wl (take k ?items) \<le> b \<or> k = 1) \<and>
      (k < length ?items \<longrightarrow> inc \<and> cur = Some (enc (source_order (last (take k (results page))))))" for b
  proof -
    have "?items \<noteq> []" "length ?cursors = length ?items" using assms(1) by simp_all
    from cut_at_spec [OF assms(2) this, of b "has_more page" "next_cursor page"] obtain k where k: "1 \<le> k" "k \<le> length ?items" "wl (take k ?items) \<le> b \<or> k = 1"
      "?cut b = Some (k, True, Some (?cursors ! (k - 1))) \<or>
       (k = length ?items \<and> ?cut b = Some (k, has_more page, next_cursor page))" by blast
    have "results page ! (k - 1) = last (take k (results page))"
      using k(1,2) by (subst last_conv_nth) auto
    with k show ?thesis by auto
  qed
  then obtain k inc cur where cut: "\<And>b. ?cut b = Some (k b, inc b, cur b)"
    and k: "\<And>b. 1 \<le> k b \<and> k b \<le> length ?items \<and> (wl (take (k b) ?items) \<le> b \<or> k b = 1)"
    and rest: "\<And>b. k b < length ?items \<longrightarrow>
      inc b \<and> cur b = Some (enc (source_order (last (take (k b) (results page)))))" by metis
  obtain b where b: "fit_budget_within ceiling
      (\<lambda>b. Some (wl (take (k b) ?items), response_len (take (k b) ?items) (inc b) (cur b))) = Some b"
    "response_len (take (k b) ?items) (inc b) (cur b) \<le> ceiling \<or> k b = 1"
    using fit_cuts [OF assms(2) k, of ceiling "\<lambda>b. response_len (take (k b) ?items) (inc b) (cur b)"] by blast
  let ?res = "\<lparr>results = take (k b) ?items, has_more = inc b, next_cursor = cur b,
    all_unresolved = all_unresolved page\<rparr>"
  have "bound_defines_page wl enc page render response_len ceiling = Some ?res"
    using b(1) cut by (simp add: bound_defines_page_def Let_def)
  with b(2) k [of b] rest [of b] show ?thesis
    by (intro exI [of _ ?res] exI [of _ "k b"]) (simp add: take_map)
qed

section \<open>Counts and per-file tallies\<close>

record EdgeCount =
  total :: nat
  unresolved :: nat

definition count_edges_by_resolution :: "store \<Rightarrow> EdgeQuery \<Rightarrow> EdgeCount" where
  "count_edges_by_resolution st q =
     \<lparr>total = length (matching st q),
      unresolved = length (filter (\<lambda>en. \<not> e_resolved (fst en)) (matching st q))\<rparr>"

definition count_edges :: "store \<Rightarrow> EdgeQuery \<Rightarrow> nat" where
  "count_edges st q = total (count_edges_by_resolution st q)"

definition count_defines :: "store \<Rightarrow> string \<Rightarrow> nat" where
  "count_defines st file_node_id =
     length (filter (\<lambda>e. e_fromId e = file_node_id \<and> e_kind e = ''DEFINES'') (edges st))"

record FileTally =
  ft_path :: string
  ft_refs :: int

definition MAX_FILE_TALLY :: nat where "MAX_FILE_TALLY = 200"
definition FILE_TALLY_MAX_BYTES :: nat where "FILE_TALLY_MAX_BYTES = 8000"

definition tally_rows :: "store \<Rightarrow> EdgeQuery \<Rightarrow> FileTally list" where
  "tally_rows st q =
     map (\<lambda>p. \<lparr>ft_path = p, ft_refs = int (length (filter (\<lambda>en. n_filePath (snd en) = p) (matching st q)))\<rparr>)
       (remdups (map (\<lambda>en. n_filePath (snd en)) (matching st q)))"

definition tally_edge_files_limited :: "store \<Rightarrow> EdgeQuery \<Rightarrow> nat \<Rightarrow> FileTally list" where
  "tally_edge_files_limited st q limit =
     take limit (sort_key (\<lambda>t. (- ft_refs t, ft_path t)) (tally_rows st q))"

definition tally_edge_files :: "store \<Rightarrow> EdgeQuery \<Rightarrow> FileTally list" where
  "tally_edge_files st q = tally_edge_files_limited st q MAX_FILE_TALLY"

definition tally_edge_files_bounded ::
  "(FileTally list \<Rightarrow> nat) \<Rightarrow> store \<Rightarrow> EdgeQuery \<Rightarrow> (FileTally list \<times> bool) option" where
  "tally_edge_files_bounded wl st q =
     (let files = tally_edge_files_limited st q (MAX_FILE_TALLY + 1);
          over_count = MAX_FILE_TALLY < length files
      in case truncate_to_bytes wl (take MAX_FILE_TALLY files) FILE_TALLY_MAX_BYTES of
           None \<Rightarrow> None
         | Some (kept, over_bytes) \<Rightarrow> Some (kept, over_count \<or> over_bytes))"

definition tally_is_worth_sending :: "nat \<Rightarrow> FileTally list \<Rightarrow> bool \<Rightarrow> bool" where
  "tally_is_worth_sending row_count tally incomplete \<longleftrightarrow> incomplete \<or> length tally < row_count"

definition widest_total :: "bool \<Rightarrow> nat option" where
  "widest_total incomplete = (if incomplete then Some USIZE_MAX else None)"

lemma sum_list_int: "sum_list (map (\<lambda>x. int (f x)) xs) = int (sum_list (map f xs))"
  by (induction xs) auto

lemma sum_counts:
  "sum_list (map (\<lambda>p. length (filter (\<lambda>x. f x = p) xs)) (remdups (map f xs))) = length xs"
proof -
  have "length xs = (\<Sum>p\<in>set (map f xs). length (filter (\<lambda>x. f x = p) xs))"
    using sum_count_set [of "map f xs" "set (map f xs)"]
    by (simp add: count_list_eq_length_filter filter_map o_def eq_commute)
  then show ?thesis by (simp add: sum_list_distinct_conv_sum_set)
qed

lemma truncate_nothing: "truncate_to_bytes wl xs b = Some (ys, False) \<Longrightarrow> ys = xs"
  by (auto simp: truncate_to_bytes_def split: option.splits if_splits)

text \<open>
  A bounded tally that is not marked truncated is the whole answer: it lists each file of the
  matching edges exactly once with the number of its edges, busiest first, and its counts add up
  to the \<^verbatim>\<open>total\<close> of \<^verbatim>\<open>count_edges\<close>. Whenever a file or a byte had to be left out, it is marked.
\<close>

theorem complete_tally_sums_to_total:
  assumes "tally_edge_files_bounded wl st q = Some (files, False)"
  shows "sum_list (map ft_refs files) = int (count_edges st q) \<and>
    distinct (map ft_path files) \<and>
    set (map ft_path files) = (\<lambda>en. n_filePath (snd en)) ` set (matching st q) \<and>
    sorted (map (\<lambda>t. (- ft_refs t, ft_path t)) files)"
proof -
  let ?all = "sort_key (\<lambda>t. (- ft_refs t, ft_path t)) (tally_rows st q)"
  define F where "F = take (MAX_FILE_TALLY + 1) ?all"
  have run: "(case truncate_to_bytes wl (take MAX_FILE_TALLY F) FILE_TALLY_MAX_BYTES of None \<Rightarrow> None
      | Some (kept, over_bytes) \<Rightarrow> Some (kept, MAX_FILE_TALLY < length F \<or> over_bytes)) = Some (files, False)"
    using assms unfolding tally_edge_files_bounded_def tally_edge_files_limited_def Let_def F_def .
  then obtain over where cut: "truncate_to_bytes wl (take MAX_FILE_TALLY F) FILE_TALLY_MAX_BYTES = Some (files, over)"
    by (auto split: option.splits)
  with run have "\<not> over" "\<not> MAX_FILE_TALLY < length F" by auto
  have "F = ?all"
  proof (cases "length ?all \<le> MAX_FILE_TALLY")
    case False
    then have "length F = MAX_FILE_TALLY + 1" unfolding F_def length_take by linarith
    with \<open>\<not> MAX_FILE_TALLY < length F\<close> show ?thesis by linarith
  qed (simp add: F_def)
  moreover have "files = take MAX_FILE_TALLY F" 
    using truncate_nothing [of wl "take MAX_FILE_TALLY F" FILE_TALLY_MAX_BYTES files] cut \<open>\<not> over\<close> by simp
  ultimately have files: "files = ?all" using \<open>\<not> MAX_FILE_TALLY < length F\<close> by simp
  have "sum_list (map ft_refs files) = sum_list (map ft_refs (tally_rows st q))"
    unfolding files by (simp only: sum_mset_sum_list [symmetric] mset_map mset_sort)
  also have "\<dots> = int (count_edges st q)"
    using sum_counts [of "\<lambda>en. n_filePath (snd en)" "matching st q"]
    by (simp add: tally_rows_def o_def count_edges_def count_edges_by_resolution_def sum_list_int)
  finally have sum: "sum_list (map ft_refs files) = int (count_edges st q)" .
  have paths: "map ft_path (tally_rows st q) = remdups (map (\<lambda>en. n_filePath (snd en)) (matching st q))"
    by (simp add: tally_rows_def o_def)
  have "distinct (map ft_path (tally_rows st q))" unfolding paths by simp
  then have "distinct (map ft_path files)" unfolding files by (simp add: distinct_map)
  moreover have "set (map ft_path files) = set (map ft_path (tally_rows st q))" unfolding files by simp
  ultimately show ?thesis using sum unfolding paths by (simp add: files)
qed

section \<open>One row per endpoint\<close>

text \<open>
  With \<^verbatim>\<open>Distinctness::OtherEndpoint\<close> and one edge kind other than CALLS, as
  \<^verbatim>\<open>find_implementations\<close> asks, a page lists every endpoint of a matching edge exactly once.
\<close>

theorem other_endpoint_listed_once:
  assumes "keyed e_id (edges st)" and "keyed n_id (nodes st)" and "q_kinds q = [kind]" and "kind \<noteq> ''CALLS''"
  shows "distinct (map (\<lambda>en. other_endpoint (q_direction q) (fst en)) (edge_rows (st, q, anchor, OtherEndpoint))) \<and>
    (\<lambda>en. other_endpoint (q_direction q) (fst en)) ` set (edge_rows (st, q, anchor, OtherEndpoint)) =
    (\<lambda>en. other_endpoint (q_direction q) (fst en)) ` set (matching st q)"
proof -
  let ?o = "\<lambda>e. other_endpoint (q_direction q) e"
  let ?rows = "edge_rows (st, q, anchor, OtherEndpoint)"
  let ?k = "\<lambda>e. (if e_resolved e then 0 else 1 :: nat, e_id e)"
  have rows: "(e, n) \<in> set ?rows \<longleftrightarrow> (e, n) \<in> set (matching st q) \<and>
      (\<forall>d\<in>set (edges st). this_endpoint (q_direction q) d = q_anchor q \<and> ?o d = ?o e \<and> e_kind d = kind \<longrightarrow>
         \<not> ?k d < ?k e)" for e n
    using assms(3) by (auto simp: edge_rows_def distinct_filter_def list_ex_iff matching_set less_prod_def)
  have same: "x = y" if "x \<in> set ?rows" "y \<in> set ?rows" "?o (fst x) = ?o (fst y)" for x y
  proof -
    obtain e n e' n' where x: "x = (e, n)" and y: "y = (e', n')" by (metis prod.exhaust)
    have m: "(e, n) \<in> set (matching st q)" "(e', n') \<in> set (matching st q)" using that rows x y by auto
    then have "\<not> ?k e' < ?k e" "\<not> ?k e < ?k e'"
      using that rows [of e n] rows [of e' n'] assms(3) unfolding x y matching_set by auto
    then have "e_id e = e_id e'" by (metis Pair_inject linorder_less_linear)
    then have "e = e'" using m assms(1) keyed_inj unfolding matching_set by metis
    moreover have "n = n'" using m that(3) assms(2) keyed_inj unfolding x y matching_set fst_conv by metis
    ultimately show ?thesis using x y by simp
  qed
  have "distinct ?rows"
    using edge_rows_distinct [OF assms(1,2)] by (simp add: distinct_map)
  with same have dist: "distinct (map (\<lambda>en. ?o (fst en)) ?rows)" by (auto simp: distinct_map inj_on_def)
  have "\<exists>y\<in>set ?rows. ?o (fst y) = ?o e" if en: "(e, n) \<in> set (matching st q)" for e n
  proof -
    let ?C = "{d \<in> set (edges st). this_endpoint (q_direction q) d = q_anchor q \<and> ?o d = ?o e \<and> e_kind d = kind}"
    have "e \<in> ?C" using en assms(3) unfolding matching_set by auto
    then obtain d where d: "d \<in> ?C" "\<forall>c\<in>?C. \<not> ?k c < ?k d"
      using ex_min_if_finite [of "?k ` ?C"] by auto
    have "(d, n) \<in> set (matching st q)"
      using en d(1) assms(3,4) unfolding matching_set by (auto simp: superseded_call_def)
    with d have "(d, n) \<in> set ?rows" using rows [of d n] by auto
    with d(1) show ?thesis by force
  qed
  then have "(\<lambda>en. ?o (fst en)) ` set (matching st q) \<subseteq> (\<lambda>en. ?o (fst en)) ` set ?rows"
    by (metis (no_types, lifting) image_subsetI image_eqI prod.collapse)
  moreover have "set ?rows \<subseteq> set (matching st q)" by (auto simp: edge_rows_def)
  ultimately show ?thesis using dist by blast
qed

section \<open>Scored rows\<close>

text \<open>
  \<^verbatim>\<open>paginate_by_score\<close> wraps any query whose rows have a score and an id; the rows of that query
  are the argument \<open>base\<close>. The score type is any ordered group, which a cursor carries exactly
  (\<^verbatim>\<open>to_bits\<close>).
\<close>

type_synonym ('t, 's) scored = "'t \<times> 's \<times> string"

definition score_after :: "('s::linordered_ab_group_add \<times> string) option \<Rightarrow> ('t, 's) scored \<Rightarrow> bool" where
  "score_after pos r =
     (case pos of None \<Rightarrow> True
      | Some (score, i) \<Rightarrow> fst (snd r) < score \<or> (fst (snd r) = score \<and> i < snd (snd r)))"

definition score_key :: "('t, 's::linordered_ab_group_add) scored \<Rightarrow> 's \<times> string" where
  "score_key r = (- fst (snd r), snd (snd r))"

definition score_of_key :: "'s::linordered_ab_group_add \<times> string \<Rightarrow> 's \<times> string" where
  "score_of_key k = (- fst k, snd k)"

definition paginate_by_score ::
  "('s::linordered_ab_group_add \<times> string \<Rightarrow> string) \<Rightarrow> (string \<Rightarrow> ('s \<times> string) option) \<Rightarrow> (string \<Rightarrow> bool)
    \<Rightarrow> ('t, 's) scored list \<Rightarrow> nat \<Rightarrow> string option \<Rightarrow> cursor_error + 't Page" where
  "paginate_by_score enc dec legacy base page_size cursor =
     (case (case cursor of None \<Rightarrow> Inr None
            | Some raw \<Rightarrow> (case dec raw of
                 Some c \<Rightarrow> Inr (Some c)
               | None \<Rightarrow> if legacy raw then Inl OlderCursor else Inl InvalidCursor)) of
        Inl e \<Rightarrow> Inl e
      | Inr pos \<Rightarrow>
          Inr (cut_rows page_size fst (\<lambda>r. enc (snd r))
            (take (page_size + 1) (filter (score_after pos) (sort_key score_key base)))))"

definition scored_ok ::
  "('s::linordered_ab_group_add \<times> string \<Rightarrow> string) \<Rightarrow> (string \<Rightarrow> ('s \<times> string) option) \<Rightarrow> ('t, 's) scored list \<Rightarrow> bool" where
  "scored_ok enc dec base \<longleftrightarrow>
     distinct (map (\<lambda>r. snd (snd r)) base) \<and> (\<forall>r\<in>set base. dec (enc (snd r)) = Some (snd r))"

lemma score_of_score_key [simp]: "score_of_key (score_key r) = snd r"
  by (simp add: score_of_key_def score_key_def)

lemma score_key_of_score: "- fst (score_of_key k) = fst k" "snd (score_of_key k) = snd k"
  by (simp_all add: score_of_key_def)

lemma score_after_key:
  "score_after pos r = (case map_option (\<lambda>c. score_of_key c) pos of None \<Rightarrow> True | Some k \<Rightarrow> k < score_key r)"
  by (auto simp: score_after_def score_key_def score_of_key_def less_prod_def split: option.splits)

interpretation score_pages: keyset "\<lambda>s :: ('t, 's::linordered_ab_group_add) scored list. score_key" "\<lambda>s. s"
  "\<lambda>k. enc (score_of_key k)" "\<lambda>raw. map_option score_of_key (dec raw)" "scored_ok enc dec" for enc dec
proof
  fix s :: "('t, 's) scored list" and r
  assume ok: "scored_ok enc dec s"
  then have "distinct (map (\<lambda>r. snd (snd r)) s)" by (simp add: scored_ok_def)
  then show "distinct (map score_key s)" by (rule distinct_map_finer) (simp add: score_key_def)
  assume "r \<in> set s"
  with ok have "dec (enc (snd r)) = Some (snd r)" by (simp add: scored_ok_def)
  then show "map_option score_of_key (dec (enc (score_of_key (score_key r)))) = Some (score_key r)"
    by (simp add: score_of_key_def score_key_def)
qed

lemma paginate_by_score_page:
  assumes "0 < page_size" and "scored_ok enc dec base"
    and "(cursor = None \<and> pos = None) \<or>
      (\<exists>r\<in>set base. cursor = Some (enc (score_of_key (score_key r))) \<and> pos = Some (score_key r))"
  shows "\<exists>p. paginate_by_score enc dec legacy base page_size cursor = Inr p \<and>
    score_pages.page_at enc base fst pos p"
proof -
  have "\<exists>c. pos = map_option score_of_key c \<and> paginate_by_score enc dec legacy base page_size cursor =
      Inr (cut_rows page_size fst (\<lambda>r. enc (snd r))
        (take (page_size + 1) (filter (score_after c) (sort_key score_key base))))"
  proof (cases cursor)
    case None
    with assms(3) show ?thesis by (intro exI [of _ None]) (auto simp: paginate_by_score_def)
  next
    case (Some raw)
    with assms(3) obtain r where r: "r \<in> set base" "raw = enc (snd r)" "pos = Some (score_key r)" by auto
    with assms(2) have "dec raw = Some (snd r)" by (simp add: scored_ok_def)
    with r Some show ?thesis
      by (intro exI [of _ "Some (snd r)"]) (simp add: paginate_by_score_def score_of_key_def score_key_def)
  qed
  moreover have "score_pages.after base (map_option score_of_key c) =
      filter (score_after c) (sort_key score_key base)" for c
    unfolding score_pages.after_def score_pages.ordered_def score_after_key ..
  ultimately show ?thesis
    using score_pages.limit_page [OF assms(1), of enc base fst pos] by fastforce
qed

text \<open>
  Following the cursors of a scored query returns each row once, best score first and by id
  among equal scores.
\<close>

theorem paginate_by_score_complete:
  assumes "0 < page_size" and "distinct (map (\<lambda>r. snd (snd r)) base)"
    and "\<forall>r\<in>set base. dec (enc (snd r)) = Some (snd r)" and "length base < fuel"
  shows "follow_pages (paginate_by_score enc dec legacy base page_size) fuel None =
    Some (map fst (sort_key (\<lambda>r. (- fst (snd r), snd (snd r))) base))"
proof -
  have ok: "scored_ok enc dec base" using assms(2,3) by (simp add: scored_ok_def)
  have "follow_pages (paginate_by_score enc dec legacy base page_size) fuel None =
      Some (map fst (score_pages.ordered base))"
    by (rule score_pages.follow_all [OF ok _ assms(4)]) (rule paginate_by_score_page [OF assms(1) ok])
  then show ?thesis unfolding score_pages.ordered_def by (simp add: score_key_def [abs_def])
qed

section \<open>A concrete index\<close>

text \<open>A function called from three others, two of them in its own file.\<close>

definition sample_callers :: store where
  "sample_callers = empty_store\<lparr>
     nodes := map node_row [new_NodeRecord ''f'' ''Function'' ''f'' ''f'' ''a.go'' ''go'',
       new_NodeRecord ''g'' ''Function'' ''g'' ''g'' ''b.go'' ''go'',
       new_NodeRecord ''h'' ''Function'' ''h'' ''h'' ''a.go'' ''go'',
       new_NodeRecord ''k'' ''Function'' ''k'' ''k'' ''a.go'' ''go''],
     edges := map edge_row [new_EdgeRecord ''1'' ''g'' ''f'' ''CALLS'' ''tree-sitter'' True,
       new_EdgeRecord ''2'' ''h'' ''f'' ''CALLS'' ''tree-sitter'' False,
       new_EdgeRecord ''3'' ''k'' ''f'' ''CALLS'' ''tree-sitter'' True]\<rparr>"

definition sample_query :: EdgeQuery where
  "sample_query = \<lparr>q_anchor = ''f'', q_direction = Incoming, q_kinds = [''CALLS''], q_files = []\<rparr>"

definition sample_ranks :: "EdgeRank list" where
  "sample_ranks = map (edge_rank ''a.go'') (matching sample_callers sample_query)"

definition sample_dec :: "string \<Rightarrow> EdgeRank option" where
  "sample_dec raw = find (\<lambda>r. er_id r = raw) sample_ranks"

theorem paginate_edges_complete_witness:
  "map_option (map (\<lambda>e. ed_id (se_edge e)))
     (follow_pages (paginate_edges er_id sample_dec (\<lambda>_. False) sample_callers sample_query ''a.go'' Edges 1) 4 None)
   = Some [''3'', ''1'', ''2'']"
proof -
  have k: "keyed e_id (edges sample_callers)" "keyed n_id (nodes sample_callers)" by code_simp+
  have d: "\<forall>en\<in>set (edge_rows (sample_callers, sample_query, ''a.go'', Edges)).
      sample_dec (er_id (edge_rank ''a.go'' en)) = Some (edge_rank ''a.go'' en)" by code_simp
  have l: "length (edge_rows (sample_callers, sample_query, ''a.go'', Edges)) < 4" by code_simp
  have "map (\<lambda>e. ed_id (se_edge e)) (map (scored_edge ''a.go'') (sort_key (\<lambda>en. edge_key (edge_rank ''a.go'' en))
      (edge_rows (sample_callers, sample_query, ''a.go'', Edges)))) = [''3'', ''1'', ''2'']" by code_simp
  with paginate_edges_complete [OF _ k d l, of 1 "\<lambda>_. False"] show ?thesis by simp
qed

definition sample_outline :: store where
  "sample_outline = empty_store\<lparr>
     nodes := map node_row [(new_NodeRecord ''f'' ''Function'' ''f'' ''f'' ''a.go'' ''go'')\<lparr>nr_start_line := 9\<rparr>,
       (new_NodeRecord ''g'' ''Function'' ''g'' ''g'' ''a.go'' ''go'')\<lparr>nr_start_line := 4\<rparr>],
     edges := map edge_row [new_EdgeRecord ''1'' ''F'' ''f'' ''DEFINES'' ''tree-sitter'' True,
       new_EdgeRecord ''2'' ''F'' ''g'' ''DEFINES'' ''tree-sitter'' True]\<rparr>"

definition sample_source_dec :: "string \<Rightarrow> SourceOrderCursor option" where
  "sample_source_dec raw = find (\<lambda>c. so_id c = raw) (map source_order (defines_rows (sample_outline, ''F'')))"

theorem paginate_defines_complete_witness:
  "map_option (map nr_id) (follow_pages (paginate_defines so_id sample_source_dec sample_outline ''F'' 1) 3 None) =
     Some [''g'', ''f'']"
proof -
  have d: "distinct (map nr_id (defines_rows (sample_outline, ''F'')))" by code_simp
  have c: "\<forall>n\<in>set (defines_rows (sample_outline, ''F'')). sample_source_dec (so_id (source_order n)) = Some (source_order n)"
    by code_simp
  have l: "length (defines_rows (sample_outline, ''F'')) < 3" by code_simp
  have "map nr_id (sort_key (\<lambda>n. (nr_start_line n, nr_start_col n, nr_id n)) (defines_rows (sample_outline, ''F'')))
      = [''g'', ''f'']" by code_simp
  with paginate_defines_complete [OF _ d c l, of 1] show ?thesis by simp
qed

theorem bound_defines_page_fits_witness:
  "\<exists>p k. bound_defines_page (\<lambda>xs. 2 + 10 * length xs) so_id
      \<lparr>results = defines_rows (sample_outline, ''F''), has_more = False, next_cursor = None, all_unresolved = False\<rparr>
      nr_name (\<lambda>rows _ _. 50 + 2 + 10 * length rows) 65 = Some p \<and> k = 1 \<and> length (results p) = k"
proof -
  let ?page = "\<lparr>results = defines_rows (sample_outline, ''F''), has_more = False, next_cursor = None, all_unresolved = False\<rparr>"
  have n: "results ?page \<noteq> []" "length (results ?page) = 2" by code_simp+
  have "length (map nr_name (results ?page)) = 2" using n(2) by simp
  then have j: "json_len (\<lambda>xs. 2 + 10 * length xs) (map nr_name (results ?page))"
    unfolding json_len_def USIZE_MAX_def by simp
  from bound_defines_page_fits [OF n(1) j, of so_id "\<lambda>rows _ _. 50 + 2 + 10 * length rows" 65]
  obtain p k where "bound_defines_page (\<lambda>xs. 2 + 10 * length xs) so_id ?page nr_name
      (\<lambda>rows _ _. 50 + 2 + 10 * length rows) 65 = Some p" "1 \<le> k" "k \<le> 2"
    "results p = map nr_name (take k (results ?page))" "50 + 2 + 10 * length (results p) \<le> 65 \<or> k = 1"
    using n(2) by auto
  moreover from this have "length (results p) = k" using n(2) by simp
  ultimately have "k = 1" by auto
  with \<open>length (results p) = k\<close> \<open>bound_defines_page _ _ _ _ _ _ = Some p\<close> show ?thesis by blast
qed

theorem complete_tally_sums_to_total_witness:
  "\<exists>files. tally_edge_files_bounded (\<lambda>xs. 2 + 20 * length xs) sample_callers sample_query = Some (files, False) \<and>
     map ft_refs files = [2, 1] \<and> sum_list (map ft_refs files) = int (count_edges sample_callers sample_query)"
proof -
  let ?r = "tally_edge_files_bounded (\<lambda>xs. 2 + 20 * length xs) sample_callers sample_query"
  have "map_option snd ?r = Some False" "map_option (\<lambda>r. map ft_refs (fst r)) ?r = Some [2, 1]" by code_simp+
  then obtain files where r: "?r = Some (files, False)" "map ft_refs files = [2, 1]" by auto
  have s: "sum_list (map ft_refs files) = int (count_edges sample_callers sample_query)"
    using complete_tally_sums_to_total [OF r(1)] by blast
  show ?thesis by (rule exI [of _ files], intro conjI r s)
qed

definition sample_impls :: store where
  "sample_impls = sample_callers\<lparr>edges := map edge_row
     [new_EdgeRecord ''1'' ''f'' ''g'' ''SUPERTYPE_OF'' ''tree-sitter'' False,
      new_EdgeRecord ''2'' ''f'' ''g'' ''SUPERTYPE_OF'' ''ts-compiler'' True]\<rparr>"

theorem other_endpoint_listed_once_witness:
  "map (\<lambda>en. e_id (fst en)) (edge_rows (sample_impls, \<lparr>q_anchor = ''f'', q_direction = Outgoing,
      q_kinds = [''SUPERTYPE_OF''], q_files = []\<rparr>, ''a.go'', OtherEndpoint)) = [''2''] \<and>
   distinct (map (\<lambda>en. other_endpoint Outgoing (fst en)) (edge_rows (sample_impls, \<lparr>q_anchor = ''f'',
      q_direction = Outgoing, q_kinds = [''SUPERTYPE_OF''], q_files = []\<rparr>, ''a.go'', OtherEndpoint)))"
proof -
  have k: "keyed e_id (edges sample_impls)" "keyed n_id (nodes sample_impls)" by code_simp+
  have q: "q_kinds \<lparr>q_anchor = ''f'', q_direction = Outgoing, q_kinds = [''SUPERTYPE_OF''], q_files = []\<rparr>
      = [''SUPERTYPE_OF'']" by simp
  have "map (\<lambda>en. e_id (fst en)) (edge_rows (sample_impls, \<lparr>q_anchor = ''f'', q_direction = Outgoing,
      q_kinds = [''SUPERTYPE_OF''], q_files = []\<rparr>, ''a.go'', OtherEndpoint)) = [''2'']" by code_simp
  with other_endpoint_listed_once [OF k q, of "''a.go''"] show ?thesis by simp
qed

theorem paginate_by_score_complete_witness:
  "follow_pages (paginate_by_score snd (\<lambda>i. if i = ''a'' then Some (5::int, ''a'') else Some (7, ''b'')) (\<lambda>_. False)
     [(''x'', 5, ''a''), (''y'', 7, ''b'')] 1) 3 None = Some [''y'', ''x'']"
  by (subst paginate_by_score_complete) simp_all

end
