(* ===== verification/Traversal.thy ===== *)
theory Traversal
  imports Pagination
begin

text \<open>
  \<^verbatim>\<open>core/src/graph/traversal.rs\<close> and the state of \<^verbatim>\<open>core/src/graph/resume_token.rs\<close>: a bounded walk of the
  graph in one recursive common table expression. SQLite runs it as a queue: a row is taken
  from the front, becomes part of the result, and the rows the recursive term derives from it
  join the back, until the queue is empty or LIMIT rows are out. The order in which the join
  yields the edges of one node is not specified by SQL and is the argument \<open>arrange\<close>. The text of
  a resume token (JSON, gzip, base64) is a pair of arguments.
\<close>

definition DEFAULT_MAX_DEPTH :: nat where "DEFAULT_MAX_DEPTH = 5"
definition DEFAULT_MAX_FANOUT :: nat where "DEFAULT_MAX_FANOUT = 50"
definition DEFAULT_EXPLORATION_BUDGET :: nat where "DEFAULT_EXPLORATION_BUDGET = 5000"

datatype TruncatedBy = MaxDepth | MaxFanout | ExplorationBudget

record TraversalOptions =
  start_node_id :: string
  t_direction :: Direction
  t_edge_kind :: "string option"
  t_max_depth :: nat
  t_max_fanout :: nat
  t_exploration_budget :: nat

definition new_TraversalOptions :: "string \<Rightarrow> Direction \<Rightarrow> TraversalOptions" where
  "new_TraversalOptions start d =
     \<lparr>start_node_id = start, t_direction = d, t_edge_kind = None, t_max_depth = DEFAULT_MAX_DEPTH,
      t_max_fanout = DEFAULT_MAX_FANOUT, t_exploration_budget = DEFAULT_EXPLORATION_BUDGET\<rparr>"

record VisitedNode =
  vn_id :: string
  vn_depth :: nat

record ResumeState =
  rst_direction :: Direction
  rst_edge_kind :: "string option"
  rst_max_depth :: nat
  rst_max_fanout :: nat
  rst_visited :: "VisitedNode list"
  rst_walked :: "string list"

record ReachedNode =
  rn_node :: NodeRecord
  rn_depth :: nat

record TraversalResult =
  tr_nodes :: "ReachedNode list"
  tr_edges :: "EdgeRecord list"
  visited_rows :: nat
  truncated :: bool
  truncated_by :: "TruncatedBy option"
  tr_frontier_nodes :: "string list"
  resume_token :: "string option"

section \<open>The recursive query\<close>

record WalkRow =
  w_node :: string
  w_edge :: "string option"
  w_depth :: nat
  w_path :: string

type_synonym arrangement = "EdgeRow list \<Rightarrow> EdgeRow list"

text \<open>\<^verbatim>\<open>instr (hay, needle) > 0\<close>.\<close>

fun contains_text :: "string \<Rightarrow> string \<Rightarrow> bool" where
  "contains_text [] needle \<longleftrightarrow> needle = []"
| "contains_text (c # cs) needle \<longleftrightarrow> starts_with (c # cs) needle \<or> contains_text cs needle"

text \<open>The shape of a walk: direction, kind, fan-out and depth limits.\<close>

type_synonym shape = "Direction \<times> string option \<times> nat \<times> nat"

definition kind_edges :: "store \<Rightarrow> shape \<Rightarrow> string \<Rightarrow> EdgeRow list" where
  "kind_edges st sh v = (case sh of (d, kind, fanout, depth) \<Rightarrow>
     filter (\<lambda>c. this_endpoint d c = v \<and> (case kind of None \<Rightarrow> True | Some k \<Rightarrow> e_kind c = k)) (edges st))"

definition chosen_ids :: "store \<Rightarrow> shape \<Rightarrow> string \<Rightarrow> string list" where
  "chosen_ids st sh v = (case sh of (d, kind, fanout, depth) \<Rightarrow>
     take fanout (map e_id (sort_key (\<lambda>c. (if e_resolved c then 0 else 1 :: nat, e_id c)) (kind_edges st sh v))))"

definition recursive_term ::
  "arrangement \<Rightarrow> store \<Rightarrow> shape \<Rightarrow> (WalkRow \<Rightarrow> EdgeRow \<Rightarrow> bool) \<Rightarrow> WalkRow \<Rightarrow> WalkRow list" where
  "recursive_term arrange st sh extra_filter w = (case sh of (d, kind, fanout, max_depth) \<Rightarrow>
     map (\<lambda>e. \<lparr>w_node = other_endpoint d e, w_edge = Some (e_id e), w_depth = w_depth w + 1,
                w_path = w_path w @ other_endpoint d e @ ''|''\<rparr>)
       (filter (\<lambda>e. w_depth w < max_depth \<and>
            \<not> contains_text (w_path w) (''|'' @ other_endpoint d e @ ''|'') \<and> extra_filter w e)
         (arrange (filter (\<lambda>e. e_id e \<in> set (chosen_ids st sh (w_node w))) (edges st)))))"

text \<open>The queue of the recursion, with \<open>LIMIT\<close> as the number of rows still wanted.\<close>

fun cte_loop :: "nat \<Rightarrow> ('r \<Rightarrow> 'r list) \<Rightarrow> 'r list \<Rightarrow> 'r list" where
  "cte_loop 0 step queue = []"
| "cte_loop (Suc n) step [] = []"
| "cte_loop (Suc n) step (r # queue) = r # cte_loop n step (queue @ step r)"

definition start_row :: "string \<Rightarrow> WalkRow" where
  "start_row start = \<lparr>w_node = start, w_edge = None, w_depth = 0, w_path = ''|'' @ start @ ''|''\<rparr>"

definition walk_cte :: "arrangement \<Rightarrow> store \<Rightarrow> shape \<Rightarrow> string \<Rightarrow> nat \<Rightarrow> WalkRow list" where
  "walk_cte arrange st sh start limit =
     cte_loop limit (recursive_term arrange st sh (\<lambda>_ _. True)) [start_row start]"

definition resume_filter :: "VisitedNode list \<Rightarrow> string list \<Rightarrow> WalkRow \<Rightarrow> EdgeRow \<Rightarrow> bool" where
  "resume_filter visited walked w e \<longleftrightarrow>
     (w_edge w = None \<or> w_node w \<notin> set (map vn_id visited)) \<and>
     (w_edge w \<noteq> None \<or> e_id e \<notin> set walked)"

definition resume_cte ::
  "arrangement \<Rightarrow> store \<Rightarrow> shape \<Rightarrow> VisitedNode list \<Rightarrow> string list \<Rightarrow> nat \<Rightarrow> WalkRow list" where
  "resume_cte arrange st sh visited walked limit =
     cte_loop limit (recursive_term arrange st sh (resume_filter visited walked))
       (map (\<lambda>v. \<lparr>w_node = vn_id v, w_edge = None, w_depth = vn_depth v, w_path = ''|'' @ vn_id v @ ''|''\<rparr>) visited)"

text \<open>The rows joined with their nodes and edges; a row whose node is not stored is dropped here.\<close>

definition left_join_edge :: "store \<Rightarrow> WalkRow \<Rightarrow> EdgeRecord option list" where
  "left_join_edge st w =
     (let es = filter (\<lambda>e. w_edge w = Some (e_id e)) (edges st)
      in if es = [] then [None] else map (\<lambda>e. Some (map_edge_row e)) es)"

definition walk_join :: "store \<Rightarrow> WalkRow \<Rightarrow> (NodeRecord \<times> nat \<times> EdgeRecord option) list" where
  "walk_join st w = concat (map (\<lambda>n. map (\<lambda>e. (map_node_row n, w_depth w, e)) (left_join_edge st w))
     (filter (\<lambda>n. n_id n = w_node w) (nodes st)))"

definition run_walk :: "store \<Rightarrow> WalkRow list \<Rightarrow> (NodeRecord \<times> nat \<times> EdgeRecord option) list" where
  "run_walk st rows =
     sort_key (\<lambda>(n, d, e). (d, nr_id n)) (concat (map (walk_join st) rows))"

definition analyze_cuts :: "store \<Rightarrow> shape \<Rightarrow> WalkRow list \<Rightarrow> bool \<times> bool" where
  "analyze_cuts st sh rows = (case sh of (d, kind, fanout, max_depth) \<Rightarrow>
     (list_ex (\<lambda>w. w_depth w < max_depth \<and> fanout < length (kind_edges st sh (w_node w))) rows,
      list_ex (\<lambda>w. w_depth w = max_depth \<and>
         list_ex (\<lambda>e. other_endpoint d e \<notin> set (map w_node rows)) (kind_edges st sh (w_node w))) rows))"

definition frontier_nodes :: "TruncatedBy option \<Rightarrow> VisitedNode list \<Rightarrow> nat \<Rightarrow> string list" where
  "frontier_nodes tb reached max_depth =
     (if tb = Some MaxDepth then map vn_id (filter (\<lambda>v. vn_depth v = max_depth) reached) else [])"

definition continuation :: "(ResumeState \<Rightarrow> string) \<Rightarrow> TruncatedBy option \<Rightarrow> ResumeState \<Rightarrow> string option" where
  "continuation enc tb s = (if tb = Some ExplorationBudget then Some (enc s) else None)"

definition why_truncated :: "bool \<Rightarrow> bool \<times> bool \<Rightarrow> TruncatedBy option" where
  "why_truncated spent cuts =
     (if spent then Some ExplorationBudget
      else if fst cuts then Some MaxFanout else if snd cuts then Some MaxDepth else None)"

text \<open>First occurrence of each node and of each edge, in row order.\<close>

fun first_nodes :: "string list \<Rightarrow> (NodeRecord \<times> nat \<times> EdgeRecord option) list \<Rightarrow> ReachedNode list" where
  "first_nodes seen [] = []"
| "first_nodes seen ((n, d, _) # rows) =
     (if nr_id n \<in> set seen then first_nodes seen rows
      else \<lparr>rn_node = n, rn_depth = d\<rparr> # first_nodes (nr_id n # seen) rows)"

fun first_edges :: "string list \<Rightarrow> (NodeRecord \<times> nat \<times> EdgeRecord option) list \<Rightarrow> EdgeRecord list" where
  "first_edges seen [] = []"
| "first_edges seen ((_, _, None) # rows) = first_edges seen rows"
| "first_edges seen ((_, _, Some e) # rows) =
     (if ed_id e \<in> set seen then first_edges seen rows else e # first_edges (ed_id e # seen) rows)"

definition shape_of :: "TraversalOptions \<Rightarrow> shape" where
  "shape_of o' = (t_direction o', t_edge_kind o', t_max_fanout o', t_max_depth o')"

definition as_visited :: "ReachedNode list \<Rightarrow> VisitedNode list" where
  "as_visited rs = map (\<lambda>r. \<lparr>vn_id = nr_id (rn_node r), vn_depth = rn_depth r\<rparr>) rs"

definition traverse ::
  "(ResumeState \<Rightarrow> string) \<Rightarrow> arrangement \<Rightarrow> store \<Rightarrow> TraversalOptions \<Rightarrow> TraversalResult" where
  "traverse enc arrange st o' =
     (let walk = walk_cte arrange st (shape_of o') (start_node_id o') (t_exploration_budget o');
          rows = run_walk st walk;
          ns = first_nodes [] rows;
          es = first_edges [] rows;
          visited = length rows;
          tb = why_truncated (t_exploration_budget o' \<le> visited) (analyze_cuts st (shape_of o') walk);
          reached = as_visited ns
      in \<lparr>tr_nodes = ns, tr_edges = es, visited_rows = visited, truncated = (tb \<noteq> None), truncated_by = tb,
          tr_frontier_nodes = frontier_nodes tb reached (t_max_depth o'),
          resume_token = continuation enc tb
            \<lparr>rst_direction = t_direction o', rst_edge_kind = t_edge_kind o', rst_max_depth = t_max_depth o',
             rst_max_fanout = t_max_fanout o', rst_visited = reached, rst_walked = map ed_id es\<rparr>\<rparr>)"

definition resume ::
  "(ResumeState \<Rightarrow> string) \<Rightarrow> (string \<Rightarrow> ResumeState option) \<Rightarrow> arrangement \<Rightarrow> store \<Rightarrow> string \<Rightarrow> nat
    \<Rightarrow> TraversalResult option" where
  "resume enc dec arrange st token budget =
     (case dec token of None \<Rightarrow> None
      | Some s \<Rightarrow>
          let sh = (rst_direction s, rst_edge_kind s, rst_max_fanout s, rst_max_depth s);
              limit = length (rst_visited s) + budget;
              walk = resume_cte arrange st sh (rst_visited s) (rst_walked s) limit;
              rows = filter (\<lambda>r. snd (snd r) \<noteq> None) (run_walk st walk);
              ns = first_nodes (map vn_id (rst_visited s)) rows;
              es = first_edges [] rows;
              visited = length rows;
              tb = why_truncated (budget \<le> visited) (analyze_cuts st sh walk);
              reached = sort_key (\<lambda>v. (vn_depth v, vn_id v)) (rst_visited s @ as_visited ns);
              walked = sort (rst_walked s @ map ed_id es)
          in Some \<lparr>tr_nodes = ns, tr_edges = es, visited_rows = visited, truncated = (tb \<noteq> None), truncated_by = tb,
                   tr_frontier_nodes = frontier_nodes tb reached (rst_max_depth s),
                   resume_token = continuation enc tb
                     \<lparr>rst_direction = rst_direction s, rst_edge_kind = rst_edge_kind s,
                      rst_max_depth = rst_max_depth s, rst_max_fanout = rst_max_fanout s,
                      rst_visited = reached, rst_walked = walked\<rparr>\<rparr>)"

section \<open>The queue\<close>

lemma cte_loop_length: "length (cte_loop n step q) \<le> n"
  by (induction n step q rule: cte_loop.induct) auto

lemma cte_loop_complete:
  assumes "length (cte_loop n step q) < n"
  shows "set q \<subseteq> set (cte_loop n step q) \<and>
    (\<forall>r\<in>set (cte_loop n step q). set (step r) \<subseteq> set (cte_loop n step q))"
  using assms
proof (induction n step q rule: cte_loop.induct)
  case (3 n step r queue)
  then have IH: "set (queue @ step r) \<subseteq> set (cte_loop n step (queue @ step r))"
    "\<forall>x\<in>set (cte_loop n step (queue @ step r)). set (step x) \<subseteq> set (cte_loop n step (queue @ step r))"
    by auto
  then show ?case by auto
qed auto

lemma cte_loop_parent:
  "r \<in> set (cte_loop n step q) \<Longrightarrow> r \<in> set q \<or> (\<exists>p\<in>set (cte_loop n step q). r \<in> set (step p))"
  by (induction n step q rule: cte_loop.induct) auto

lemma cte_loop_induct:
  assumes "\<forall>x\<in>set q. P x"
    and "\<forall>x\<in>set (cte_loop n step q). P x \<longrightarrow> (\<forall>y\<in>set (step x). P y)"
  shows "\<forall>x\<in>set (cte_loop n step q). P x"
  using assms
proof (induction n step q rule: cte_loop.induct)
  case (3 n step x queue)
  have x: "P x" using "3.prems"(1) by simp
  have sets: "set (cte_loop (Suc n) step (x # queue)) = insert x (set (cte_loop n step (queue @ step x)))"
    by simp
  have "\<forall>y\<in>set (queue @ step x). P y"
    using "3.prems" x unfolding sets set_append list.set by blast
  moreover have "\<forall>z\<in>set (cte_loop n step (queue @ step x)). P z \<longrightarrow> (\<forall>y\<in>set (step z). P y)"
    using "3.prems"(2) unfolding sets by blast
  ultimately have "\<forall>z\<in>set (cte_loop n step (queue @ step x)). P z" by (rule "3.IH")
  with x show ?case by simp
qed simp_all

section \<open>The path column\<close>

definition path_text :: "string list \<Rightarrow> string" where
  "path_text ids = CHR ''|'' # concat (map (\<lambda>x. x @ ''|'') ids)"

definition bar_free :: "string \<Rightarrow> bool" where
  "bar_free x \<longleftrightarrow> CHR ''|'' \<notin> set x"

lemma path_text_snoc: "path_text ids @ v @ ''|'' = path_text (ids @ [v])"
  by (simp add: path_text_def)

lemma path_text_single: "CHR ''|'' # v @ ''|'' = path_text [v]"
  by (simp add: path_text_def)

lemma contains_text_iff: "contains_text hay needle \<longleftrightarrow> (\<exists>p s. hay = p @ needle @ s)"
proof (induction hay)
  case (Cons c cs)
  show ?case
  proof
    assume "contains_text (c # cs) needle"
    then consider s where "c # cs = needle @ s" | "contains_text cs needle"
      by (auto simp: starts_with_iff)
    then show "\<exists>p s. c # cs = p @ needle @ s"
    proof cases
      case 1
      then have "c # cs = [] @ needle @ s" by simp
      then show ?thesis by blast
    next
      case 2
      then obtain p s where "cs = p @ needle @ s" using Cons by blast
      then have "c # cs = (c # p) @ needle @ s" by simp
      then show ?thesis by blast
    qed
  next
    assume "\<exists>p s. c # cs = p @ needle @ s"
    then obtain p s where ps: "c # cs = p @ needle @ s" by blast
    show "contains_text (c # cs) needle"
    proof (cases p)
      case Nil
      then have "starts_with (c # cs) needle" using ps unfolding starts_with_iff by simp
      then show ?thesis by simp
    next
      case (Cons c' p')
      then have "cs = p' @ needle @ s" using ps by simp
      then show ?thesis using \<open>contains_text cs needle = _\<close> by simp blast
    qed
  qed
qed auto

lemma bar_split:
  assumes "bar_free a" "bar_free v" "a @ CHR ''|'' # x = v @ CHR ''|'' # y"
  shows "a = v"
proof -
  have "takeWhile (\<lambda>c. c \<noteq> CHR ''|'') (a @ CHR ''|'' # x) = a"
    using assms(1) by (induction a) (auto simp: bar_free_def)
  moreover have "takeWhile (\<lambda>c. c \<noteq> CHR ''|'') (v @ CHR ''|'' # y) = v"
    using assms(2) by (induction v) (auto simp: bar_free_def)
  ultimately show ?thesis using assms(3) by simp
qed

lemma path_text_contains:
  assumes "\<forall>x\<in>set ids. bar_free x" "bar_free v" "contains_text (path_text ids) (''|'' @ v @ ''|'')"
  shows "v \<in> set ids"
proof -
  obtain p s where "path_text ids = p @ CHR ''|'' # v @ CHR ''|'' # s"
    using assms(3) unfolding contains_text_iff by auto
  then show ?thesis using assms(1)
  proof (induction ids arbitrary: p)
    case Nil
    then show ?case by (cases p) (auto simp: path_text_def)
  next
    case (Cons a ids)
    show ?case
    proof (cases p)
      case Nil
      then have "a @ CHR ''|'' # concat (map (\<lambda>x. x @ ''|'') ids) = v @ CHR ''|'' # s"
        using Cons.prems(1) by (simp add: path_text_def)
      then have "a = v" using bar_split Cons.prems(2) assms(2) by auto
      then show ?thesis by simp
    next
      case (Cons b p')
      then have eq: "a @ path_text ids = p' @ CHR ''|'' # v @ CHR ''|'' # s"
        using Cons.prems(1) by (auto simp: path_text_def)
      have "length a \<le> length p'"
      proof (rule ccontr)
        assume "\<not> length a \<le> length p'"
        then have "(a @ path_text ids) ! length p' = a ! length p'" "length p' < length a"
          by (simp_all add: nth_append)
        moreover have "(a @ path_text ids) ! length p' = CHR ''|''" using eq by simp
        ultimately have "CHR ''|'' \<in> set a" by (metis nth_mem)
        then show False using Cons.prems(2) by (simp add: bar_free_def)
      qed
      then obtain p'' where "p' = a @ p''"
        using eq by (metis append_eq_append_conv_if append_take_drop_id)
      with eq have "path_text ids = p'' @ CHR ''|'' # v @ CHR ''|'' # s" by simp
      then show ?thesis using Cons.IH Cons.prems(2) by simp
    qed
  qed
qed

section \<open>What a walk reaches\<close>

inductive hops :: "store \<Rightarrow> Direction \<Rightarrow> string option \<Rightarrow> string \<Rightarrow> nat \<Rightarrow> string \<Rightarrow> bool"
  for st :: store and d :: Direction and kind :: "string option" and start :: string where
  hops_0: "hops st d kind start 0 start"
| hops_Suc: "hops st d kind start n u \<Longrightarrow> e \<in> set (edges st) \<Longrightarrow> this_endpoint d e = u \<Longrightarrow>
     (case kind of None \<Rightarrow> True | Some k \<Rightarrow> e_kind e = k) \<Longrightarrow>
     hops st d kind start (Suc n) (other_endpoint d e)"

inductive_cases hops_SucE: "hops st d kind start (Suc n) v"
inductive_cases hops_0E: "hops st d kind start 0 v"

text \<open>The join may yield its rows in any order.\<close>

definition arranges :: "arrangement \<Rightarrow> bool" where
  "arranges arrange \<longleftrightarrow> (\<forall>es. set (arrange es) = set es)"

lemma kind_edges_iff:
  "e \<in> set (kind_edges st (d, kind, f, m) v) \<longleftrightarrow>
     e \<in> set (edges st) \<and> this_endpoint d e = v \<and> (case kind of None \<Rightarrow> True | Some k \<Rightarrow> e_kind e = k)"
  by (auto simp: kind_edges_def)

lemma chosen_edges:
  assumes "keyed e_id (edges st)" "e \<in> set (edges st)" "e_id e \<in> set (chosen_ids st (d, kind, f, m) v)"
  shows "e \<in> set (kind_edges st (d, kind, f, m) v)"
proof -
  have "e_id e \<in> e_id ` set (kind_edges st (d, kind, f, m) v)"
    using assms(3) unfolding chosen_ids_def by (auto dest!: in_set_takeD)
  then obtain c where c: "c \<in> set (kind_edges st (d, kind, f, m) v)" "e_id c = e_id e" by auto
  then have "c \<in> set (edges st)" by (simp add: kind_edges_iff)
  with assms(1,2) c(2) have "c = e" by (blast dest: keyed_inj)
  with c show ?thesis by simp
qed

lemma chosen_all:
  assumes "length (kind_edges st (d, kind, f, m) v) \<le> f"
  shows "set (chosen_ids st (d, kind, f, m) v) = e_id ` set (kind_edges st (d, kind, f, m) v)"
  using assms by (simp add: chosen_ids_def)

lemma recursive_term_rows:
  assumes "keyed e_id (edges st)" "arranges arrange"
    and "y \<in> set (recursive_term arrange st (d, kind, f, m) flt w)"
  obtains e where "e \<in> set (kind_edges st (d, kind, f, m) (w_node w))" "flt w e" "w_depth w < m"
    "w_node y = other_endpoint d e" "w_edge y = Some (e_id e)" "w_depth y = Suc (w_depth w)"
    "w_path y = w_path w @ other_endpoint d e @ ''|''"
    "\<not> contains_text (w_path w) (''|'' @ other_endpoint d e @ ''|'')"
proof -
  let ?pick = "filter (\<lambda>e. e_id e \<in> set (chosen_ids st (d, kind, f, m) (w_node w))) (edges st)"
  have A: "set (arrange ?pick) = set ?pick" using assms(2) unfolding arranges_def by blast
  obtain e where e: "e \<in> set (arrange ?pick)" "w_depth w < m"
    "\<not> contains_text (w_path w) (''|'' @ other_endpoint d e @ ''|'')" "flt w e"
    "y = \<lparr>w_node = other_endpoint d e, w_edge = Some (e_id e), w_depth = w_depth w + 1,
          w_path = w_path w @ other_endpoint d e @ ''|''\<rparr>"
    using assms(3) unfolding recursive_term_def by auto
  have "e \<in> set (kind_edges st (d, kind, f, m) (w_node w))"
    using e(1) assms(1) chosen_edges unfolding A by auto
  then show ?thesis using e(2-5) by (intro that [of e]) simp_all
qed

lemma recursive_term_covers:
  assumes "arranges arrange" "length (kind_edges st (d, kind, f, m) (w_node w)) \<le> f" "w_depth w < m"
    and "e \<in> set (kind_edges st (d, kind, f, m) (w_node w))"
    and "\<not> contains_text (w_path w) (''|'' @ other_endpoint d e @ ''|'')"
  obtains y where "y \<in> set (recursive_term arrange st (d, kind, f, m) (\<lambda>_ _. True) w)"
    "w_node y = other_endpoint d e" "w_depth y = Suc (w_depth w)"
proof -
  let ?pick = "filter (\<lambda>e. e_id e \<in> set (chosen_ids st (d, kind, f, m) (w_node w))) (edges st)"
  let ?y = "\<lparr>w_node = other_endpoint d e, w_edge = Some (e_id e), w_depth = w_depth w + 1,
          w_path = w_path w @ other_endpoint d e @ ''|''\<rparr>"
  have A: "set (arrange ?pick) = set ?pick" using assms(1) unfolding arranges_def by blast
  have "e \<in> set ?pick" using assms(4) by (simp add: chosen_all [OF assms(2)] kind_edges_iff)
  then have "?y \<in> set (recursive_term arrange st (d, kind, f, m) (\<lambda>_ _. True) w)"
    using assms(3,5) A unfolding recursive_term_def by simp
  then show ?thesis by (rule that) simp_all
qed

lemma walk_induct:
  assumes "P (start_row start)"
    and "\<And>w y. w \<in> set (walk_cte arrange st sh start limit) \<Longrightarrow> P w \<Longrightarrow>
      y \<in> set (recursive_term arrange st sh (\<lambda>_ _. True) w) \<Longrightarrow> P y"
  shows "\<forall>w\<in>set (walk_cte arrange st sh start limit). P w"
  unfolding walk_cte_def
proof (rule cte_loop_induct; intro ballI impI)
  fix w assume "w \<in> set [start_row start]"
  then show "P w" using assms(1) by simp
next
  fix w y
  assume "w \<in> set (cte_loop limit (recursive_term arrange st sh (\<lambda>_ _. True)) [start_row start])" "P w"
    "y \<in> set (recursive_term arrange st sh (\<lambda>_ _. True) w)"
  then show "P y" by (rule assms(2) [unfolded walk_cte_def])
qed

lemma walk_complete:
  assumes "length (walk_cte arrange st sh start limit) < limit"
  shows "start_row start \<in> set (walk_cte arrange st sh start limit)"
    and "w \<in> set (walk_cte arrange st sh start limit) \<Longrightarrow>
      set (recursive_term arrange st sh (\<lambda>_ _. True) w) \<subseteq> set (walk_cte arrange st sh start limit)"
  using cte_loop_complete [OF assms [unfolded walk_cte_def]] unfolding walk_cte_def by simp_all

lemma walk_sound:
  assumes "keyed e_id (edges st)" "arranges arrange"
  shows "\<forall>w\<in>set (walk_cte arrange st (d, kind, f, m) start limit).
    hops st d kind start (w_depth w) (w_node w) \<and> w_depth w \<le> m"
proof (rule walk_induct)
  fix w y
  assume w: "hops st d kind start (w_depth w) (w_node w) \<and> w_depth w \<le> m"
    and y: "y \<in> set (recursive_term arrange st (d, kind, f, m) (\<lambda>_ _. True) w)"
  from assms y obtain e where e: "e \<in> set (kind_edges st (d, kind, f, m) (w_node w))" "w_depth w < m"
    "w_node y = other_endpoint d e" "w_depth y = Suc (w_depth w)"
    by (rule recursive_term_rows)
  have "hops st d kind start (Suc (w_depth w)) (other_endpoint d e)"
    using w e(1) by (auto simp: kind_edges_iff intro: hops_Suc)
  then show "hops st d kind start (w_depth y) (w_node y) \<and> w_depth y \<le> m" using e by simp
qed (auto simp: start_row_def intro: hops_0)

text \<open>The rows of the nodes a path names are out when the path is.\<close>

definition path_known :: "WalkRow set \<Rightarrow> WalkRow \<Rightarrow> bool" where
  "path_known R w \<longleftrightarrow> w \<in> R \<and>
     (\<exists>ids. w_path w = path_text ids \<and>
        (\<forall>x\<in>set ids. bar_free x \<and> (\<exists>r\<in>R. w_node r = x \<and> w_depth r \<le> w_depth w)))"

lemma path_known_seed:
  assumes "start_row start \<in> R" "bar_free start"
  shows "path_known R (start_row start)"
proof -
  have "w_path (start_row start) = path_text [start]" by (simp add: start_row_def path_text_single)
  moreover have "\<exists>r\<in>R. w_node r = start \<and> w_depth r \<le> w_depth (start_row start)"
    using assms(1) by (intro bexI [of _ "start_row start"]) (simp_all add: start_row_def)
  ultimately show ?thesis using assms unfolding path_known_def
    by (intro conjI exI [of _ "[start]"]) simp_all
qed

lemma path_known_step:
  assumes w: "path_known R w" and y: "y \<in> R" "w_path y = w_path w @ w_node y @ ''|''"
    "w_depth y = Suc (w_depth w)" "bar_free (w_node y)"
  shows "path_known R y"
proof -
  obtain ids where ids: "w_path w = path_text ids"
    "\<And>x. x \<in> set ids \<Longrightarrow> bar_free x" "\<And>x. x \<in> set ids \<Longrightarrow> \<exists>r\<in>R. w_node r = x \<and> w_depth r \<le> w_depth w"
    using w unfolding path_known_def by blast
  have "w_path y = path_text (ids @ [w_node y])" using y(2) ids(1) path_text_snoc by simp
  moreover have "bar_free x \<and> (\<exists>r\<in>R. w_node r = x \<and> w_depth r \<le> w_depth y)"
    if x: "x \<in> set (ids @ [w_node y])" for x
  proof (cases "x = w_node y")
    case True
    then show ?thesis using y by auto
  next
    case False
    then have "x \<in> set ids" using x by simp
    then obtain r where "r \<in> R" "w_node r = x" "w_depth r \<le> w_depth w" using ids(3) by blast
    then show ?thesis using ids(2) \<open>x \<in> set ids\<close> y(3) by (auto intro!: bexI [of _ r])
  qed
  ultimately show ?thesis using y(1) unfolding path_known_def by blast
qed

lemma path_known_contains:
  assumes "path_known R w" "bar_free v" "contains_text (w_path w) (''|'' @ v @ ''|'')"
  obtains r where "r \<in> R" "w_node r = v" "w_depth r \<le> w_depth w"
  using assms path_text_contains unfolding path_known_def by metis

text \<open>A walk that was not cut by its budget, over an index whose ids have no bar.\<close>

definition whole_walk :: "arrangement \<Rightarrow> store \<Rightarrow> shape \<Rightarrow> string \<Rightarrow> nat \<Rightarrow> bool" where
  "whole_walk arrange st sh start limit \<longleftrightarrow> keyed e_id (edges st) \<and> arranges arrange \<and> bar_free start \<and>
     (\<forall>e\<in>set (edges st). bar_free (other_endpoint (fst sh) e)) \<and>
     length (walk_cte arrange st sh start limit) < limit"

lemma walk_paths:
  assumes ok: "whole_walk arrange st (d, kind, f, m) start limit"
    and R: "R = set (walk_cte arrange st (d, kind, f, m) start limit)"
  shows "\<forall>w\<in>R. path_known R w"
  unfolding R
proof (rule walk_induct)
  note facts = ok [unfolded whole_walk_def fst_conv]
  note whole = walk_complete [of arrange st "(d, kind, f, m)" start limit, folded R]
  show "path_known (set (walk_cte arrange st (d, kind, f, m) start limit)) (start_row start)"
    using facts whole(1) unfolding R by (blast intro: path_known_seed)
  fix w y
  assume "w \<in> set (walk_cte arrange st (d, kind, f, m) start limit)"
    and "path_known (set (walk_cte arrange st (d, kind, f, m) start limit)) w"
    and y: "y \<in> set (recursive_term arrange st (d, kind, f, m) (\<lambda>_ _. True) w)"
  then have w: "w \<in> R" "path_known R w" unfolding R by simp_all
  from facts y obtain e where e: "e \<in> set (kind_edges st (d, kind, f, m) (w_node w))"
    "w_node y = other_endpoint d e" "w_depth y = Suc (w_depth w)"
    "w_path y = w_path w @ other_endpoint d e @ ''|''"
    by (elim conjE recursive_term_rows)
  have "y \<in> R" using facts whole(2) w(1) y by blast
  moreover have "bar_free (w_node y)" using e facts by (simp add: kind_edges_iff)
  ultimately show "path_known (set (walk_cte arrange st (d, kind, f, m) start limit)) y"
    using e w(2) unfolding R by (intro path_known_step [of _ w y]) simp_all
qed

lemma walk_step_covers:
  assumes ok: "whole_walk arrange st (d, kind, f, m) start limit"
    and R: "R = set (walk_cte arrange st (d, kind, f, m) start limit)"
    and w: "w \<in> R" "w_depth w < m" "length (kind_edges st (d, kind, f, m) (w_node w)) \<le> f"
    and e: "e \<in> set (kind_edges st (d, kind, f, m) (w_node w))"
  shows "\<exists>r\<in>R. w_node r = other_endpoint d e \<and> w_depth r \<le> Suc (w_depth w)"
proof (cases "contains_text (w_path w) (''|'' @ other_endpoint d e @ ''|'')")
  case True
  have "bar_free (other_endpoint d e)" using ok e unfolding whole_walk_def by (simp add: kind_edges_iff)
  moreover have "path_known R w" using walk_paths [OF ok R] w(1) by blast
  ultimately obtain r where "r \<in> R" "w_node r = other_endpoint d e" "w_depth r \<le> w_depth w"
    using True path_known_contains by blast
  then show ?thesis by (auto intro!: bexI [of _ r])
next
  case False
  obtain y where "y \<in> set (recursive_term arrange st (d, kind, f, m) (\<lambda>_ _. True) w)"
    "w_node y = other_endpoint d e" "w_depth y = Suc (w_depth w)"
    using recursive_term_covers [OF _ w(3,2) e False] ok unfolding whole_walk_def by blast
  moreover have "set (recursive_term arrange st (d, kind, f, m) (\<lambda>_ _. True) w) \<subseteq> R"
    using walk_complete(2) ok w(1) unfolding whole_walk_def R by blast
  ultimately show ?thesis by (auto intro!: bexI [of _ y])
qed

lemma walk_covers:
  assumes ok: "whole_walk arrange st (d, kind, f, m) start limit"
    and R: "R = set (walk_cte arrange st (d, kind, f, m) start limit)"
    and fan: "\<forall>w\<in>R. w_depth w < m \<longrightarrow> length (kind_edges st (d, kind, f, m) (w_node w)) \<le> f"
  shows "hops st d kind start n v \<Longrightarrow> n \<le> m \<Longrightarrow> \<exists>w\<in>R. w_node w = v \<and> w_depth w \<le> n"
proof (induction rule: hops.induct)
  case hops_0
  have "start_row start \<in> R" using walk_complete(1) ok unfolding R whole_walk_def by blast
  then show ?case by (intro bexI [of _ "start_row start"]) (simp_all add: start_row_def)
next
  case (hops_Suc n u e)
  then obtain w where w: "w \<in> R" "w_node w = u" "w_depth w \<le> n" by auto
  with hops_Suc have e: "e \<in> set (kind_edges st (d, kind, f, m) (w_node w))" by (simp add: kind_edges_iff)
  have "w_depth w < m" using w(3) hops_Suc.prems by simp
  then obtain r where "r \<in> R" "w_node r = other_endpoint d e" "w_depth r \<le> Suc (w_depth w)"
    using walk_step_covers [OF ok R w(1) _ _ e] fan w(1) by blast
  then show ?case using w(3) by (auto intro!: bexI [of _ r])
qed

lemma walk_closed:
  assumes ok: "whole_walk arrange st (d, kind, f, m) start limit"
    and R: "R = set (walk_cte arrange st (d, kind, f, m) start limit)"
    and fan: "\<forall>w\<in>R. w_depth w < m \<longrightarrow> length (kind_edges st (d, kind, f, m) (w_node w)) \<le> f"
    and deep: "\<forall>w\<in>R. w_depth w = m \<longrightarrow>
      (\<forall>e\<in>set (kind_edges st (d, kind, f, m) (w_node w)). other_endpoint d e \<in> w_node ` R)"
  shows "hops st d kind start n v \<Longrightarrow> v \<in> w_node ` R"
proof (induction rule: hops.induct)
  case hops_0
  have "start_row start \<in> R" using walk_complete(1) ok unfolding R whole_walk_def by blast
  then show ?case by (intro image_eqI [of _ _ "start_row start"]) (simp_all add: start_row_def)
next
  case (hops_Suc n u e)
  then obtain w where w: "w \<in> R" "w_node w = u" by auto
  with hops_Suc have e: "e \<in> set (kind_edges st (d, kind, f, m) (w_node w))" by (simp add: kind_edges_iff)
  have "w_depth w \<le> m" using walk_sound ok w(1) unfolding R whole_walk_def by blast
  then consider "w_depth w < m" | "w_depth w = m" by linarith
  then show ?case
  proof cases
    case 1
    then obtain r where "r \<in> R" "w_node r = other_endpoint d e"
      using walk_step_covers [OF ok R w(1) _ _ e] fan w(1) by blast
    then show ?thesis by (metis imageI)
  next
    case 2
    then show ?thesis using deep w(1) e by blast
  qed
qed

section \<open>From rows to results\<close>

lemma left_join_edge_Some: "Some e \<in> set (left_join_edge st w) \<Longrightarrow> w_edge w = Some (ed_id e)"
  by (auto simp: left_join_edge_def map_edge_row_def Let_def split: if_splits)

lemma walk_join_in:
  "(n, d, e) \<in> set (walk_join st w) \<longleftrightarrow>
     (\<exists>r\<in>set (nodes st). n_id r = w_node w \<and> n = map_node_row r) \<and> d = w_depth w \<and> e \<in> set (left_join_edge st w)"
  by (auto simp: walk_join_def)

lemma left_join_edge_not_Nil: "left_join_edge st w \<noteq> []"
  by (simp add: left_join_edge_def Let_def)

lemma walk_join_stored: "w_node w \<in> n_id ` set (nodes st) \<Longrightarrow> 0 < length (walk_join st w)"
  using left_join_edge_not_Nil by (force simp: walk_join_def filter_empty_conv)

lemma run_walk_in: "(n, d, e) \<in> set (run_walk st rows) \<longleftrightarrow> (\<exists>w\<in>set rows. (n, d, e) \<in> set (walk_join st w))"
  by (simp add: run_walk_def)

lemma sorted_fst: "sorted (map (\<lambda>x. (f x :: nat, g x :: string)) xs) \<Longrightarrow> sorted (map f xs)"
  by (induction xs) (auto simp: less_eq_prod_def)

lemma run_walk_sorted: "sorted (map (\<lambda>(n, d, e). d) (run_walk st rows))"
proof -
  have "sorted (map (\<lambda>x. ((\<lambda>(n, d, e). d) x, (\<lambda>(n, d, e). nr_id n) x)) (run_walk st rows))"
    unfolding run_walk_def by (simp add: case_prod_unfold)
  then show ?thesis by (rule sorted_fst)
qed

lemma run_walk_length:
  assumes "\<forall>w\<in>set rows. w_node w \<in> n_id ` set (nodes st)"
  shows "length rows \<le> length (run_walk st rows)"
proof -
  have "length rows \<le> length (concat (map (walk_join st) rows))"
    using assms
  proof (induction rows)
    case (Cons w rows)
    then have "0 < length (walk_join st w)" using walk_join_stored by simp
    moreover have "length rows \<le> length (concat (map (walk_join st) rows))" using Cons by simp
    ultimately show ?case unfolding list.map concat.simps length_append list.size by linarith
  qed simp
  then show ?thesis by (simp add: run_walk_def)
qed

lemma first_nodes_distinct:
  "distinct (map (nr_id \<circ> rn_node) (first_nodes seen rows)) \<and>
   set (map (nr_id \<circ> rn_node) (first_nodes seen rows)) = (nr_id \<circ> fst) ` set rows - set seen"
  by (induction seen rows rule: first_nodes.induct) auto

lemma first_nodes_least:
  assumes "sorted (map (\<lambda>(n, d, e). d) rows)" "r \<in> set (first_nodes seen rows)"
  shows "(\<exists>e. (rn_node r, rn_depth r, e) \<in> set rows) \<and>
    (\<forall>(n, d, e) \<in> set rows. nr_id n = nr_id (rn_node r) \<longrightarrow> rn_depth r \<le> d)"
  using assms
proof (induction seen rows rule: first_nodes.induct)
  case (2 seen n d e rows)
  show ?case
  proof (cases "nr_id n \<in> set seen")
    case True
    have "nr_id (rn_node r) \<notin> set seen" 
      using "2.prems"(2) first_nodes_distinct [of seen "(n, d, e) # rows"] by auto
    then show ?thesis using 2 True by auto
  next
    case False
    show ?thesis
    proof (cases "r = \<lparr>rn_node = n, rn_depth = d\<rparr>")
      case True
      then show ?thesis using "2.prems"(1) by auto
    next
      case neq: False
      then have r: "r \<in> set (first_nodes (nr_id n # seen) rows)" using "2.prems"(2) False by auto
      then have "nr_id (rn_node r) \<noteq> nr_id n"
        using first_nodes_distinct [of "nr_id n # seen" rows] by auto
      then show ?thesis using "2.IH"(2) [OF False _ r] "2.prems"(1) by auto
    qed
  qed
qed simp

lemma nr_id_map_node_row [simp]: "nr_id (map_node_row r) = n_id r"
  by (simp add: map_node_row_def)

lemma run_walk_ids:
  "(\<exists>n e. (n, d, e) \<in> set (run_walk st rows) \<and> nr_id n = v) \<longleftrightarrow>
     v \<in> n_id ` set (nodes st) \<and> (\<exists>w\<in>set rows. w_node w = v \<and> w_depth w = d)"
  (is "?L \<longleftrightarrow> ?R")
proof
  assume ?L
  then obtain w r where "w \<in> set rows" "r \<in> set (nodes st)" "n_id r = w_node w" "d = w_depth w" "v = n_id r"
    unfolding run_walk_in walk_join_in by auto
  then show ?R by (metis imageI)
next
  assume ?R
  then obtain r w where w: "r \<in> set (nodes st)" "n_id r = v" "w \<in> set rows" "w_node w = v" "w_depth w = d"
    by auto
  obtain e where "e \<in> set (left_join_edge st w)"
    using left_join_edge_not_Nil [of st w] by (cases "left_join_edge st w") auto
  with w have "(map_node_row r, d, e) \<in> set (run_walk st rows)"
    unfolding run_walk_in walk_join_in by (intro bexI [of _ w] conjI bexI [of _ r]) simp_all
  then show ?L using w(2) by auto
qed

text \<open>The nodes of a result with their depths: each id once, at the least depth of its rows.\<close>

lemma first_nodes_run_walk:
  "(\<exists>r\<in>set (first_nodes [] (run_walk st rows)). nr_id (rn_node r) = v \<and> rn_depth r = k) \<longleftrightarrow>
     v \<in> n_id ` set (nodes st) \<and> (\<exists>w\<in>set rows. w_node w = v \<and> w_depth w = k) \<and>
     (\<forall>w\<in>set rows. w_node w = v \<longrightarrow> k \<le> w_depth w)"
  (is "?L \<longleftrightarrow> ?R")
proof
  assume ?L
  then obtain r where r: "r \<in> set (first_nodes [] (run_walk st rows))" "nr_id (rn_node r) = v" "rn_depth r = k"
    by blast
  obtain e where "(rn_node r, k, e) \<in> set (run_walk st rows)"
    and least: "\<And>n d e. (n, d, e) \<in> set (run_walk st rows) \<Longrightarrow> nr_id n = v \<Longrightarrow> k \<le> d"
    using first_nodes_least [OF run_walk_sorted r(1)] r(2,3) by blast
  then have v: "v \<in> n_id ` set (nodes st)" "\<exists>w\<in>set rows. w_node w = v \<and> w_depth w = k"
    using run_walk_ids [of k st rows v] r(2) by blast+
  have "k \<le> w_depth w" if "w \<in> set rows" "w_node w = v" for w
    using run_walk_ids [of "w_depth w" st rows v] that v(1) least by blast
  then show ?R using v by blast
next
  assume R: ?R
  then obtain n e where "(n, k, e) \<in> set (run_walk st rows)" "nr_id n = v"
    using run_walk_ids [of k st rows v] by blast
  then have "v \<in> (nr_id \<circ> fst) ` set (run_walk st rows)"
    by (auto intro!: image_eqI [of _ _ "(n, k, e)"])
  then have "v \<in> set (map (nr_id \<circ> rn_node) (first_nodes [] (run_walk st rows)))"
    using first_nodes_distinct [of "[]" "run_walk st rows"] by simp
  then obtain r where r: "r \<in> set (first_nodes [] (run_walk st rows))" "nr_id (rn_node r) = v" by auto
  obtain e' where e': "(rn_node r, rn_depth r, e') \<in> set (run_walk st rows)"
    and least: "\<And>n d e. (n, d, e) \<in> set (run_walk st rows) \<Longrightarrow> nr_id n = v \<Longrightarrow> rn_depth r \<le> d"
    using first_nodes_least [OF run_walk_sorted r(1)] r(2) by blast
  have "rn_depth r \<le> k" using least \<open>(n, k, e) \<in> _\<close> \<open>nr_id n = v\<close> by blast
  moreover obtain w where "w \<in> set rows" "w_node w = v" "w_depth w = rn_depth r"
    using e' r(2) run_walk_ids [of "rn_depth r" st rows v] by blast
  then have "k \<le> rn_depth r" using R by metis
  ultimately have "rn_depth r = k" by simp
  then show ?L using r by blast
qed

text \<open>What the theorem about a traversal asks of the index: unique keys, ids without a bar, the
  start node and the far end of every edge stored.\<close>

definition walkable :: "store \<Rightarrow> TraversalOptions \<Rightarrow> bool" where
  "walkable st o' \<longleftrightarrow> keyed e_id (edges st) \<and>
     start_node_id o' \<in> n_id ` set (nodes st) \<and> bar_free (start_node_id o') \<and>
     list_all (\<lambda>e. other_endpoint (t_direction o') e \<in> n_id ` set (nodes st) \<and>
        bar_free (other_endpoint (t_direction o') e)) (edges st)"

lemma hops_stored:
  assumes "hops st d kind start n v" "start \<in> n_id ` set (nodes st)"
    "\<forall>e\<in>set (edges st). other_endpoint d e \<in> n_id ` set (nodes st)"
  shows "v \<in> n_id ` set (nodes st)"
  using assms by (induction rule: hops.induct) auto

lemma traverse_whole_walk:
  assumes ok: "walkable st o'" "arranges arrange"
    and tb: "truncated_by (traverse enc arrange st o') \<noteq> Some ExplorationBudget"
  shows "whole_walk arrange st (shape_of o') (start_node_id o') (t_exploration_budget o')"
    and "why_truncated False (analyze_cuts st (shape_of o')
      (walk_cte arrange st (shape_of o') (start_node_id o') (t_exploration_budget o')))
      = truncated_by (traverse enc arrange st o')"
proof -
  let ?walk = "walk_cte arrange st (shape_of o') (start_node_id o') (t_exploration_budget o')"
  have ends: "\<forall>e\<in>set (edges st). other_endpoint (t_direction o') e \<in> n_id ` set (nodes st)"
    using ok(1) unfolding walkable_def list_all_iff by blast
  have stored: "\<forall>w\<in>set ?walk. w_node w \<in> n_id ` set (nodes st)"
    using walk_sound [of st arrange "t_direction o'" "t_edge_kind o'" "t_max_fanout o'" "t_max_depth o'"
        "start_node_id o'" "t_exploration_budget o'", folded shape_of_def]
      hops_stored [OF _ _ ends] ok unfolding walkable_def by blast
  have spent: "length (run_walk st ?walk) < t_exploration_budget o'"
  proof (rule ccontr)
    assume "\<not> ?thesis"
    then show False using tb by (simp add: traverse_def Let_def why_truncated_def)
  qed
  then show "why_truncated False (analyze_cuts st (shape_of o') ?walk) = truncated_by (traverse enc arrange st o')"
    by (simp add: traverse_def Let_def why_truncated_def)
  show "whole_walk arrange st (shape_of o') (start_node_id o') (t_exploration_budget o')"
    using ok spent run_walk_length [OF stored] unfolding whole_walk_def walkable_def list_all_iff shape_of_def fst_conv
    by auto
qed

lemma traverse_walk:
  assumes ok: "walkable st o'" "arranges arrange"
    and tb: "truncated_by (traverse enc arrange st o') \<noteq> Some ExplorationBudget"
      "truncated_by (traverse enc arrange st o') \<noteq> Some MaxFanout"
    and R: "R = set (walk_cte arrange st (shape_of o') (start_node_id o') (t_exploration_budget o'))"
    and hop: "hop = hops st (t_direction o') (t_edge_kind o') (start_node_id o')"
  shows "\<forall>w\<in>R. hop (w_depth w) (w_node w) \<and> w_depth w \<le> t_max_depth o'"
    and "\<forall>n v. hop n v \<longrightarrow> n \<le> t_max_depth o' \<longrightarrow> (\<exists>w\<in>R. w_node w = v \<and> w_depth w \<le> n)"
    and "\<forall>n v. hop n v \<longrightarrow> v \<in> n_id ` set (nodes st)"
    and "truncated_by (traverse enc arrange st o') = None \<longrightarrow> (\<forall>n v. hop n v \<longrightarrow> v \<in> w_node ` R)"
proof -
  note whole = traverse_whole_walk(1) [OF ok tb(1), unfolded shape_of_def]
  note why = traverse_whole_walk(2) [OF ok tb(1)]
  note R' = R [unfolded shape_of_def]
  have fan: "\<forall>w\<in>R. w_depth w < t_max_depth o' \<longrightarrow> length (kind_edges st (shape_of o') (w_node w)) \<le> t_max_fanout o'"
    using why tb unfolding R
    by (auto simp: why_truncated_def analyze_cuts_def list_ex_iff shape_of_def split: if_splits)
  show "\<forall>w\<in>R. hop (w_depth w) (w_node w) \<and> w_depth w \<le> t_max_depth o'"
    using walk_sound whole unfolding R' hop whole_walk_def by blast
  show "\<forall>n v. hop n v \<longrightarrow> n \<le> t_max_depth o' \<longrightarrow> (\<exists>w\<in>R. w_node w = v \<and> w_depth w \<le> n)"
    using walk_covers [OF whole R' fan [unfolded shape_of_def]] unfolding hop by blast
  show "\<forall>n v. hop n v \<longrightarrow> v \<in> n_id ` set (nodes st)"
    using hops_stored ok(1) unfolding hop walkable_def list_all_iff by blast
  have deep: "\<forall>w\<in>R. w_depth w = t_max_depth o' \<longrightarrow>
      (\<forall>e\<in>set (kind_edges st (shape_of o') (w_node w)). other_endpoint (t_direction o') e \<in> w_node ` R)"
    if "truncated_by (traverse enc arrange st o') = None"
    using why that unfolding R
    by (auto simp: why_truncated_def analyze_cuts_def list_ex_iff shape_of_def split: if_splits)
  show "truncated_by (traverse enc arrange st o') = None \<longrightarrow> (\<forall>n v. hop n v \<longrightarrow> v \<in> w_node ` R)"
    using walk_closed [OF whole R' fan [unfolded shape_of_def]] deep [unfolded shape_of_def] unfolding hop by blast
qed


section \<open>Resuming\<close>

lemma first_edges_distinct:
  "distinct (map ed_id (first_edges seen rows)) \<and>
   set (map ed_id (first_edges seen rows)) = {ed_id e |e. Some e \<in> (snd \<circ> snd) ` set rows} - set seen"
proof (induction seen rows rule: first_edges.induct)
  case (3 seen n d e rows)
  show ?case
  proof (cases "ed_id e \<in> set seen")
    case True
    then show ?thesis using "3.IH"(1) by (auto simp: image_iff)
  next
    case False
    then show ?thesis using "3.IH"(2) by (auto simp: image_iff)
  qed
qed (auto simp: image_iff)

lemma run_walk_edge:
  assumes "Some e \<in> (snd \<circ> snd) ` set (run_walk st rows)"
  obtains w where "w \<in> set rows" "w_edge w = Some (ed_id e)"
  using assms left_join_edge_Some by (auto simp: run_walk_in walk_join_in)

text \<open>The edge of a row that is no seed, and the row it was walked from.\<close>

lemma walked_from:
  assumes "keyed e_id (edges st)" "arranges arrange" and sh: "sh = (d, kind, f, m)"
    and rows: "rows = cte_loop limit (recursive_term arrange st sh flt) seeds"
    and seeds: "\<forall>s\<in>set seeds. w_edge s = None" and w: "w \<in> set rows" "w_edge w = Some i"
  shows "\<exists>p\<in>set rows. \<exists>e\<in>set (edges st). e_id e = i \<and> this_endpoint d e = w_node p \<and> flt p e \<and>
    w_node w = other_endpoint d e"
proof -
  obtain p where p: "p \<in> set rows" "w \<in> set (recursive_term arrange st (d, kind, f, m) flt p)"
    using cte_loop_parent [OF w(1) [unfolded rows]] seeds w(2) unfolding rows sh by auto
  from assms(1,2) p(2) obtain e where e: "e \<in> set (kind_edges st (d, kind, f, m) (w_node p))" "flt p e"
    "w_node w = other_endpoint d e" "w_edge w = Some (e_id e)"
    by (rule recursive_term_rows)
  then have "e \<in> set (edges st)" "e_id e = i" "this_endpoint d e = w_node p"
    using w(2) by (simp_all add: kind_edges_iff)
  then show ?thesis using e p(1) by blast
qed

text \<open>The answers of a client that follows resume tokens, latest first.\<close>

inductive answers ::
  "(ResumeState \<Rightarrow> string) \<Rightarrow> (string \<Rightarrow> ResumeState option) \<Rightarrow> arrangement \<Rightarrow> store \<Rightarrow> TraversalOptions
    \<Rightarrow> TraversalResult list \<Rightarrow> bool"
  for enc dec arrange st o' where
  answers_first: "answers enc dec arrange st o' [traverse enc arrange st o']"
| answers_next: "answers enc dec arrange st o' (r # rs) \<Longrightarrow> resume_token r = Some token \<Longrightarrow>
     resume enc dec arrange st token budget = Some r' \<Longrightarrow> answers enc dec arrange st o' (r' # r # rs)"

definition reported_nodes :: "TraversalResult list \<Rightarrow> string list" where
  "reported_nodes rs = concat (map (\<lambda>r. map (\<lambda>n. nr_id (rn_node n)) (tr_nodes r)) rs)"

definition reported_edges :: "TraversalResult list \<Rightarrow> string list" where
  "reported_edges rs = concat (map (\<lambda>r. map ed_id (tr_edges r)) rs)"

text \<open>A token stands for what was reported: it lists exactly the nodes and the edges reported so
  far, and each edge left from a reported node.\<close>

definition token_ok :: "store \<Rightarrow> TraversalOptions \<Rightarrow> string set \<Rightarrow> string set \<Rightarrow> ResumeState \<Rightarrow> bool" where
  "token_ok st o' ns es s \<longleftrightarrow>
     (rst_direction s, rst_edge_kind s, rst_max_fanout s, rst_max_depth s) = shape_of o' \<and>
     set (map vn_id (rst_visited s)) = ns \<and> set (rst_walked s) = es"

definition edges_from :: "store \<Rightarrow> Direction \<Rightarrow> string set \<Rightarrow> string set \<Rightarrow> bool" where
  "edges_from st d ns es \<longleftrightarrow> ns \<subseteq> n_id ` set (nodes st) \<and>
     (\<forall>i\<in>es. \<exists>e\<in>set (edges st). e_id e = i \<and> this_endpoint d e \<in> ns)"

lemma as_visited_ids: "map vn_id (as_visited rs) = map (\<lambda>r. nr_id (rn_node r)) rs"
  by (simp add: as_visited_def)

lemma traverse_token:
  assumes "resume_token (traverse enc arrange st o') = Some token"
  obtains s where "token = enc s" "token_ok st o' (set (reported_nodes [traverse enc arrange st o']))
    (set (reported_edges [traverse enc arrange st o'])) s"
proof -
  let ?r = "traverse enc arrange st o'"
  let ?s = "\<lparr>rst_direction = t_direction o', rst_edge_kind = t_edge_kind o', rst_max_depth = t_max_depth o',
             rst_max_fanout = t_max_fanout o', rst_visited = as_visited (tr_nodes ?r), rst_walked = map ed_id (tr_edges ?r)\<rparr>"
  have "token = enc ?s"
    using assms by (simp add: traverse_def Let_def continuation_def split: if_splits)
  moreover have "token_ok st o' (set (reported_nodes [?r])) (set (reported_edges [?r])) ?s"
    using as_visited_ids [of "tr_nodes ?r"]
    by (simp add: token_ok_def shape_of_def reported_nodes_def reported_edges_def)
  ultimately show ?thesis by (rule that)
qed

lemma resume_token_ok:
  assumes "dec token = Some s" "token_ok st o' ns es s" "resume enc dec arrange st token budget = Some r"
    "resume_token r = Some token'"
  obtains s' where "token' = enc s'" "token_ok st o' (set (reported_nodes [r]) \<union> ns) (set (reported_edges [r]) \<union> es) s'"
proof -
  let ?s = "\<lparr>rst_direction = rst_direction s, rst_edge_kind = rst_edge_kind s, rst_max_depth = rst_max_depth s,
             rst_max_fanout = rst_max_fanout s,
             rst_visited = sort_key (\<lambda>v. (vn_depth v, vn_id v)) (rst_visited s @ as_visited (tr_nodes r)),
             rst_walked = sort (rst_walked s @ map ed_id (tr_edges r))\<rparr>"
  have "token' = enc ?s"
    using assms(1,3,4) by (auto simp: resume_def Let_def continuation_def split: if_splits)
  moreover have "vn_id ` set (as_visited (tr_nodes r)) = set (reported_nodes [r])"
    by (auto simp: as_visited_def reported_nodes_def image_image)
  then have "token_ok st o' (set (reported_nodes [r]) \<union> ns) (set (reported_edges [r]) \<union> es) ?s"
    using assms(2) by (auto simp: token_ok_def reported_edges_def image_Un)
  ultimately show ?thesis by (rule that)
qed

lemma recursive_term_edge: "y \<in> set (recursive_term arrange st sh flt w) \<Longrightarrow> w_edge y \<noteq> None"
  by (auto simp: recursive_term_def split: prod.splits)

lemma run_walk_node_ids:
  "(nr_id \<circ> fst) ` set (run_walk st rows) = w_node ` set rows \<inter> n_id ` set (nodes st)"
proof (intro set_eqI iffI)
  fix v assume "v \<in> (nr_id \<circ> fst) ` set (run_walk st rows)"
  then obtain n d e where "(n, d, e) \<in> set (run_walk st rows)" "nr_id n = v" by auto
  then have "v \<in> n_id ` set (nodes st)" "\<exists>w\<in>set rows. w_node w = v" using run_walk_ids [of d st rows v] by blast+
  then show "v \<in> w_node ` set rows \<inter> n_id ` set (nodes st)" by (metis IntI imageI)
next
  fix v assume "v \<in> w_node ` set rows \<inter> n_id ` set (nodes st)"
  then obtain w where "w \<in> set rows" "w_node w = v" "v \<in> n_id ` set (nodes st)" by blast
  then obtain n e where "(n, w_depth w, e) \<in> set (run_walk st rows)" "nr_id n = v"
    using run_walk_ids [of "w_depth w" st rows v] by blast
  then show "v \<in> (nr_id \<circ> fst) ` set (run_walk st rows)" by (auto intro!: image_eqI [of _ _ "(n, w_depth w, e)"])
qed

lemma traverse_reports:
  assumes ok: "walkable st o'" "arranges arrange" and r: "r = traverse enc arrange st o'"
  shows "distinct (reported_nodes [r]) \<and> distinct (reported_edges [r]) \<and>
    edges_from st (t_direction o') (set (reported_nodes [r])) (set (reported_edges [r]))"
proof -
  define rows where "rows = cte_loop (t_exploration_budget o') (recursive_term arrange st (shape_of o') (\<lambda>_ _. True))
    [start_row (start_node_id o')]"
  have keyed: "keyed e_id (edges st)" and ends: "start_node_id o' \<in> n_id ` set (nodes st)"
    "\<forall>e\<in>set (edges st). other_endpoint (t_direction o') e \<in> n_id ` set (nodes st)"
    using ok(1) unfolding walkable_def list_all_iff by blast+
  have ns: "reported_nodes [r] = map (nr_id \<circ> rn_node) (first_nodes [] (run_walk st rows))"
    and es: "reported_edges [r] = map ed_id (first_edges [] (run_walk st rows))"
    by (simp_all add: r reported_nodes_def reported_edges_def traverse_def walk_cte_def Let_def comp_def rows_def)
  have nodes: "set (reported_nodes [r]) = w_node ` set rows \<inter> n_id ` set (nodes st)"
    unfolding ns using first_nodes_distinct [of "[]" "run_walk st rows"] run_walk_node_ids [of st rows] by simp
  have stored: "\<forall>w\<in>set rows. w_node w \<in> n_id ` set (nodes st)"
    using walk_sound [OF keyed ok(2), of "t_direction o'" "t_edge_kind o'" "t_max_fanout o'" "t_max_depth o'"
        "start_node_id o'" "t_exploration_budget o'", folded shape_of_def, unfolded walk_cte_def, folded rows_def]
      hops_stored [OF _ ends] by blast
  have "\<exists>e\<in>set (edges st). e_id e = i \<and> this_endpoint (t_direction o') e \<in> set (reported_nodes [r])"
    if i: "i \<in> set (reported_edges [r])" for i
  proof -
    from i obtain x where x: "Some x \<in> (snd \<circ> snd) ` set (run_walk st rows)" "i = ed_id x"
      unfolding es using first_edges_distinct [of "[]" "run_walk st rows"] by auto
    obtain w where w: "w \<in> set rows" "w_edge w = Some i" using run_walk_edge [OF x(1)] x(2) by blast
    have seed: "\<forall>s\<in>set [start_row (start_node_id o')]. w_edge s = None" by (simp add: start_row_def)
    obtain p e where p: "p \<in> set rows" "e \<in> set (edges st)" "e_id e = i" "this_endpoint (t_direction o') e = w_node p"
      using walked_from [OF keyed ok(2) shape_of_def rows_def seed w] by blast
    have "w_node p \<in> set (reported_nodes [r])" using p(1) stored unfolding nodes by simp
    then show ?thesis using p by (intro bexI [of _ e]) simp_all
  qed
  then have "edges_from st (t_direction o') (set (reported_nodes [r])) (set (reported_edges [r]))"
    unfolding edges_from_def using nodes by blast
  then show ?thesis
    using first_nodes_distinct [of "[]" "run_walk st rows"] first_edges_distinct [of "[]" "run_walk st rows"]
    unfolding ns es by blast
qed

text \<open>The rows of a resumed walk, and what it keeps of them.\<close>

definition resumed_rows :: "arrangement \<Rightarrow> store \<Rightarrow> TraversalOptions \<Rightarrow> ResumeState \<Rightarrow> nat \<Rightarrow> WalkRow list" where
  "resumed_rows arrange st o' s budget =
     resume_cte arrange st (shape_of o') (rst_visited s) (rst_walked s) (length (rst_visited s) + budget)"

definition kept_rows :: "store \<Rightarrow> WalkRow list \<Rightarrow> (NodeRecord \<times> nat \<times> EdgeRecord option) list" where
  "kept_rows st rows = filter (\<lambda>r. snd (snd r) \<noteq> None) (run_walk st rows)"

lemma resume_report:
  assumes "dec token = Some s" "token_ok st o' ns es s" "resume enc dec arrange st token budget = Some r"
    and rows: "rows = resumed_rows arrange st o' s budget"
  shows "reported_nodes [r] = map (nr_id \<circ> rn_node) (first_nodes (map vn_id (rst_visited s)) (kept_rows st rows))"
    and "reported_edges [r] = map ed_id (first_edges [] (kept_rows st rows))"
  using assms by (auto simp: reported_nodes_def reported_edges_def resume_def Let_def token_ok_def comp_def
      resumed_rows_def kept_rows_def)

lemma resumed_row:
  assumes ok: "walkable st o'" "arranges arrange" and s: "token_ok st o' ns es s"
    and w: "w \<in> set (resumed_rows arrange st o' s budget)"
  shows "w_edge w = None \<and> w_node w \<in> ns \<or>
    (\<exists>p\<in>set (resumed_rows arrange st o' s budget). \<exists>e\<in>set (edges st). w_edge w = Some (e_id e) \<and>
       this_endpoint (t_direction o') e = w_node p \<and> w_node w = other_endpoint (t_direction o') e \<and>
       (w_edge p = None \<or> w_node p \<notin> ns) \<and> (w_edge p \<noteq> None \<or> e_id e \<notin> es))"
proof (cases "w_edge w")
  case None
  define seeds where "seeds = map (\<lambda>v. \<lparr>w_node = vn_id v, w_edge = None, w_depth = vn_depth v,
    w_path = ''|'' @ vn_id v @ ''|''\<rparr>) (rst_visited s)"
  have "w \<in> set seeds"
    using cte_loop_parent [OF w [unfolded resumed_rows_def resume_cte_def]] None recursive_term_edge
    unfolding seeds_def by blast
  then show ?thesis using s None by (auto simp: seeds_def token_ok_def)
next
  case (Some i)
  have keyed: "keyed e_id (edges st)" using ok(1) unfolding walkable_def by blast
  have "\<exists>p\<in>set (resumed_rows arrange st o' s budget). \<exists>e\<in>set (edges st). e_id e = i \<and>
      this_endpoint (t_direction o') e = w_node p \<and> resume_filter (rst_visited s) (rst_walked s) p e \<and>
      w_node w = other_endpoint (t_direction o') e"
    using w Some
    by (intro walked_from [OF keyed ok(2) shape_of_def resumed_rows_def [unfolded resume_cte_def]]) auto
  moreover have "resume_filter (rst_visited s) (rst_walked s) p e \<longleftrightarrow>
      (w_edge p = None \<or> w_node p \<notin> ns) \<and> (w_edge p \<noteq> None \<or> e_id e \<notin> es)" for p e
    using s unfolding resume_filter_def token_ok_def by blast
  ultimately show ?thesis using Some by blast
qed

lemma resumed_row_reported:
  assumes ok: "walkable st o'" "arranges arrange" and s: "token_ok st o' ns es s"
    and w: "w \<in> set (resumed_rows arrange st o' s budget)" "w_edge w \<noteq> None"
  shows "w_node w \<in> (nr_id \<circ> fst) ` set (kept_rows st (resumed_rows arrange st o' s budget))"
proof -
  obtain e where e: "e \<in> set (edges st)" "w_edge w = Some (e_id e)" "w_node w = other_endpoint (t_direction o') e"
    using resumed_row [OF ok s w(1)] w(2) by blast
  then obtain n where n: "n \<in> set (nodes st)" "n_id n = w_node w" using ok(1) unfolding walkable_def list_all_iff by force
  have "e \<in> set (filter (\<lambda>x. w_edge w = Some (e_id x)) (edges st))" using e by simp
  then have "Some (map_edge_row e) \<in> set (left_join_edge st w)"
    unfolding left_join_edge_def Let_def by (cases "filter (\<lambda>x. w_edge w = Some (e_id x)) (edges st)") auto
  then have "(map_node_row n, w_depth w, Some (map_edge_row e)) \<in> set (walk_join st w)"
    using n by (auto simp: walk_join_in)
  then have "(map_node_row n, w_depth w, Some (map_edge_row e)) \<in> set (kept_rows st (resumed_rows arrange st o' s budget))"
    using w(1) by (auto simp: kept_rows_def run_walk_in)
  then show ?thesis by (rule rev_image_eqI) (simp add: n)
qed

lemma resume_reports:
  assumes ok: "walkable st o'" "arranges arrange"
    and s: "dec token = Some s" "token_ok st o' ns es s" "edges_from st (t_direction o') ns es"
    and r: "resume enc dec arrange st token budget = Some r"
  shows "distinct (reported_nodes [r]) \<and> distinct (reported_edges [r])"
    and "set (reported_nodes [r]) \<inter> ns = {}" and "set (reported_edges [r]) \<inter> es = {}"
    and "edges_from st (t_direction o') (set (reported_nodes [r]) \<union> ns) (set (reported_edges [r]) \<union> es)"
proof -
  define rows where "rows = resumed_rows arrange st o' s budget"
  note report = resume_report [OF s(1,2) r rows_def]
  have ns: "ns = set (map vn_id (rst_visited s))" using s(2) by (simp add: token_ok_def)
  show "distinct (reported_nodes [r]) \<and> distinct (reported_edges [r])" unfolding report
    using first_nodes_distinct [of "map vn_id (rst_visited s)"] first_edges_distinct [of "[]"] by blast
  have new: "set (reported_nodes [r]) = (nr_id \<circ> fst) ` set (kept_rows st rows) - ns" unfolding report ns
    using first_nodes_distinct [of "map vn_id (rst_visited s)" "kept_rows st rows"] by blast
  then show "set (reported_nodes [r]) \<inter> ns = {}" by blast
  have walked: "\<exists>p\<in>set rows. \<exists>e\<in>set (edges st). i = e_id e \<and> this_endpoint (t_direction o') e = w_node p \<and>
      (w_edge p = None \<or> w_node p \<notin> ns) \<and> (w_edge p \<noteq> None \<or> e_id e \<notin> es)"
    if i: "i \<in> set (reported_edges [r])" for i
  proof -
    obtain x where x: "Some x \<in> (snd \<circ> snd) ` set (run_walk st rows)" "i = ed_id x"
      using i first_edges_distinct [of "[]" "kept_rows st rows"] unfolding report kept_rows_def by auto
    obtain w where w: "w \<in> set rows" "w_edge w = Some i" using run_walk_edge [OF x(1)] x(2) by blast
    then show ?thesis using resumed_row [OF ok s(2) w(1) [unfolded rows_def]] unfolding rows_def by auto
  qed
  have known: "w_node p \<in> set (reported_nodes [r]) \<union> ns" if "p \<in> set rows" for p
    using resumed_row [OF ok s(2) that [unfolded rows_def]]
      resumed_row_reported [OF ok s(2) that [unfolded rows_def]] unfolding new rows_def by blast
  have unique: "this_endpoint (t_direction o') e \<in> ns" if e: "e \<in> set (edges st)" "e_id e \<in> es" for e
  proof -
    obtain e' where "e' \<in> set (edges st)" "e_id e' = e_id e" "this_endpoint (t_direction o') e' \<in> ns"
      using s(3) e(2) unfolding edges_from_def by blast
    then show ?thesis using ok(1) e(1) unfolding walkable_def by (metis keyed_inj)
  qed
  show "set (reported_edges [r]) \<inter> es = {}"
  proof (rule ccontr)
    assume "set (reported_edges [r]) \<inter> es \<noteq> {}"
    then obtain i where i: "i \<in> set (reported_edges [r])" "i \<in> es" by blast
    obtain p :: WalkRow and e where p: "e \<in> set (edges st)" "i = e_id e" "this_endpoint (t_direction o') e = w_node p"
      "w_edge p = None \<or> w_node p \<notin> ns" "w_edge p \<noteq> None \<or> e_id e \<notin> es"
      using walked [OF i(1)] by blast
    show False using p i(2) unique [OF p(1)] by simp
  qed
  have stored: "set (reported_nodes [r]) \<subseteq> n_id ` set (nodes st)"
    using run_walk_node_ids [of st rows] unfolding new kept_rows_def by auto
  have "\<exists>e\<in>set (edges st). e_id e = i \<and> this_endpoint (t_direction o') e \<in> set (reported_nodes [r]) \<union> ns"
    if "i \<in> set (reported_edges [r])" for i
    using walked [OF that] known by metis
  then show "edges_from st (t_direction o') (set (reported_nodes [r]) \<union> ns) (set (reported_edges [r]) \<union> es)"
    using s(3) stored unfolding edges_from_def by blast
qed

lemma reported_Cons:
  "reported_nodes (r # rs) = reported_nodes [r] @ reported_nodes rs"
  "reported_edges (r # rs) = reported_edges [r] @ reported_edges rs"
  by (simp_all add: reported_nodes_def reported_edges_def)

text \<open>The codec reads back the tokens that are followed.\<close>

definition tokens_decode :: "(ResumeState \<Rightarrow> string) \<Rightarrow> (string \<Rightarrow> ResumeState option) \<Rightarrow> TraversalResult list \<Rightarrow> bool" where
  "tokens_decode enc dec rs \<longleftrightarrow> (\<forall>r\<in>set rs. \<forall>s. resume_token r = Some (enc s) \<longrightarrow> dec (enc s) = Some s)"

lemma answers_invariant:
  assumes ok: "walkable st o'" "arranges arrange"
  shows "answers enc dec arrange st o' rs \<Longrightarrow> tokens_decode enc dec (tl rs) \<Longrightarrow>
    distinct (reported_nodes rs) \<and> distinct (reported_edges rs) \<and>
    edges_from st (t_direction o') (set (reported_nodes rs)) (set (reported_edges rs)) \<and>
    (\<forall>token. resume_token (hd rs) = Some token \<longrightarrow>
       (\<exists>s. token = enc s \<and> token_ok st o' (set (reported_nodes rs)) (set (reported_edges rs)) s))"
proof (induction rule: answers.induct)
  case answers_first
  have "\<exists>s. token = enc s \<and> token_ok st o' (set (reported_nodes [traverse enc arrange st o']))
      (set (reported_edges [traverse enc arrange st o'])) s"
    if "resume_token (traverse enc arrange st o') = Some token" for token
    using that by (rule traverse_token) blast
  then show ?case using traverse_reports [OF ok refl, of enc] unfolding list.sel(1) by blast
next
  case (answers_next r rs token budget r')
  have "tokens_decode enc dec rs" using answers_next.prems by (simp add: tokens_decode_def)
  then have IH: "distinct (reported_nodes (r # rs))" "distinct (reported_edges (r # rs))"
    "edges_from st (t_direction o') (set (reported_nodes (r # rs))) (set (reported_edges (r # rs)))"
    "\<exists>s. token = enc s \<and> token_ok st o' (set (reported_nodes (r # rs))) (set (reported_edges (r # rs))) s"
    using answers_next.IH answers_next.hyps(2) by simp_all
  then obtain s where s: "token = enc s"
    "token_ok st o' (set (reported_nodes (r # rs))) (set (reported_edges (r # rs))) s" by blast
  then have dec: "dec token = Some s"
    using answers_next.prems answers_next.hyps(2) by (simp add: tokens_decode_def)
  note new = resume_reports [OF ok dec s(2) IH(3) answers_next.hyps(3)]
  have "\<exists>s. token' = enc s \<and> token_ok st o' (set (reported_nodes (r' # r # rs))) (set (reported_edges (r' # r # rs))) s"
    if "resume_token r' = Some token'" for token'
    using dec s(2) answers_next.hyps(3) that unfolding reported_Cons [of r' "r # rs"] set_append
    by (rule resume_token_ok) blast
  then show ?case
    using new IH unfolding reported_Cons [of r' "r # rs"] set_append distinct_append list.sel(1) by blast
qed

text \<open>
  C26. A client that follows resume tokens, with any budget on each call, is never shown a node or
  an edge twice, although a resumed walk seeds itself with every node already returned.
\<close>

theorem resume_never_repeats:
  assumes "walkable st o'" "arranges arrange" "answers enc dec arrange st o' rs" "tokens_decode enc dec (tl rs)"
  shows "distinct (reported_nodes rs) \<and> distinct (reported_edges rs)"
  using answers_invariant [OF assms] by blast

section \<open>Concrete walks\<close>

definition plain_node :: "string \<Rightarrow> NodeRow" where
  "plain_node i = node_row (new_NodeRecord i ''Function'' i i ''a.go'' ''go'')"

definition plain_call :: "string \<Rightarrow> string \<Rightarrow> string \<Rightarrow> EdgeRow" where
  "plain_call i a b = edge_row (new_EdgeRecord i a b ''CALLS'' ''tree-sitter'' True)"

text \<open>A diamond with a cycle: \<open>d\<close> is two hops from \<open>a\<close> by two paths.\<close>

definition diamond :: store where
  "diamond = empty_store\<lparr>nodes := map plain_node [''a'', ''b'', ''c'', ''d''],
     edges := [plain_call ''1'' ''a'' ''b'', plain_call ''2'' ''a'' ''c'', plain_call ''3'' ''b'' ''d'',
       plain_call ''4'' ''c'' ''d'', plain_call ''5'' ''d'' ''a'']\<rparr>"

definition from_a :: "nat \<Rightarrow> TraversalOptions" where
  "from_a budget = (new_TraversalOptions ''a'' Outgoing)\<lparr>t_exploration_budget := budget\<rparr>"

lemma arranges_id: "arranges (\<lambda>es. es)"
  by (simp add: arranges_def)

lemma walkable_diamond: "walkable diamond (from_a budget)"
proof -
  have "keyed e_id (edges diamond)" "map n_id (nodes diamond) = [''a'', ''b'', ''c'', ''d'']"
    "list_all (\<lambda>e. e_toId e \<in> {''a'', ''b'', ''c'', ''d''} \<and> bar_free (e_toId e)) (edges diamond)" "bar_free ''a''"
    unfolding bar_free_def by code_simp+
  moreover from this have "n_id ` set (nodes diamond) = {''a'', ''b'', ''c'', ''d''}"
    by (metis list.set_map list.simps(15) empty_set)
  ultimately show ?thesis
    by (simp add: walkable_def from_a_def new_TraversalOptions_def other_endpoint_def)
qed


definition cut_state :: ResumeState where
  "cut_state = \<lparr>rst_direction = Outgoing, rst_edge_kind = None, rst_max_depth = 5, rst_max_fanout = 50,
     rst_visited = [\<lparr>vn_id = ''a'', vn_depth = 0\<rparr>, \<lparr>vn_id = ''b'', vn_depth = 1\<rparr>], rst_walked = [''1'']\<rparr>"

definition sample_enc :: "ResumeState \<Rightarrow> string" where
  "sample_enc s = (if s = cut_state then ''t'' else ''u'')"

definition sample_token_dec :: "string \<Rightarrow> ResumeState option" where
  "sample_token_dec raw = (if raw = ''t'' then Some cut_state else None)"

theorem resume_never_repeats_witness:
  "\<exists>r2. resume sample_enc sample_token_dec (\<lambda>es. es) diamond ''t'' 9 = Some r2 \<and>
     map (\<lambda>n. nr_id (rn_node n)) (tr_nodes r2) = [''c'', ''d''] \<and>
     distinct (reported_nodes [r2, traverse sample_enc (\<lambda>es. es) diamond (from_a 2)]) \<and>
     distinct (reported_edges [r2, traverse sample_enc (\<lambda>es. es) diamond (from_a 2)])"
proof -
  let ?r1 = "traverse sample_enc (\<lambda>es. es) diamond (from_a 2)"
  have tok: "resume_token ?r1 = Some ''t''" by code_simp
  have "map_option (\<lambda>r. map (\<lambda>n. nr_id (rn_node n)) (tr_nodes r))
      (resume sample_enc sample_token_dec (\<lambda>es. es) diamond ''t'' 9) = Some [''c'', ''d'']" by code_simp
  then obtain r2 where r2: "resume sample_enc sample_token_dec (\<lambda>es. es) diamond ''t'' 9 = Some r2"
    "map (\<lambda>n. nr_id (rn_node n)) (tr_nodes r2) = [''c'', ''d'']" by auto
  have "answers sample_enc sample_token_dec (\<lambda>es. es) diamond (from_a 2) [r2, ?r1]"
    by (rule answers_next [OF answers_first tok r2(1)])
  moreover have "tokens_decode sample_enc sample_token_dec (tl [r2, ?r1])"
    using tok by (auto simp: tokens_decode_def sample_enc_def sample_token_dec_def split: if_splits)
  ultimately have "distinct (reported_nodes [r2, ?r1]) \<and> distinct (reported_edges [r2, ?r1])"
    by (rule resume_never_repeats [OF walkable_diamond arranges_id])
  with r2 show ?thesis by (intro exI [of _ r2]) simp
qed

text \<open>An edge into a node that is gone, as a deleted file leaves them.\<close>

definition dangling :: store where
  "dangling = empty_store\<lparr>nodes := map plain_node [''a'', ''b''],
     edges := [plain_call ''1'' ''a'' ''gone'', plain_call ''2'' ''a'' ''b'']\<rparr>"


end
