(* ===== verification/Queries.thy ===== *)
theory Queries
  imports Write_Rows
begin

text \<open>
  \<^verbatim>\<open>core/src/graph/queries.rs\<close>, the single-statement lookups of the index, and the readers of
  \<^verbatim>\<open>core/src/graph/containers.rs\<close>. A lookup without ORDER BY returns its rows in table order here,
  which SQL leaves open. LIKE is SQLite's: ASCII letters compare without case, a percent sign
  skips characters and an underscore one character.
\<close>

section \<open>LIKE\<close>

definition ascii_lower :: "char \<Rightarrow> char" where
  "ascii_lower c = (if 65 \<le> (of_char c :: nat) \<and> (of_char c :: nat) \<le> 90 then char_of (of_char c + 32 :: nat) else c)"

definition is_continuation :: "char \<Rightarrow> bool" where
  "is_continuation c \<longleftrightarrow> 128 \<le> (of_char c :: nat) \<and> (of_char c :: nat) < 192"

definition skip_char :: "string \<Rightarrow> string" where
  "skip_char t = dropWhile is_continuation (tl t)"

definition char_count :: "string \<Rightarrow> nat" where
  "char_count t = length (filter (\<lambda>c. \<not> is_continuation c) t)"

lemma skip_char_shorter: "t \<noteq> [] \<Longrightarrow> length (skip_char t) < length t"
  unfolding skip_char_def by (cases t) (auto simp: le_imp_less_Suc length_dropWhile_le)

datatype like_op = Escape | AnyText | OneChar | Literal

definition like_op :: "char option \<Rightarrow> char \<Rightarrow> like_op" where
  "like_op esc p =
     (if esc = Some p then Escape else if p = CHR ''%'' then AnyText else if p = CHR ''_'' then OneChar else Literal)"

definition same_char :: "char \<Rightarrow> string \<Rightarrow> bool" where
  "same_char p t = (case t of [] \<Rightarrow> False | c # _ \<Rightarrow> ascii_lower p = ascii_lower c)"

function like :: "char option \<Rightarrow> string \<Rightarrow> string \<Rightarrow> bool" where
  "like esc [] t \<longleftrightarrow> t = []"
| "like esc (p # ps) t \<longleftrightarrow>
     (case like_op esc p of
        Escape \<Rightarrow> (case ps of [] \<Rightarrow> False | q # qs \<Rightarrow> if same_char q t then like esc qs (tl t) else False)
      | AnyText \<Rightarrow> like esc ps t \<or> (if t = [] then False else like esc (p # ps) (skip_char t))
      | OneChar \<Rightarrow> (if t = [] then False else like esc ps (skip_char t))
      | Literal \<Rightarrow> (if same_char p t then like esc ps (tl t) else False))"
  by pat_completeness auto
termination
  by (relation "measure (\<lambda>(esc, p, t). length p + length t)") (auto dest: skip_char_shorter)

definition escape_like :: "string \<Rightarrow> string" where
  "escape_like entry = concat (map (\<lambda>ch. if ch \<in> {CHR 0x5C, CHR ''%'', CHR ''_''} then [CHR 0x5C, ch] else [ch]) entry)"

definition entry_rank :: "string \<Rightarrow> string \<Rightarrow> bool" where
  "entry_rank entry path \<longleftrightarrow>
     (if CHR ''.'' \<in> set entry
      then path = entry \<or> like (Some (CHR 0x5C)) (''%/'' @ escape_like entry) path
      else like (Some (CHR 0x5C)) (escape_like entry @ ''.%'') path \<or>
           like (Some (CHR 0x5C)) (''%/'' @ escape_like entry @ ''.%'') path)"

definition entry_point_rank_expr :: "string list \<Rightarrow> string \<Rightarrow> bool" where
  "entry_point_rank_expr entry_points path \<longleftrightarrow> list_ex (\<lambda>entry. entry_rank entry path) entry_points"

section \<open>Lookups\<close>

definition declaration_only :: "NodeRow \<Rightarrow> bool" where
  "declaration_only n = (case n_nativeKind n of None \<Rightarrow> True | Some k \<Rightarrow> k \<notin> set NON_DECLARATION_NATIVE_KINDS)"

definition upsert_node :: "digest \<Rightarrow> store \<Rightarrow> NodeRecord \<Rightarrow> store \<times> (store_error + unit)" where
  "upsert_node sha st node = apply_diff sha st (default_Diff\<lparr>upsert_nodes := [node]\<rparr>)"

definition get_node :: "store \<Rightarrow> string \<Rightarrow> NodeRecord option" where
  "get_node st i = map_option map_node_row (select_by n_id i (nodes st))"

definition delete_node :: "digest \<Rightarrow> store \<Rightarrow> string \<Rightarrow> store \<times> (store_error + unit)" where
  "delete_node sha st i =
     apply_diff sha st (default_Diff\<lparr>
       delete_edge_ids := map e_id (filter (\<lambda>e. e_fromId e = i \<or> e_toId e = i) (edges st)),
       delete_node_ids := [i]\<rparr>)"

definition find_by_name :: "store \<Rightarrow> string \<Rightarrow> string option \<Rightarrow> NodeRecord list" where
  "find_by_name st name file_path =
     map map_node_row (filter (\<lambda>n. n_name n = name \<and> declaration_only n \<and>
       (case file_path of None \<Rightarrow> True | Some fp \<Rightarrow> n_filePath n = fp)) (nodes st))"

definition find_in_file_named :: "store \<Rightarrow> string \<Rightarrow> nat \<Rightarrow> NodeRecord list" where
  "find_in_file_named st name limit =
     (if name = [] \<or> list_ex (\<lambda>c. c \<in> {CHR ''/'', CHR 0x5C, CHR ''.''}) name then []
      else take limit (map map_node_row
        (sort_key (\<lambda>n. (- int (length (filter (\<lambda>e. e_toId e = n_id n \<and> e_kind e \<in> {''REFERENCES'', ''CALLS''}) (edges st))),
                        if n_exported n then 0 else 1 :: nat, n_startLine n))
          (filter (\<lambda>n. (like None (''%/'' @ name @ ''.%'') (n_filePath n) \<or> like None (name @ ''.%'') (n_filePath n)) \<and>
             declaration_only n \<and> n_kind n \<noteq> ''File'') (nodes st)))))"

definition file_rank :: "string list \<Rightarrow> NodeRow \<Rightarrow> nat \<times> nat" where
  "file_rank entry_points n =
     (if entry_point_rank_expr entry_points (n_filePath n) then 0 else 1, char_count (n_filePath n))"

definition find_files_under :: "store \<Rightarrow> string \<Rightarrow> string list \<Rightarrow> nat \<Rightarrow> NodeRecord list" where
  "find_files_under st prefix entry_points limit =
     (let trimmed = trim_end_matches (\<lambda>c. c = CHR ''/'') prefix
      in if trimmed = [] then []
         else take limit (map map_node_row (sort_key (file_rank entry_points)
           (filter (\<lambda>n. n_kind n = ''File'' \<and> like None (trimmed @ ''/%'') (n_filePath n)) (nodes st)))))"

definition find_files_ending_in_dir :: "store \<Rightarrow> string \<Rightarrow> string list \<Rightarrow> nat \<Rightarrow> NodeRecord list" where
  "find_files_ending_in_dir st dir entry_points limit =
     (if dir = [] \<or> CHR ''/'' \<in> set dir then []
      else take limit (map map_node_row (sort_key (file_rank entry_points)
        (filter (\<lambda>n. n_kind n = ''File'' \<and>
           (like None (''%/'' @ dir @ ''/%'') (n_filePath n) \<or> like None (dir @ ''/%'') (n_filePath n))) (nodes st)))))"

definition find_by_qualified_name :: "store \<Rightarrow> string \<Rightarrow> string option \<Rightarrow> NodeRecord list" where
  "find_by_qualified_name st qualified_name file_path =
     map map_node_row (filter (\<lambda>n. n_qualifiedName n = qualified_name \<and> declaration_only n \<and>
       (case file_path of None \<Rightarrow> True | Some fp \<Rightarrow> n_filePath n = fp)) (nodes st))"

definition find_by_qualified_suffix :: "store \<Rightarrow> string \<Rightarrow> NodeRecord list" where
  "find_by_qualified_suffix st suffix =
     map map_node_row (sort_key n_id (concat (map (\<lambda>(s, i).
       if s = suffix then filter (\<lambda>n. n_id n = i \<and> declaration_only n) (nodes st) else []) (qualified_suffixes st))))"

definition import_specifiers_named :: "store \<Rightarrow> string \<Rightarrow> (string \<times> nat) list" where
  "import_specifiers_named st name =
     (let rows = filter (\<lambda>n. (n_name n = name \<or> n_qualifiedName n = name) \<and>
            n_nativeKind n \<in> {Some ''resolved_module'', Some ''external_module''}) (nodes st);
          carriers = (\<lambda>s. length (filter (\<lambda>n. n_qualifiedName n = s) rows))
      in map (\<lambda>s. (s, carriers s)) (sort_key (\<lambda>s. (- int (carriers s), s)) (remdups (map n_qualifiedName rows))))"

definition find_file_node :: "store \<Rightarrow> string \<Rightarrow> NodeRecord option" where
  "find_file_node st file_path =
     map_option map_node_row (find (\<lambda>n. n_kind n = ''File'' \<and> n_filePath n = file_path) (nodes st))"

definition has_incoming_edge :: "store \<Rightarrow> string \<Rightarrow> string \<Rightarrow> bool" where
  "has_incoming_edge st node_id edge_kind \<longleftrightarrow> list_ex (\<lambda>e. e_toId e = node_id \<and> e_kind e = edge_kind) (edges st)"

definition find_containers_by_key :: "store \<Rightarrow> string \<Rightarrow> NodeRecord list" where
  "find_containers_by_key st key =
     map (\<lambda>(c, n). map_node_row n) (sort_key (\<lambda>(c, n). c_language c)
       (concat (map (\<lambda>c. map (Pair c) (filter (\<lambda>n. n_id n = c_nodeId c) (nodes st)))
         (filter (\<lambda>c. c_key c = key) (containers st)))))"

definition contains_position :: "int \<Rightarrow> int \<Rightarrow> NodeRow \<Rightarrow> bool" where
  "contains_position ln cl n \<longleftrightarrow>
     (n_startLine n < ln \<or> n_startLine n = ln \<and> n_startCol n \<le> cl) \<and>
     (ln < n_endLine n \<or> n_endLine n = ln \<and> cl \<le> n_endCol n)"

definition span_rank :: "NodeRow \<Rightarrow> int \<times> int \<times> nat" where
  "span_rank n = (n_endLine n - n_startLine n, n_endCol n - n_startCol n, if n_kind n = ''File'' then 1 else 0)"

definition find_by_position :: "store \<Rightarrow> string \<Rightarrow> nat \<Rightarrow> nat \<Rightarrow> NodeRecord option" where
  "find_by_position st file_path ln cl =
     (case sort_key span_rank (filter (\<lambda>n. n_filePath n = file_path \<and> declaration_only n \<and>
         contains_position (int ln) (int cl) n) (nodes st)) of
        [] \<Rightarrow> None
      | n # _ \<Rightarrow> Some (map_node_row n))"

definition upsert_edge :: "digest \<Rightarrow> store \<Rightarrow> EdgeRecord \<Rightarrow> store \<times> (store_error + unit)" where
  "upsert_edge sha st edge = apply_diff sha st (default_Diff\<lparr>upsert_edges := [edge]\<rparr>)"

definition get_edge :: "store \<Rightarrow> string \<Rightarrow> EdgeRecord option" where
  "get_edge st i = map_option map_edge_row (select_by e_id i (edges st))"

definition delete_edge :: "digest \<Rightarrow> store \<Rightarrow> string \<Rightarrow> store \<times> (store_error + unit)" where
  "delete_edge sha st i = apply_diff sha st (default_Diff\<lparr>delete_edge_ids := [i]\<rparr>)"

section \<open>Reading containers\<close>

definition parent_of :: "store \<Rightarrow> string \<Rightarrow> string \<Rightarrow> string option" where
  "parent_of st language key =
     (case find (\<lambda>c. c_language c = language \<and> c_key c = key) (containers st) of
        None \<Rightarrow> None | Some c \<Rightarrow> c_parentKey c)"

text \<open>The loop of \<^verbatim>\<open>parent_chain\<close>; it only goes on from a key not seen before.\<close>

definition parent_keys :: "store \<Rightarrow> string set" where
  "parent_keys st = {k. Some k \<in> set (map c_parentKey (containers st))}"

lemma finite_parent_keys [simp]: "finite (parent_keys st)"
proof -
  have "parent_keys st \<subseteq> the ` set (map c_parentKey (containers st))"
    unfolding parent_keys_def by (auto intro!: rev_image_eqI) (metis option.sel)
  then show ?thesis by (rule finite_subset) simp
qed

lemma parent_of_key: "parent_of st language key = Some p \<Longrightarrow> p \<in> parent_keys st"
  by (auto simp: parent_of_def parent_keys_def find_Some_iff split: option.splits) (metis image_eqI nth_mem)

function chain_loop :: "store \<Rightarrow> string \<Rightarrow> string list \<Rightarrow> string \<Rightarrow> string list" where
  "chain_loop st language seen current =
     (case parent_of st language current of
        None \<Rightarrow> []
      | Some parent \<Rightarrow> if parent \<in> set seen then [] else parent # chain_loop st language (parent # seen) parent)"
  by pat_completeness auto
termination
proof (relation "measure (\<lambda>(st, _, seen, _). card (parent_keys st - set seen))")
  fix st language seen current parent
  assume "parent_of st language current = Some parent" "parent \<notin> set seen"
  then have "parent_keys st - set (parent # seen) \<subset> parent_keys st - set seen" using parent_of_key by auto
  then show "((st, language, parent # seen, parent), st, language, seen, current)
      \<in> measure (\<lambda>(st, _, seen, _). card (parent_keys st - set seen))"
    by (simp add: psubset_card_mono)
qed simp

definition parent_chain :: "store \<Rightarrow> string \<Rightarrow> string \<Rightarrow> string list" where
  "parent_chain st language key = chain_loop st language [key] key"

record DefiningContainer =
  dc_key :: string
  dc_node_id :: string
  dc_language :: string

definition whole_file :: "NodeRow \<Rightarrow> NodeRow \<Rightarrow> bool" where
  "whole_file m f \<longleftrightarrow> n_kind m = MODULE_KIND \<and> n_startLine m \<le> n_startLine f \<and> n_endLine f \<le> n_endLine m"

definition file_nodes_at :: "store \<Rightarrow> string \<Rightarrow> NodeRow list" where
  "file_nodes_at st file_path = filter (\<lambda>f. n_kind f = FILE_KIND \<and> n_filePath f = file_path) (nodes st)"

definition candidate_containers :: "store \<Rightarrow> string \<Rightarrow> DefiningContainer list" where
  "candidate_containers st file_path =
     map (\<lambda>ct. \<lparr>dc_key = c_key ct, dc_node_id = c_nodeId ct, dc_language = c_language ct\<rparr>)
       (sort_key c_key (filter (\<lambda>ct. list_ex (\<lambda>m. n_filePath m = file_path \<and>
            list_ex (\<lambda>e. e_toId e = n_id m \<and> e_kind e = DEFINES_KIND \<and> e_fromId e = c_nodeId ct) (edges st) \<and>
            list_ex (\<lambda>f. \<not> whole_file m f) (file_nodes_at st file_path)) (nodes st)) (containers st)))"

definition defining_containers :: "store \<Rightarrow> string \<Rightarrow> DefiningContainer list" where
  "defining_containers st file_path =
     (let candidates = candidate_containers st file_path
      in if length candidates < 2 then candidates
         else filter (\<lambda>c. \<not> list_ex (\<lambda>k. dc_language k = dc_language c \<and>
             dc_key k \<in> set (parent_chain st (dc_language c) (dc_key c))) candidates) candidates)"

definition defining_files :: "store \<Rightarrow> string \<Rightarrow> string list option" where
  "defining_files st node_id =
     (let files = filter (\<lambda>f. node_id \<in> set (map dc_node_id (defining_containers st f)))
            (sort (map n_filePath (filter (\<lambda>n. n_kind n = FILE_KIND) (nodes st))))
      in if files = [] then None else Some files)"

record MemberFiles =
  mf_declarations :: "string list"
  mf_submodules :: "string list"

definition member_files :: "store \<Rightarrow> string \<Rightarrow> MemberFiles" where
  "member_files st container_node_id =
     (let members = concat (map (\<lambda>e. filter (\<lambda>m. n_id m = e_toId e \<and> n_filePath m \<noteq> []) (nodes st))
            (filter (\<lambda>e. e_fromId e = container_node_id \<and> e_kind e = DEFINES_KIND) (edges st)));
          rows = concat (map (\<lambda>m. map (\<lambda>f. (n_filePath m, whole_file m f)) (file_nodes_at st (n_filePath m))) members)
      in \<lparr>mf_declarations = btree_set (map fst (filter (\<lambda>r. \<not> snd r) rows)),
          mf_submodules = btree_set (map fst (filter snd rows))\<rparr>)"

definition own_module_files :: "store \<Rightarrow> string \<Rightarrow> string \<Rightarrow> string list" where
  "own_module_files st language key =
     btree_set (map n_filePath (filter (\<lambda>m. n_language m = language \<and> n_qualifiedName m = key \<and> n_filePath m \<noteq> [] \<and>
        declaration_only m \<and> list_ex (\<lambda>f. whole_file m f) (file_nodes_at st (n_filePath m))) (nodes st)))"

definition has_file :: "store \<Rightarrow> string \<Rightarrow> bool" where
  "has_file st file_path \<longleftrightarrow> file_nodes_at st file_path \<noteq> []"

section \<open>LIKE patterns\<close>

text \<open>Text equal up to the case of ASCII letters.\<close>

definition same_text :: "string \<Rightarrow> string \<Rightarrow> bool" where
  "same_text s t \<longleftrightarrow> map ascii_lower s = map ascii_lower t"

lemma ex_Cons_split:
  "(\<exists>a b. d # u = a @ b \<and> Q a b) \<longleftrightarrow> Q [] (d # u) \<or> (\<exists>a b. u = a @ b \<and> Q (d # a) b)"
  by (metis append_Cons append_Nil append_eq_Cons_conv)

lemma same_char_Nil [simp]: "\<not> same_char c []"
  by (simp add: same_char_def)

lemma same_text_simps [simp]:
  "\<not> same_text [] (c # e)"
  "same_text (d # a) (c # e) \<longleftrightarrow> ascii_lower c = ascii_lower d \<and> same_text a e"
  by (auto simp: same_text_def)

lemma same_text_prefix_Cons:
  "(\<exists>a b. d # u = a @ b \<and> same_text a (c # e) \<and> Q b) \<longleftrightarrow>
     ascii_lower c = ascii_lower d \<and> (\<exists>a b. u = a @ b \<and> same_text a e \<and> Q b)"
  unfolding ex_Cons_split [where Q = "\<lambda>a b. same_text a (c # e) \<and> Q b"] same_text_simps(2)
  using same_text_simps(1) by blast

lemma like_escape_like:
  "like (Some (CHR 0x5C)) (escape_like e @ ps) t \<longleftrightarrow>
     (\<exists>a b. t = a @ b \<and> same_text a e \<and> like (Some (CHR 0x5C)) ps b)"
proof (induction e arbitrary: t)
  case Nil
  then show ?case by (simp add: escape_like_def same_text_def)
next
  case (Cons c e)
  have step: "like (Some (CHR 0x5C)) (escape_like (c # e) @ ps) t \<longleftrightarrow>
      same_char c t \<and> like (Some (CHR 0x5C)) (escape_like e @ ps) (tl t)"
    by (auto simp: escape_like_def like_op_def)
  show ?case
  proof (cases t)
    case Nil
    then show ?thesis unfolding step by (simp add: same_char_def same_text_def)
  next
    case (Cons d u)
    show ?thesis using step unfolding \<open>t = d # u\<close> same_text_prefix_Cons list.sel Cons.IH by (simp only: same_char_def list.case)
  qed
qed

lemma like_only_percent [simp]: "esc \<noteq> Some CHR ''%'' \<Longrightarrow> like esc ''%'' t"
proof (induction "length t" arbitrary: t rule: less_induct)
  case less
  then show ?case by (cases "t = []") (simp_all add: like_op_def skip_char_shorter)
qed

lemma like_dot_percent:
  assumes "esc \<noteq> Some CHR ''%''" "esc \<noteq> Some CHR ''.''"
  shows "like esc ''.%'' t \<longleftrightarrow> (\<exists>r. t = CHR ''.'' # r)"
proof (cases t)
  case (Cons c r)
  have "ascii_lower CHR ''.'' = ascii_lower c \<longleftrightarrow> c = CHR ''.''"
    by (auto simp: ascii_lower_def split: if_splits dest: arg_cong [of _ _ "of_char :: char \<Rightarrow> nat"])
  then show ?thesis using assms Cons like_only_percent [of esc r] by (auto simp: like_op_def same_char_def)
qed (use assms in \<open>simp add: like_op_def same_char_def\<close>)

lemma not_continuation_slash: "\<not> is_continuation CHR ''/''"
  by (simp add: is_continuation_def)

lemma lower_slash: "ascii_lower CHR ''/'' = ascii_lower c \<longleftrightarrow> c = CHR ''/''"
  by (auto simp: ascii_lower_def split: if_splits dest: arg_cong [of _ _ "of_char :: char \<Rightarrow> nat"])

lemma skip_char_slash:
  assumes "t = p @ CHR ''/'' # s" "p \<noteq> []"
  shows "\<exists>p'. skip_char t = p' @ CHR ''/'' # s"
proof -
  obtain c q where "p = c # q" using assms(2) by (cases p) auto
  then have "skip_char t = dropWhile is_continuation (q @ CHR ''/'' # s)" using assms(1) by (simp add: skip_char_def)
  moreover have "\<exists>p'. dropWhile is_continuation (q @ CHR ''/'' # s) = p' @ CHR ''/'' # s"
    using not_continuation_slash by (induction q) auto
  ultimately show ?thesis by simp
qed

lemma skip_char_suffix: "\<exists>p. t = p @ skip_char t"
proof (cases t)
  case (Cons c q)
  have "q = takeWhile is_continuation q @ skip_char t" by (simp add: Cons skip_char_def)
  then have "t = (c # takeWhile is_continuation q) @ skip_char t" using Cons by simp
  then show ?thesis by blast
qed (simp add: skip_char_def)

lemma like_percent_slash:
  assumes "esc \<noteq> Some CHR ''%''" "esc \<noteq> Some CHR ''/''"
  shows "like esc (CHR ''%'' # CHR ''/'' # ps) t \<longleftrightarrow> (\<exists>p s. t = p @ CHR ''/'' # s \<and> like esc ps s)"
proof (induction "length t" arbitrary: t rule: less_induct)
  case less
  have ops: "like_op esc CHR ''%'' = AnyText" "like_op esc CHR ''/'' = Literal"
    using assms by (auto simp: like_op_def)
  have here: "like esc (CHR ''/'' # ps) t \<longleftrightarrow> (\<exists>s. t = CHR ''/'' # s \<and> like esc ps s)"
    by (cases t) (auto simp: ops same_char_def lower_slash)
  show ?case
  proof (cases "t = []")
    case True
    then show ?thesis by (simp add: ops here)
  next
    case False
    have IH: "like esc (CHR ''%'' # CHR ''/'' # ps) (skip_char t) \<longleftrightarrow>
        (\<exists>p s. skip_char t = p @ CHR ''/'' # s \<and> like esc ps s)"
      by (rule less) (rule skip_char_shorter [OF False])
    have split: "like esc (CHR ''%'' # CHR ''/'' # ps) t \<longleftrightarrow>
        (\<exists>s. t = CHR ''/'' # s \<and> like esc ps s) \<or> (\<exists>p s. skip_char t = p @ CHR ''/'' # s \<and> like esc ps s)"
      by (subst like.simps(2)) (simp only: ops like_op.case here IH if_not_P [OF False])
    show ?thesis unfolding split
    proof
      assume "(\<exists>s. t = CHR ''/'' # s \<and> like esc ps s) \<or> (\<exists>p s. skip_char t = p @ CHR ''/'' # s \<and> like esc ps s)"
      then show "\<exists>p s. t = p @ CHR ''/'' # s \<and> like esc ps s"
        using skip_char_suffix [of t] by (metis append.assoc append_Nil)
    next
      assume "\<exists>p s. t = p @ CHR ''/'' # s \<and> like esc ps s"
      then obtain p s where ps: "t = p @ CHR ''/'' # s" "like esc ps s" by blast
      then show "(\<exists>s. t = CHR ''/'' # s \<and> like esc ps s) \<or> (\<exists>p s. skip_char t = p @ CHR ''/'' # s \<and> like esc ps s)"
        using skip_char_slash [OF ps(1)] by (cases "p = []") auto
    qed
  qed
qed

text \<open>
  \<^verbatim>\<open>escape_like\<close> makes an entry point a literal: a path ranks first exactly when, up to the case
  of ASCII letters after a slash, it is the entry or ends in a slash and the entry (an entry with a
  dot), or it is or ends in the entry followed by an extension (an entry without one). Underscores
  and percent signs of an entry match only themselves.
\<close>

theorem entry_rank_literal:
  "entry_rank entry path \<longleftrightarrow>
     (if CHR ''.'' \<in> set entry
      then path = entry \<or> (\<exists>p s. path = p @ ''/'' @ s \<and> same_text s entry)
      else (\<exists>s r. same_text s entry \<and> (path = s @ ''.'' @ r \<or> (\<exists>p. path = p @ ''/'' @ s @ ''.'' @ r))))"
proof -
  let ?e = "Some (CHR 0x5C)"
  have esc: "?e \<noteq> Some CHR ''%''" "?e \<noteq> Some CHR ''.''" "?e \<noteq> Some CHR ''/''" by simp_all
  have full: "like ?e (escape_like entry) t \<longleftrightarrow> same_text t entry" for t
    using like_escape_like [of entry "[]" t] by simp
  have stem: "like ?e (escape_like entry @ ''.%'') t \<longleftrightarrow> (\<exists>s r. same_text s entry \<and> t = s @ ''.'' @ r)" for t
    unfolding like_escape_like like_dot_percent [OF esc(1,2)] by auto
  have after: "like ?e (''%/'' @ ps) t \<longleftrightarrow> (\<exists>p s. t = p @ ''/'' @ s \<and> like ?e ps s)" for ps t
    using like_percent_slash [OF esc(1,3)] by simp
  show ?thesis unfolding entry_rank_def after full stem by (auto 4 4)
qed


text \<open>
  The directory lookups pass the caller's text to LIKE unescaped: asking for the files under
  \<open>my_lib\<close> also returns a file of \<open>my-lib\<close>.
\<close>

theorem directory_lookup_is_a_pattern:
  "map nr_file_path (find_files_under
     (empty_store\<lparr>nodes := [node_row (new_NodeRecord ''f'' ''File'' ''a.go'' ''a.go'' ''my-lib/a.go'' ''go'')]\<rparr>)
     ''my_lib'' [] 5) = [''my-lib/a.go''] \<and>
   \<not> path_is_under ''my-lib/a.go'' ''my_lib''"
  by code_simp

section \<open>Positions\<close>

definition encloses :: "NodeRow \<Rightarrow> NodeRow \<Rightarrow> bool" where
  "encloses a b \<longleftrightarrow>
     (n_startLine a < n_startLine b \<or> n_startLine a = n_startLine b \<and> n_startCol a \<le> n_startCol b) \<and>
     (n_endLine b < n_endLine a \<or> n_endLine b = n_endLine a \<and> n_endCol b \<le> n_endCol a)"

definition extent :: "NodeRow \<Rightarrow> int \<times> int \<times> int \<times> int" where
  "extent n = (n_startLine n, n_startCol n, n_endLine n, n_endCol n)"

definition at_position :: "store \<Rightarrow> string \<Rightarrow> nat \<Rightarrow> nat \<Rightarrow> NodeRow \<Rightarrow> bool" where
  "at_position st file_path ln cl n \<longleftrightarrow> n \<in> set (nodes st) \<and> n_filePath n = file_path \<and> declaration_only n \<and>
     contains_position (int ln) (int cl) n"

lemma encloses_span_rank:
  assumes "encloses a b" "span_rank a \<le> span_rank b"
  shows "extent b = extent a \<and> (n_kind a = ''File'' \<longrightarrow> n_kind b = ''File'')"
  using assms by (auto simp: encloses_def span_rank_def extent_def less_eq_prod_def split: if_splits)

text \<open>
  C34. A position lookup returns an innermost declaration: it is a declaration of the file that
  contains the position, and a declaration that lies inside it and contains the position too has
  the same extent; among equal extents a node that is no File comes first. When nothing is found no
  declaration of the file contains the position.
\<close>

theorem find_by_position_innermost:
  "case find_by_position st file_path ln cl of
     None \<Rightarrow> \<not> (\<exists>n. at_position st file_path ln cl n)
   | Some r \<Rightarrow> \<exists>n. r = map_node_row n \<and> at_position st file_path ln cl n \<and>
       (\<nexists>b. at_position st file_path ln cl b \<and> encloses n b \<and>
          (extent b \<noteq> extent n \<or> n_kind n = ''File'' \<and> n_kind b \<noteq> ''File''))"
proof -
  define hits where "hits = sort_key span_rank (filter (\<lambda>n. n_filePath n = file_path \<and> declaration_only n \<and>
         contains_position (int ln) (int cl) n) (nodes st))"
  have at: "at_position st file_path ln cl n \<longleftrightarrow> n \<in> set hits" for n
    by (auto simp: hits_def at_position_def)
  show ?thesis
  proof (cases hits)
    case Nil
    then show ?thesis using at by (simp add: find_by_position_def hits_def [symmetric])
  next
    case (Cons n rest)
    have "sorted (map span_rank hits)" by (simp add: hits_def)
    then have least: "\<forall>b\<in>set hits. span_rank n \<le> span_rank b" using Cons by auto
    have "find_by_position st file_path ln cl = Some (map_node_row n)"
      using Cons by (simp add: find_by_position_def hits_def [symmetric])
    then show ?thesis using least encloses_span_rank [of n] Cons at by auto
  qed
qed

section \<open>Parent chains\<close>

lemma chain_loop_unfold:
  "chain_loop st language seen current =
     (case parent_of st language current of
        None \<Rightarrow> []
      | Some parent \<Rightarrow> if parent \<in> set seen then [] else parent # chain_loop st language (parent # seen) parent)"
  by (rule chain_loop.simps)

declare chain_loop.simps [simp del]

lemma chain_loop_fresh:
  "distinct (chain_loop st language seen current) \<and> set (chain_loop st language seen current) \<inter> set seen = {}"
proof (induction st language seen current rule: chain_loop.induct)
  case (1 st language seen current)
  then show ?case by (subst (1 2) chain_loop_unfold) (auto split: option.splits)
qed

lemma chain_loop_links:
  "i < length (chain_loop st language seen current) \<Longrightarrow>
     parent_of st language ((current # chain_loop st language seen current) ! i) =
       Some (chain_loop st language seen current ! i)"
proof (induction st language seen current arbitrary: i rule: chain_loop.induct)
  case (1 st language seen current)
  let ?c = "chain_loop st language seen current"
  obtain p where p: "parent_of st language current = Some p" "p \<notin> set seen"
    using "1.prems" chain_loop_unfold [of st language seen current] by (auto split: option.splits if_splits)
  then have c: "?c = p # chain_loop st language (p # seen) p"
    using chain_loop_unfold [of st language seen current] by simp
  show ?case
  proof (cases i)
    case 0
    then show ?thesis using p c by simp
  next
    case (Suc j)
    then have "j < length (chain_loop st language (p # seen) p)" using "1.prems" c by simp
    then show ?thesis using "1.IH" [OF p, of j] c Suc by simp
  qed
qed

lemma chain_loop_maximal:
  "(case parent_of st language (last (current # chain_loop st language seen current)) of
      None \<Rightarrow> True | Some p \<Rightarrow> p \<in> set seen \<union> set (chain_loop st language seen current))"
proof (induction st language seen current rule: chain_loop.induct)
  case (1 st language seen current)
  then show ?case by (subst (1 2) chain_loop_unfold) (auto split: option.splits)
qed

section \<open>Ancestors\<close>

definition ancestor :: "store \<Rightarrow> string \<Rightarrow> (string \<times> string) set" where
  "ancestor st language = {(k, p). parent_of st language k = Some p}\<^sup>+"

definition acyclic_parents :: "store \<Rightarrow> bool" where
  "acyclic_parents st \<longleftrightarrow> (\<forall>language k. (k, k) \<notin> ancestor st language)"

lemma chain_loop_ancestor:
  "p \<in> set (chain_loop st language seen current) \<Longrightarrow> (current, p) \<in> ancestor st language"
proof (induction st language seen current rule: chain_loop.induct)
  case (1 st language seen current)
  obtain q where q: "parent_of st language current = Some q" "q \<notin> set seen"
    using "1.prems" chain_loop_unfold [of st language seen current] by (auto split: option.splits if_splits)
  then have "p = q \<or> p \<in> set (chain_loop st language (q # seen) q)"
    using "1.prems" chain_loop_unfold [of st language seen current] by auto
  moreover have "(current, q) \<in> ancestor st language" using q(1) by (auto simp: ancestor_def)
  ultimately show ?case using "1.IH" [OF q] unfolding ancestor_def by (auto intro: trancl_trans)
qed

lemma chain_loop_last:
  assumes "chain_loop st language [key] key = chain" "chain \<noteq> []"
  shows "(key, last chain) \<in> ancestor st language"
  using chain_loop_ancestor [of "last chain" st language "[key]" key] assms by simp

lemma chain_loop_upwards:
  assumes "i \<le> j" "j < length (chain_loop st language seen key)"
  shows "(chain_loop st language seen key ! i, chain_loop st language seen key ! j) \<in> (ancestor st language)\<^sup>="
  using assms
proof (induction j rule: dec_induct)
  case (step j)
  let ?chain = "chain_loop st language seen key"
  have "parent_of st language (?chain ! j) = Some (?chain ! Suc j)"
    using chain_loop_links [of "Suc j" st language seen key] step by simp
  then have "(?chain ! j, ?chain ! Suc j) \<in> ancestor st language" by (auto simp: ancestor_def)
  then show ?case using step unfolding ancestor_def by (auto intro: trancl_trans)
qed simp

lemma parent_chain_top:
  assumes "acyclic_parents st" and chain: "chain = chain_loop st language [key] key"
  shows "parent_of st language (last (key # chain)) = None"
proof (rule ccontr)
  assume "parent_of st language (last (key # chain)) \<noteq> None"
  then obtain p where p: "parent_of st language (last (key # chain)) = Some p" by blast
  have up: "(last (key # chain), p) \<in> ancestor st language" using p by (auto simp: ancestor_def)
  have "p \<in> set [key] \<union> set chain"
    using chain_loop_maximal [where st = st and language = language and current = key and seen = "[key]"] p
    unfolding chain by simp
  then have "(p, p) \<in> ancestor st language"
  proof
    assume "p \<in> set [key]"
    then show ?thesis using up chain_loop_last [OF chain [symmetric]]
      unfolding ancestor_def by (cases "chain = []") (auto intro: trancl_trans)
  next
    assume "p \<in> set chain"
    then obtain i where i: "i < length chain" "chain ! i = p" by (auto simp: in_set_conv_nth)
    then have "(p, last chain) \<in> (ancestor st language)\<^sup>="
      using chain_loop_upwards [of i "length chain - 1" st language "[key]" key, folded chain]
      by (cases "chain = []") (simp_all add: last_conv_nth)
    moreover have "last (key # chain) = last chain" using i by (cases chain) auto
    ultimately show ?thesis using up unfolding ancestor_def by (auto intro: trancl_trans)
  qed
  then show False using assms(1) by (simp add: acyclic_parents_def)
qed

lemma parent_chain_exact:
  assumes "acyclic_parents st"
  shows "set (parent_chain st language key) = {p. (key, p) \<in> ancestor st language}"
proof -
  define chain where "chain = chain_loop st language [key] key"
  have "p \<in> set chain" if "(key, p) \<in> ancestor st language" for p
    using that unfolding ancestor_def
  proof (induction rule: trancl_induct)
    case (base p)
    then show ?case using chain_loop_unfold [of st language "[key]" key] assms
      unfolding chain_def [symmetric] acyclic_parents_def ancestor_def by auto
  next
    case (step p q)
    then obtain i where i: "i < length chain" "chain ! i = p" by (auto simp: in_set_conv_nth)
    show ?case
    proof (cases "Suc i < length chain")
      case True
      then show ?thesis using chain_loop_links [of "Suc i" st language "[key]" key] i step
        unfolding chain_def [symmetric] by auto
    next
      case False
      then have "last (key # chain) = p" using i by (cases "chain = []") (auto simp: last_conv_nth intro: arg_cong)
      then show ?thesis using parent_chain_top [OF assms chain_def] step by simp
    qed
  qed
  moreover have "set chain \<subseteq> {p. (key, p) \<in> ancestor st language}"
    using chain_loop_ancestor unfolding chain_def by blast
  ultimately show ?thesis unfolding parent_chain_def chain_def by blast
qed


section \<open>Reading back writes\<close>

lemma get_node_at: "get_node st i = map_option map_node_row (node_at st i)"
  by (simp add: get_node_def node_at_def)

text \<open>
  A node that was upserted reads back as the record that was sent, less what other tables hold,
  with \<open>exported\<close> derived from its visibility; after \<^verbatim>\<open>delete_node\<close> it is gone; and neither
  changes what \<^verbatim>\<open>get_node\<close> says of any other id. Container nodes are excepted.
\<close>

theorem node_reads_back:
  assumes "keyed n_id (nodes st)" "\<forall>l k. i \<noteq> container_id sha l k"
    and "\<forall>p. nr_qualified_path node = Some p \<longrightarrow> check p = Inr ()"
  shows "(snd (upsert_node sha st node) = Inr () \<longrightarrow>
      get_node (fst (upsert_node sha st node)) i =
        (if i = nr_id node
         then Some (node\<lparr>nr_exported := (nr_visibility node = ''public''), nr_container_parent := None,
           nr_target := None, nr_declarations := [], nr_alias_paths := [], nr_untyped_calls := []\<rparr>)
         else get_node st i)) \<and>
    (snd (delete_node sha st j) = Inr () \<longrightarrow>
      get_node (fst (delete_node sha st j)) i = (if i = j then None else get_node st i))"
proof (intro conjI impI)
  assume "snd (upsert_node sha st node) = Inr ()"
  from apply_diff_nodes [OF assms(1) this [unfolded upsert_node_def] assms(2)]
  show "get_node (fst (upsert_node sha st node)) i =
        (if i = nr_id node
         then Some (node\<lparr>nr_exported := (nr_visibility node = ''public''), nr_container_parent := None,
           nr_target := None, nr_declarations := [], nr_alias_paths := [], nr_untyped_calls := []\<rparr>)
         else get_node st i)"
    using map_node_row_node_row assms(3)
    by (auto simp: get_node_at upsert_node_def node_map_after_def last_upsert_def default_Diff_def)
next
  assume "snd (delete_node sha st j) = Inr ()"
  from apply_diff_nodes [OF assms(1) this [unfolded delete_node_def] assms(2)]
  show "get_node (fst (delete_node sha st j)) i = (if i = j then None else get_node st i)"
    by (auto simp: get_node_at delete_node_def node_map_after_def last_upsert_def default_Diff_def)
qed

section \<open>Concrete lookups\<close>

definition nested_modules :: store where
  "nested_modules = empty_store\<lparr>
     nodes := map node_row [
       (new_NodeRecord ''F'' ''File'' ''a.rs'' ''a.rs'' ''a.rs'' ''rust'')\<lparr>nr_end_line := 9\<rparr>,
       (new_NodeRecord ''f'' ''Function'' ''f'' ''f'' ''a.rs'' ''rust'')\<lparr>nr_start_line := 1, nr_end_line := 2\<rparr>,
       (new_NodeRecord ''g'' ''Function'' ''g'' ''g'' ''a.rs'' ''rust'')\<lparr>nr_start_line := 4, nr_end_line := 5\<rparr>],
     edges := map edge_row [new_EdgeRecord ''1'' ''C'' ''f'' ''DEFINES'' ''core'' True,
       new_EdgeRecord ''2'' ''D'' ''g'' ''DEFINES'' ''core'' True],
     containers := [\<lparr>c_nodeId = ''C'', c_language = ''rust'', c_key = ''a'', c_parentKey = None, c_memberCount = 1\<rparr>,
       \<lparr>c_nodeId = ''D'', c_language = ''rust'', c_key = ''a::b'', c_parentKey = Some ''a'', c_memberCount = 1\<rparr>]\<rparr>"

lemma nested_modules_parent:
  "parent_of nested_modules l k = Some p \<Longrightarrow> k = ''a::b'' \<and> p = ''a''"
  by (auto simp: parent_of_def nested_modules_def split: if_splits)

lemma nested_modules_acyclic: "acyclic_parents nested_modules"
proof -
  have "ancestor nested_modules l \<subseteq> {(''a::b'', ''a'')}" for l
  proof -
    have r: "{(k, p). parent_of nested_modules l k = Some p} \<subseteq> {(''a::b'', ''a'')}"
      using nested_modules_parent by auto
    have "trans {(''a::b'', ''a'')}" by (simp add: trans_def)
    then show ?thesis unfolding ancestor_def using trancl_mono_subset [OF r] trancl_id by metis
  qed
  then show ?thesis unfolding acyclic_parents_def by fastforce
qed


theorem find_by_position_innermost_witness:
  "\<exists>n. find_by_position nested_modules ''a.rs'' 4 3 = Some (map_node_row n) \<and> n_id n = ''g'' \<and>
     at_position nested_modules ''a.rs'' 4 3 n"
proof -
  have "map_option nr_id (find_by_position nested_modules ''a.rs'' 4 3) = Some ''g''" by code_simp
  then obtain r where r: "find_by_position nested_modules ''a.rs'' 4 3 = Some r" "nr_id r = ''g''" by auto
  with find_by_position_innermost [of nested_modules "''a.rs''" 4 3] show ?thesis
    by (auto simp: map_node_row_def)
qed

theorem node_reads_back_witness:
  "get_node (fst (upsert_node rev empty_store (new_NodeRecord ''a'' ''Function'' ''f'' ''f'' ''a.go'' ''go''))) ''a'' =
     Some ((new_NodeRecord ''a'' ''Function'' ''f'' ''f'' ''a.go'' ''go'')\<lparr>nr_exported :=
       (nr_visibility (new_NodeRecord ''a'' ''Function'' ''f'' ''f'' ''a.go'' ''go'') = ''public'')\<rparr>)"
proof -
  let ?n = "new_NodeRecord ''a'' ''Function'' ''f'' ''f'' ''a.go'' ''go''"
  have k: "keyed n_id (nodes empty_store)" by (simp add: empty_store_def)
  have q: "\<forall>p. nr_qualified_path ?n = Some p \<longrightarrow> check p = Inr ()" by (simp add: new_NodeRecord_def)
  have ok: "snd (upsert_node rev empty_store ?n) = Inr ()" by code_simp
  from node_reads_back [OF k sample_not_container q] ok show ?thesis by (simp add: new_NodeRecord_def)
qed

end
