(* ===== verification/Symbol_Links.thy ===== *)
theory Symbol_Links
  imports Queries
begin

text \<open>
  \<^verbatim>\<open>core/src/graph/symbol_links.rs\<close>: the pass that turns a placeholder's usage edges into edges onto
  the declaration they mean. A placeholder names a scope and a key; the resolver looks for visible
  declarations there, follows re-exports breadth first, and an edge is moved only onto a single
  fitting candidate. The resolver's caches hold results of lookups over tables that linking does
  not write, and are left out. Hash maps and sets are lists; their order does not reach a result.
\<close>

definition PENDING_SYMBOL_NATIVE_KIND :: string where "PENDING_SYMBOL_NATIVE_KIND = ''pending_symbol''"
definition REEXPORT_NATIVE_KIND :: string where "REEXPORT_NATIVE_KIND = ''reexport''"
definition REEXPORT_ALL_NAME :: string where "REEXPORT_ALL_NAME = ''*''"
definition DEFAULT_EXPORT_NAME :: string where "DEFAULT_EXPORT_NAME = ''default''"
definition MAX_REEXPORT_DEPTH :: nat where "MAX_REEXPORT_DEPTH = 8"
definition TYPE_KIND :: string where "TYPE_KIND = ''Type''"

text \<open>First occurrences, as a hash set used as a filter leaves them.\<close>

definition nub :: "'a list \<Rightarrow> 'a list" where
  "nub xs = rev (remdups (rev xs))"

definition LINKABLE_EDGE_KINDS :: "(string \<times> string list option) list" where
  "LINKABLE_EDGE_KINDS =
     [(''CALLS'', Some [''Function'']), (''SUPERTYPE_OF'', Some [''Type'', ''Function'']), (''REFERENCES'', None)]"

definition ENGINE_ANSWER_EDGE_KINDS :: "string list" where
  "ENGINE_ANSWER_EDGE_KINDS = [''CALLS'', ''REFERENCES'']"

definition ENGINE_ANSWER_CALL_TARGET_KINDS :: "string list" where
  "ENGINE_ANSWER_CALL_TARGET_KINDS = [''Function'', ''Variable'', ''Type'']"

definition required_target_kind :: "string \<Rightarrow> bool \<Rightarrow> string list option option" where
  "required_target_kind edge_kind engine_answer =
     (if engine_answer \<and> edge_kind = ''CALLS'' then Some (Some ENGINE_ANSWER_CALL_TARGET_KINDS)
      else map_of LINKABLE_EDGE_KINDS edge_kind)"

definition is_declaration :: "string option \<Rightarrow> bool" where
  "is_declaration native_kind =
     (case native_kind of None \<Rightarrow> True | Some k \<Rightarrow> k \<notin> set NON_DECLARATION_NATIVE_KINDS)"

datatype Scope = FileScopeOf string | ContainerScope string string

datatype LinkKey = KeyName string | KeyQualifiedName string

definition scope_from_row :: "string \<Rightarrow> string \<Rightarrow> string \<Rightarrow> Scope option" where
  "scope_from_row scope_kind scope language =
     (if scope_kind = ''file'' then Some (FileScopeOf scope)
      else if scope_kind = ''container'' then Some (ContainerScope language scope) else None)"

definition container_of :: "string \<Rightarrow> string option \<Rightarrow> Scope option" where
  "container_of language container =
     (case container of None \<Rightarrow> None | Some key \<Rightarrow> if key = [] then None else Some (ContainerScope language key))"

definition scopes_of_node :: "string \<Rightarrow> string \<Rightarrow> string option \<Rightarrow> Scope list" where
  "scopes_of_node file language container =
     FileScopeOf file # (case container_of language container of None \<Rightarrow> [] | Some s \<Rightarrow> [s])"

definition bind_scope :: "Scope \<Rightarrow> string \<times> string \<times> string option" where
  "bind_scope s = (case s of FileScopeOf path \<Rightarrow> (''file'', path, None)
                   | ContainerScope language key \<Rightarrow> (''container'', key, Some language))"

definition key_from_row :: "string \<Rightarrow> string \<Rightarrow> LinkKey option" where
  "key_from_row key_kind key =
     (if key_kind = ''name'' then Some (KeyName key)
      else if key_kind = ''qualifiedName'' then Some (KeyQualifiedName key) else None)"

definition is_engine_answer :: "string \<Rightarrow> LinkKey \<Rightarrow> bool" where
  "is_engine_answer source key \<longleftrightarrow> source = ''semantic'' \<and> (case key of KeyQualifiedName _ \<Rightarrow> True | _ \<Rightarrow> False)"

type_synonym Address = "Scope \<times> string"
type_synonym Step = "Scope \<times> LinkKey"

record Requester =
  rq_file :: string
  rq_container :: "string option"
  rq_language :: string
  rq_engine_answer :: bool

record Placeholder =
  ph_id :: string
  ph_scope :: Scope
  ph_key :: LinkKey
  ph_key_path :: "QualifiedPath option"
  ph_requester :: Requester

record LinkRules =
  lr_named_shadows_glob :: "string list"
  lr_later_import_binds :: "string list"

record Candidate =
  cd_id :: string
  cd_kind :: string
  cd_file_path :: string
  cd_language :: string
  cd_visibility :: string
  cd_visibility_container :: "string option"
  cd_qualified_name :: string
  cd_container :: "string option"
  cd_qualified_path :: "string option"
  cd_native_kind :: "string option"

record Hop =
  h_to :: Step
  h_named :: bool
  h_named_shadows_glob :: bool
  h_later_import_binds :: bool
  h_position :: "string \<times> int \<times> int"
  h_restricted_to :: "(string \<times> string option) option"

section \<open>Lookups of the resolver\<close>

definition target_of :: "store \<Rightarrow> string \<Rightarrow> TargetRow option" where
  "target_of st i = select_by t_nodeId i (placeholder_targets st)"

definition head_name :: "QualifiedPath \<Rightarrow> string option" where
  "head_name key_path =
     (let ss = segments key_path
      in if 2 \<le> length ss then Some (seg_name (ss ! (length ss - 2))) else None)"

definition nonempty :: "string option \<Rightarrow> string option" where
  "nonempty s = (case s of None \<Rightarrow> None | Some k \<Rightarrow> if k = [] then None else Some k)"

definition placeholder_from_row :: "store \<Rightarrow> NodeRow \<Rightarrow> Placeholder option" where
  "placeholder_from_row st n =
     (case target_of st (n_id n) of None \<Rightarrow> None
      | Some t \<Rightarrow>
          (case (scope_from_row (t_scopeKind t) (t_scope t) (n_language n), key_from_row (t_keyKind t) (t_key t)) of
             (Some scope, Some key) \<Rightarrow>
               Some \<lparr>ph_id = n_id n, ph_scope = scope, ph_key = key,
                     ph_key_path = Option.bind (t_keyPath t) decode,
                     ph_requester = \<lparr>rq_file = t_fromFile t, rq_container = nonempty (t_fromContainer t),
                       rq_language = n_language n, rq_engine_answer = False\<rparr>\<rparr>
           | _ \<Rightarrow> None))"

definition is_placeholder :: "string \<Rightarrow> string option \<Rightarrow> bool" where
  "is_placeholder kind native_kind \<longleftrightarrow> kind = MODULE_KIND \<and> native_kind = Some PENDING_SYMBOL_NATIVE_KIND"

definition is_reexport :: "string \<Rightarrow> string option \<Rightarrow> bool" where
  "is_reexport kind native_kind \<longleftrightarrow> kind = MODULE_KIND \<and> native_kind = Some REEXPORT_NATIVE_KIND"

definition candidate_of_row :: "NodeRow \<Rightarrow> Candidate" where
  "candidate_of_row n =
     \<lparr>cd_id = n_id n, cd_kind = n_kind n, cd_file_path = n_filePath n, cd_language = n_language n,
      cd_visibility = n_visibility n, cd_visibility_container = n_visibilityContainer n,
      cd_qualified_name = n_qualifiedName n, cd_container = n_container n,
      cd_qualified_path = n_qualifiedPath n, cd_native_kind = n_nativeKind n\<rparr>"

definition in_scope :: "Scope \<Rightarrow> NodeRow \<Rightarrow> bool" where
  "in_scope scope n = (case scope of FileScopeOf path \<Rightarrow> n_filePath n = path
                       | ContainerScope language key \<Rightarrow> n_language n = language \<and> n_container n = Some key)"

definition declared :: "store \<Rightarrow> Scope \<Rightarrow> LinkKey \<Rightarrow> Candidate list" where
  "declared st scope key =
     map candidate_of_row (filter (\<lambda>n. in_scope scope n \<and> declaration_only n \<and>
       (case key of KeyName name \<Rightarrow> n_name n = name | KeyQualifiedName q \<Rightarrow> n_qualifiedName n = q)) (nodes st))"

definition hop_key :: "string \<Rightarrow> string \<Rightarrow> TargetRow \<Rightarrow> LinkKey option" where
  "hop_key name published t =
     (let whole_module = (published = REEXPORT_ALL_NAME)
      in if t_keyKind t = ''name'' then
           (if \<not> whole_module then Some (KeyName (t_key t))
            else if name \<noteq> DEFAULT_EXPORT_NAME then Some (KeyName name) else None)
         else if t_keyKind t = ''qualifiedName'' \<and> \<not> whole_module then Some (KeyQualifiedName (t_key t)) else None)"

definition hop_of_row :: "store \<Rightarrow> LinkRules \<Rightarrow> string \<Rightarrow> NodeRow \<Rightarrow> Hop option" where
  "hop_of_row st rules name n =
     (case target_of st (n_id n) of None \<Rightarrow> None
      | Some t \<Rightarrow>
          (case (scope_from_row (t_scopeKind t) (t_scope t) (n_language n), hop_key name (n_name n) t) of
             (Some scope, Some key) \<Rightarrow>
               Some \<lparr>h_to = (scope, key), h_named = (n_name n \<noteq> REEXPORT_ALL_NAME),
                     h_named_shadows_glob = (n_language n \<in> set (lr_named_shadows_glob rules)),
                     h_later_import_binds = (n_language n \<in> set (lr_later_import_binds rules)),
                     h_position = (n_filePath n, n_startLine n, n_startCol n),
                     h_restricted_to = (if n_visibility n = ''container''
                       then Some (n_language n, n_visibilityContainer n) else None)\<rparr>
           | _ \<Rightarrow> None))"

definition hops_at :: "store \<Rightarrow> LinkRules \<Rightarrow> Scope \<Rightarrow> string \<Rightarrow> Hop list" where
  "hops_at st rules scope name =
     List.map_filter (hop_of_row st rules name)
       (filter (\<lambda>n. in_scope scope n \<and> is_reexport (n_kind n) (n_nativeKind n) \<and> n_name n \<in> {name, REEXPORT_ALL_NAME})
         (nodes st))"

definition sees :: "store \<Rightarrow> Requester \<Rightarrow> string \<Rightarrow> string option \<Rightarrow> bool" where
  "sees st rq language container =
     (case (container, rq_container rq) of
        (Some visible_in, Some from) \<Rightarrow>
          language = rq_language rq \<and> visible_in \<in> set (from # parent_chain st (rq_language rq) from)
      | _ \<Rightarrow> False)"

definition visible :: "store \<Rightarrow> Candidate \<Rightarrow> Scope \<Rightarrow> Requester \<Rightarrow> bool" where
  "visible st c scope rq =
     (if cd_visibility c = ''public'' then True
      else if cd_visibility c = ''file'' then
        (case scope of ContainerScope _ _ \<Rightarrow> cd_file_path c = rq_file rq | FileScopeOf _ \<Rightarrow> False)
      else if cd_visibility c = ''container'' then sees st rq (cd_language c) (cd_visibility_container c)
      else False)"

definition admits :: "store \<Rightarrow> Candidate \<Rightarrow> Scope \<Rightarrow> LinkKey \<Rightarrow> Requester \<Rightarrow> bool" where
  "admits st c scope key rq =
     ((rq_engine_answer rq \<and> (case key of KeyQualifiedName _ \<Rightarrow> True | _ \<Rightarrow> False)) \<or> visible st c scope rq)"

definition position_of :: "store \<Rightarrow> string \<Rightarrow> int \<times> int" where
  "position_of st i = (case select_by n_id i (nodes st) of Some n \<Rightarrow> (n_startLine n, n_startCol n) | None \<Rightarrow> (0, 0))"

definition rebinds :: "store \<Rightarrow> Candidate list \<Rightarrow> Hop list \<Rightarrow> bool" where
  "rebinds st candidates hops =
     (case hops of
        [hop] \<Rightarrow>
          (let own = filter (\<lambda>c. cd_file_path c = fst (h_position hop)) candidates
           in own \<noteq> [] \<and> (\<forall>c\<in>set own. position_of st (cd_id c) < snd (h_position hop)))
      | _ \<Rightarrow> False)"

section \<open>Re-exports\<close>

definition later_binding :: "(Step \<Rightarrow> bool) \<Rightarrow> Hop list \<Rightarrow> Hop list" where
  "later_binding provides hops =
     (if list_all (\<lambda>h. fst (h_position h) = fst (h_position (hd hops))) hops \<and>
         distinct (map (\<lambda>h. snd (h_position h)) hops)
      then (case find (\<lambda>h. h_named h \<or> provides (h_to h))
                   (sort_key (\<lambda>h. (- fst (snd (h_position h)), - snd (snd (h_position h)))) hops) of
              None \<Rightarrow> [] | Some h \<Rightarrow> [h])
      else hops)"

definition binding_hops ::
  "(Step \<Rightarrow> bool) \<Rightarrow> store \<Rightarrow> LinkRules \<Rightarrow> Scope \<Rightarrow> string \<Rightarrow> Requester \<Rightarrow> Hop list" where
  "binding_hops provides st rules scope name rq =
     (let hops = hops_at st rules scope name;
          unshadowed = (if list_ex (\<lambda>h. h_named h \<and> h_named_shadows_glob h) hops
                        then filter (\<lambda>h. h_named h \<or> \<not> h_named_shadows_glob h) hops else hops);
          followed = filter (\<lambda>h. case h_restricted_to h of None \<Rightarrow> True
                       | Some (language, container) \<Rightarrow> sees st rq language container) unshadowed
      in if followed \<noteq> [] \<and> list_all h_later_import_binds followed then later_binding provides followed
         else followed)"

fun first_candidates :: "string list \<Rightarrow> Candidate list \<Rightarrow> Candidate list" where
  "first_candidates seen [] = []"
| "first_candidates seen (c # cs) =
     (if cd_id c \<in> set seen then first_candidates seen cs else c # first_candidates (cd_id c # seen) cs)"

definition found_at :: "store \<Rightarrow> Requester \<Rightarrow> Step \<Rightarrow> Candidate list" where
  "found_at st rq step = filter (\<lambda>c. admits st c (fst step) (snd step) rq) (declared st (fst step) (snd step))"

definition hops_from :: "(Step \<Rightarrow> bool) \<Rightarrow> store \<Rightarrow> LinkRules \<Rightarrow> Requester \<Rightarrow> Step \<Rightarrow> Hop list" where
  "hops_from provides st rules rq step =
     (case snd step of KeyName name \<Rightarrow> binding_hops provides st rules (fst step) name rq
      | KeyQualifiedName _ \<Rightarrow> [])"

definition kept_at :: "(Step \<Rightarrow> bool) \<Rightarrow> store \<Rightarrow> LinkRules \<Rightarrow> Requester \<Rightarrow> Step \<Rightarrow> Candidate list" where
  "kept_at provides st rules rq step =
     (let found = found_at st rq step
      in case snd step of
           KeyName _ \<Rightarrow>
             if list_ex (\<lambda>c. cd_language c \<in> set (lr_later_import_binds rules)) found \<and>
                rebinds st found (hops_from provides st rules rq step)
             then [] else found
         | KeyQualifiedName _ \<Rightarrow> found)"

text \<open>The loop of \<^verbatim>\<open>walk_capped\<close>; the first argument is how many levels are left below this one.\<close>

primrec walk_loop ::
  "nat \<Rightarrow> store \<Rightarrow> LinkRules \<Rightarrow> Requester \<Rightarrow> nat \<Rightarrow> Step list \<Rightarrow> Step list \<Rightarrow> Candidate list \<times> nat" where
  "walk_loop 0 st rules rq depth frontier visited =
     (first_candidates [] (concat (map (found_at st rq) frontier)), depth)"
| "walk_loop (Suc n) st rules rq depth frontier visited =
     (let provides = (\<lambda>step. fst (walk_loop n st rules rq 0 [step] [step]) \<noteq> []);
          candidates = first_candidates [] (concat (map (kept_at provides st rules rq) frontier))
      in if candidates \<noteq> [] then (candidates, depth)
         else
           let next = filter (\<lambda>s. s \<notin> set visited)
                 (nub (concat (map (\<lambda>step. map h_to (hops_from provides st rules rq step)) frontier)))
           in if next = [] then ([], 0)
              else walk_loop n st rules rq (Suc depth) next (visited @ next))"

definition provides :: "nat \<Rightarrow> store \<Rightarrow> LinkRules \<Rightarrow> Requester \<Rightarrow> Step \<Rightarrow> bool" where
  "provides cap st rules rq step \<longleftrightarrow> fst (walk_loop cap st rules rq 0 [step] [step]) \<noteq> []"

lemma walk_loop_code [code]:
  "walk_loop 0 st rules rq depth frontier visited =
     (first_candidates [] (concat (map (found_at st rq) frontier)), depth)"
  "walk_loop (Suc n) st rules rq depth frontier visited =
     (let candidates = first_candidates [] (concat (map (kept_at (provides n st rules rq) st rules rq) frontier))
      in if candidates \<noteq> [] then (candidates, depth)
         else
           let next = filter (\<lambda>s. s \<notin> set visited)
                 (nub (concat (map (\<lambda>step. map h_to (hops_from (provides n st rules rq) st rules rq step)) frontier)))
           in if next = [] then ([], 0)
              else walk_loop n st rules rq (Suc depth) next (visited @ next))"
  by (simp_all add: provides_def [abs_def] Let_def)

definition walk_capped ::
  "nat \<Rightarrow> store \<Rightarrow> LinkRules \<Rightarrow> Scope \<Rightarrow> LinkKey \<Rightarrow> Requester \<Rightarrow> Candidate list \<times> nat" where
  "walk_capped cap st rules scope key rq = walk_loop cap st rules rq 0 [(scope, key)] [(scope, key)]"

definition walk :: "store \<Rightarrow> LinkRules \<Rightarrow> Scope \<Rightarrow> LinkKey \<Rightarrow> Requester \<Rightarrow> Candidate list \<times> nat" where
  "walk st rules scope key rq = walk_capped MAX_REEXPORT_DEPTH st rules scope key rq"

definition through_head :: "store \<Rightarrow> LinkRules \<Rightarrow> Placeholder \<Rightarrow> QualifiedPath \<Rightarrow> Requester \<Rightarrow> Candidate list" where
  "through_head st rules p key_path rq =
     (case (head_name key_path, last_segment key_path) of
        (Some hd_name, Some member) \<Rightarrow>
          (case walk st rules (ph_scope p) (KeyName hd_name) (rq\<lparr>rq_engine_answer := False\<rparr>) of
             ([h], depth) \<Rightarrow>
               if depth = 0 then []
               else
                 let scope = (case container_of (cd_language h) (cd_container h) of
                                Some s \<Rightarrow> s | None \<Rightarrow> FileScopeOf (cd_file_path h));
                     member_key = KeyQualifiedName (cd_qualified_name h @
                       (case sep member of Some s \<Rightarrow> s | None \<Rightarrow> []) @ seg_name member)
                 in filter (\<lambda>c. admits st c scope member_key rq) (declared st scope member_key)
           | _ \<Rightarrow> [])
      | _ \<Rightarrow> [])"

definition resolve :: "store \<Rightarrow> LinkRules \<Rightarrow> Placeholder \<Rightarrow> Requester \<Rightarrow> Candidate list" where
  "resolve st rules p rq =
     (let candidates = fst (walk st rules (ph_scope p) (ph_key p) rq)
      in if candidates \<noteq> [] then candidates
         else case (ph_key p, ph_key_path p) of
                (KeyQualifiedName _, Some key_path) \<Rightarrow> through_head st rules p key_path rq
              | _ \<Rightarrow> [])"

section \<open>Choosing\<close>

definition strip_suffix :: "string \<Rightarrow> string \<Rightarrow> string option" where
  "strip_suffix t s = map_option rev (strip_prefix (rev t) (rev s))"

definition type_parents :: "store \<Rightarrow> Candidate \<Rightarrow> string list" where
  "type_parents st c =
     (case Option.bind (cd_qualified_path c) decode of None \<Rightarrow> []
      | Some path \<Rightarrow>
          (case (head path, last_segment path) of
             (Some hd_path, Some lst) \<Rightarrow>
               (let tail = (case sep lst of Some s \<Rightarrow> s | None \<Rightarrow> []) @ seg_name lst;
                    own = map (suffix_from path) [1..<path_len path];
                    others = filter (\<lambda>s. s \<notin> set own)
                      (map fst (filter (\<lambda>r. snd r = cd_id c) (qualified_suffixes st)))
                in display hd_path # filter (\<lambda>p. p \<noteq> []) (List.map_filter (strip_suffix tail) others))
           | _ \<Rightarrow> []))"

definition is_type_member :: "store \<Rightarrow> Candidate \<Rightarrow> bool" where
  "is_type_member st c =
     list_ex (\<lambda>parent. list_ex (\<lambda>n. n_qualifiedName n = parent \<and> n_kind n = TYPE_KIND \<and>
         (case cd_container c of
            Some container \<Rightarrow> n_language n = cd_language c \<and> n_container n = Some container
          | None \<Rightarrow> n_filePath n = cd_file_path c)) (nodes st)) (type_parents st c)"

definition drop_type_members :: "store \<Rightarrow> LinkKey \<Rightarrow> Candidate list \<Rightarrow> Candidate list" where
  "drop_type_members st key candidates =
     (case key of
        KeyName _ \<Rightarrow>
          if length candidates < 2 then candidates
          else let non_members = filter (\<lambda>c. \<not> is_type_member st c) candidates
               in if non_members = [] then candidates else non_members
      | KeyQualifiedName _ \<Rightarrow> candidates)"

definition is_getter :: "Candidate \<Rightarrow> bool" where
  "is_getter c \<longleftrightarrow> cd_native_kind c \<in> {Some ''method'', Some ''getter''}"

definition is_accessor :: "Candidate \<Rightarrow> bool" where
  "is_accessor c \<longleftrightarrow> cd_native_kind c \<in> {Some ''setter'', Some ''deleter''}"

definition sole_accessor_getter :: "LinkKey \<Rightarrow> Candidate list \<Rightarrow> Candidate option" where
  "sole_accessor_getter key several =
     (case key of
        KeyName _ \<Rightarrow> None
      | KeyQualifiedName _ \<Rightarrow>
          (case several of [] \<Rightarrow> None
           | first # rest \<Rightarrow>
               if list_ex (\<lambda>c. cd_file_path c \<noteq> cd_file_path first) rest then None
               else if list_ex (\<lambda>c. \<not> is_getter c \<and> \<not> is_accessor c) several then None
               else (case filter is_getter several of [g] \<Rightarrow> Some g | _ \<Rightarrow> None)))"

definition fitting :: "string list option \<Rightarrow> Candidate list \<Rightarrow> Candidate list" where
  "fitting required candidates =
     (case required of None \<Rightarrow> candidates
      | Some kinds \<Rightarrow>
          (case find (\<lambda>fit. fit \<noteq> []) (map (\<lambda>kind. filter (\<lambda>c. cd_kind c = kind) candidates) kinds) of
             None \<Rightarrow> [] | Some fit \<Rightarrow> fit))"

definition choose_candidate :: "store \<Rightarrow> LinkKey \<Rightarrow> string list option \<Rightarrow> Candidate list \<Rightarrow> string option" where
  "choose_candidate st key required candidates =
     (case fitting required (drop_type_members st key candidates) of
        [c] \<Rightarrow> Some (cd_id c)
      | [] \<Rightarrow> None
      | several \<Rightarrow> map_option cd_id (sole_accessor_getter key several))"

section \<open>Linking\<close>

record LinkPending =
  lp_placeholders :: "Placeholder list"
  lp_untargeted :: nat

definition collect_pending :: "store \<Rightarrow> NodeRow list \<Rightarrow> LinkPending" where
  "collect_pending st rows =
     \<lparr>lp_placeholders = List.map_filter (placeholder_from_row st) rows,
      lp_untargeted = length (filter (\<lambda>n. placeholder_from_row st n = None) rows)\<rparr>"

definition of_placeholder :: "string \<Rightarrow> EdgeRow \<Rightarrow> bool" where
  "of_placeholder i e \<longleftrightarrow> e_toId e = i \<or> e_linkedFrom e = Some i"

definition pending_groups :: "store \<Rightarrow> string \<Rightarrow> (string \<times> string) list" where
  "pending_groups st i = btree_set (map (\<lambda>e. (e_kind e, e_source e)) (filter (of_placeholder i) (edges st)))"

definition engine_answer_for :: "Placeholder \<Rightarrow> string \<Rightarrow> string \<Rightarrow> bool" where
  "engine_answer_for p edge_kind source \<longleftrightarrow>
     is_engine_answer source (ph_key p) \<and> edge_kind \<in> set ENGINE_ANSWER_EDGE_KINDS"

text \<open>What a group of edges is linked to: None for edges linking leaves alone.\<close>

definition decide_group ::
  "store \<Rightarrow> LinkRules \<Rightarrow> Placeholder \<Rightarrow> string \<Rightarrow> string \<Rightarrow> string option option" where
  "decide_group st rules p edge_kind source =
     (let engine_answer = engine_answer_for p edge_kind source
      in case required_target_kind edge_kind engine_answer of
           None \<Rightarrow> None
         | Some required \<Rightarrow>
             Some (choose_candidate st (ph_key p) required
               (resolve st rules p ((ph_requester p)\<lparr>rq_engine_answer := engine_answer\<rparr>))))"

definition repoint_edge :: "string \<Rightarrow> string \<Rightarrow> string \<Rightarrow> string \<Rightarrow> EdgeRow \<Rightarrow> EdgeRow" where
  "repoint_edge target i kind source e =
     (if of_placeholder i e \<and> e_kind e = kind \<and> e_source e = source \<and> e_toId e \<noteq> target
      then e\<lparr>e_toId := target, e_resolved := True, e_linkedFrom := Some i\<rparr> else e)"

definition unlink_group :: "string \<Rightarrow> string \<Rightarrow> string \<Rightarrow> EdgeRow \<Rightarrow> EdgeRow" where
  "unlink_group i kind source e =
     (if e_linkedFrom e = Some i \<and> e_kind e = kind \<and> e_source e = source
      then e\<lparr>e_toId := i, e_resolved := False, e_linkedFrom := None\<rparr> else e)"

definition link_group :: "LinkRules \<Rightarrow> Placeholder \<Rightarrow> string \<times> string \<Rightarrow> store \<times> nat \<Rightarrow> store \<times> nat" where
  "link_group rules p grp acc =
     (case (grp, acc) of ((kind, source), (st, linked)) \<Rightarrow>
        (case decide_group st rules p kind source of
           None \<Rightarrow> (st, linked)
         | Some (Some target) \<Rightarrow>
             (st\<lparr>edges := map (repoint_edge target (ph_id p) kind source) (edges st)\<rparr>,
              linked + length (filter (\<lambda>e. of_placeholder (ph_id p) e \<and> e_kind e = kind \<and> e_source e = source \<and>
                e_toId e \<noteq> target) (edges st)))
         | Some None \<Rightarrow> (st\<lparr>edges := map (unlink_group (ph_id p) kind source) (edges st)\<rparr>, linked)))"

definition link_placeholder :: "LinkRules \<Rightarrow> Placeholder \<Rightarrow> store \<times> nat \<Rightarrow> store \<times> nat" where
  "link_placeholder rules p acc = fold (link_group rules p) (pending_groups (fst acc) (ph_id p)) acc"

definition link :: "LinkRules \<Rightarrow> LinkPending \<Rightarrow> store \<Rightarrow> store \<times> nat" where
  "link rules pending st = fold (link_placeholder rules) (lp_placeholders pending) (st, 0)"

definition link_all :: "LinkRules \<Rightarrow> store \<Rightarrow> store \<times> nat" where
  "link_all rules st =
     link rules (collect_pending st (filter (\<lambda>n. is_placeholder (n_kind n) (n_nativeKind n)) (nodes st))) st"

section \<open>What a diff wakes\<close>

definition published_scopes :: "string \<Rightarrow> string \<Rightarrow> string \<Rightarrow> string option \<Rightarrow> Scope list" where
  "published_scopes visibility file language container =
     (if visibility = ''public'' \<or> visibility = ''container'' then scopes_of_node file language container
      else if visibility = ''file'' then (case container_of language container of None \<Rightarrow> [] | Some s \<Rightarrow> [s])
      else [])"

definition named_seeds :: "NodeRecord \<Rightarrow> Address list" where
  "named_seeds n =
     (if is_reexport (nr_kind n) (nr_native_kind n)
      then map (\<lambda>s. (s, nr_name n)) (scopes_of_node (nr_file_path n) (nr_language n) (nr_container n))
      else if \<not> is_declaration (nr_native_kind n) then []
      else map (\<lambda>s. (s, nr_name n))
        (published_scopes (nr_visibility n) (nr_file_path n) (nr_language n) (nr_container n)))"

definition exact_seeds :: "NodeRecord \<Rightarrow> Address list" where
  "exact_seeds n =
     (if is_reexport (nr_kind n) (nr_native_kind n) \<or> \<not> is_declaration (nr_native_kind n) then []
      else (if nr_qualified_name n \<noteq> nr_name n
            then map (\<lambda>s. (s, nr_qualified_name n))
              (published_scopes (nr_visibility n) (nr_file_path n) (nr_language n) (nr_container n)) else []) @
           (if nr_visibility n = ''file'' then [(FileScopeOf (nr_file_path n), nr_qualified_name n)] else []))"

definition seeds :: "Diff \<Rightarrow> Address list \<times> Address list" where
  "seeds d = (concat (map named_seeds (upsert_nodes d)), concat (map exact_seeds (upsert_nodes d)))"

definition member_head :: "NodeRecord \<Rightarrow> (Scope \<times> string) option" where
  "member_head n =
     (if \<not> is_declaration (nr_native_kind n) then None
      else map_option (\<lambda>h. ((case container_of (nr_language n) (nr_container n) of
                               Some s \<Rightarrow> s | None \<Rightarrow> FileScopeOf (nr_file_path n)), display h))
             (Option.bind (nr_qualified_path n) head))"

definition heads_of_members :: "store \<Rightarrow> Diff \<Rightarrow> Address list" where
  "heads_of_members st d =
     concat (map (\<lambda>(scope, head_text).
       concat (map (\<lambda>n. map (\<lambda>s. (s, n_name n))
           (published_scopes (n_visibility n) (n_filePath n) (n_language n) (n_container n)))
         (filter (\<lambda>n. in_scope scope n \<and> n_qualifiedName n = head_text \<and> declaration_only n) (nodes st))))
       (nub (List.map_filter member_head (upsert_nodes d))))"

text \<open>The targets in a scope whose node is of a native kind; a file scope does not ask for a language.\<close>

definition targets_in :: "store \<Rightarrow> Scope \<Rightarrow> string \<Rightarrow> (TargetRow \<times> NodeRow) list" where
  "targets_in st scope native_kind =
     (case bind_scope scope of (scope_kind, scope_value, language) \<Rightarrow>
        concat (map (\<lambda>t. map (Pair t) (filter (\<lambda>n. n_id n = t_nodeId t \<and> n_kind n = MODULE_KIND \<and>
            n_nativeKind n = Some native_kind \<and>
            (case language of None \<Rightarrow> True | Some l \<Rightarrow> n_language n = l)) (nodes st)))
          (filter (\<lambda>t. t_scopeKind t = scope_kind \<and> t_scope t = scope_value) (placeholder_targets st))))"

definition waiting_on_a_head :: "store \<Rightarrow> Address list \<Rightarrow> string list" where
  "waiting_on_a_head st addresses =
     concat (map (\<lambda>(scope, name).
       if name = REEXPORT_ALL_NAME then []
       else map (\<lambda>(t, n). t_nodeId t)
         (filter (\<lambda>(t, n). t_keyKind t = ''qualifiedName'' \<and>
            Option.bind (Option.bind (t_keyPath t) decode) head_name = Some name)
           (targets_in st scope PENDING_SYMBOL_NATIVE_KIND))) addresses)"

definition waiting_placeholders :: "store \<Rightarrow> Address list \<Rightarrow> string list" where
  "waiting_placeholders st addresses =
     concat (map (\<lambda>(scope, key).
       map (\<lambda>(t, n). t_nodeId t)
         (filter (\<lambda>(t, n). key = REEXPORT_ALL_NAME \<or> t_key t = key) (targets_in st scope PENDING_SYMBOL_NATIVE_KIND)))
       addresses)"

definition reexporters :: "store \<Rightarrow> Address \<Rightarrow> NodeRow list" where
  "reexporters st a =
     (case a of (scope, name) \<Rightarrow>
        let named = filter (\<lambda>(t, n). t_keyKind t = ''name'') (targets_in st scope REEXPORT_NATIVE_KIND)
        in if name = REEXPORT_ALL_NAME then map snd named
           else concat (map (\<lambda>key. map snd (filter (\<lambda>(t, n). t_key t = key) named))
             (name # (if name \<noteq> DEFAULT_EXPORT_NAME then [REEXPORT_ALL_NAME] else []))))"

definition republished_as :: "store \<Rightarrow> Address \<Rightarrow> Address list" where
  "republished_as st a =
     concat (map (\<lambda>n. map (\<lambda>s. (s, if n_name n = REEXPORT_ALL_NAME then snd a else n_name n))
       (scopes_of_node (n_filePath n) (n_language n) (n_container n))) (reexporters st a))"

text \<open>One round per depth; the last round takes its addresses without looking further.\<close>

primrec republish_loop :: "nat \<Rightarrow> store \<Rightarrow> Address list \<Rightarrow> Address list \<Rightarrow> Address list" where
  "republish_loop 0 st visited frontier = visited @ filter (\<lambda>a. a \<notin> set visited) (nub frontier)"
| "republish_loop (Suc k) st visited frontier =
     (let fresh = filter (\<lambda>a. a \<notin> set visited) (nub frontier);
          next = concat (map (republished_as st) fresh)
      in if next = [] then visited @ fresh else republish_loop k st (visited @ fresh) next)"

definition republished_addresses :: "store \<Rightarrow> Address list \<Rightarrow> Address list" where
  "republished_addresses st seed = republish_loop MAX_REEXPORT_DEPTH st [] seed"

text \<open>The stack of \<^verbatim>\<open>requesters_below_new_containers\<close>: it only expands a container not seen before.\<close>

definition tree_keys :: "string \<Rightarrow> (string \<times> string) list \<Rightarrow> string list \<Rightarrow> (string \<times> string) set" where
  "tree_keys language tree stack = Pair language ` (set stack \<union> set (map fst tree))"

function below_loop ::
  "string \<Rightarrow> (string \<times> string) list \<Rightarrow> (string \<times> string) list \<Rightarrow> string list \<Rightarrow> (string \<times> string) list" where
  "below_loop language tree below [] = below"
| "below_loop language tree below (c # stack) =
     (if (language, c) \<in> set below then below_loop language tree below stack
      else below_loop language tree ((language, c) # below)
        (map fst (filter (\<lambda>(child, parent). parent = c) tree) @ stack))"
  by pat_completeness auto
termination
proof (relation "measures [\<lambda>(l, tree, below, stack). card (tree_keys l tree stack - set below),
    \<lambda>(l, tree, below, stack). length stack]")
  fix l c :: string and tree below :: "(string \<times> string) list" and stack
  assume "(l, c) \<in> set below"
  then have "tree_keys l tree (c # stack) - set below = tree_keys l tree stack - set below" by (auto simp: tree_keys_def)
  then show "((l, tree, below, stack), l, tree, below, c # stack) \<in> measures [\<lambda>(l, tree, below, stack).
      card (tree_keys l tree stack - set below), \<lambda>(l, tree, below, stack). length stack]"
    by simp
next
  fix l c :: string and tree below :: "(string \<times> string) list" and stack
  assume c: "(l, c) \<notin> set below"
  let ?push = "map fst (filter (\<lambda>(child, parent). parent = c) tree) @ stack"
  have "set ?push \<subseteq> set (c # stack) \<union> set (map fst tree)" by auto
  then have sub: "tree_keys l tree ?push \<subseteq> tree_keys l tree (c # stack)" unfolding tree_keys_def by blast
  have "(l, c) \<in> tree_keys l tree (c # stack) - set below" using c by (simp add: tree_keys_def)
  moreover have "(l, c) \<notin> tree_keys l tree ?push - set ((l, c) # below)" by simp
  moreover have "tree_keys l tree ?push - set ((l, c) # below) \<subseteq> tree_keys l tree (c # stack) - set below"
    using sub by auto
  ultimately have "tree_keys l tree ?push - set ((l, c) # below) \<subset> tree_keys l tree (c # stack) - set below"
    by blast
  then have "card (tree_keys l tree ?push - set ((l, c) # below)) < card (tree_keys l tree (c # stack) - set below)"
    by (rule psubset_card_mono [rotated]) (simp add: tree_keys_def)
  then show "((l, tree, (l, c) # below, ?push), l, tree, below, c # stack) \<in> measures [\<lambda>(l, tree, below, stack).
      card (tree_keys l tree stack - set below), \<lambda>(l, tree, below, stack). length stack]"
    by simp
qed simp

definition upserted_members :: "Diff \<Rightarrow> (string \<times> string) list" where
  "upserted_members d =
     List.map_filter (\<lambda>i. Option.bind (map_of (rev (map (\<lambda>n. (nr_id n, n)) (upsert_nodes d))) i) record_membership)
       (nub (map nr_id (upsert_nodes d)))"

definition new_containers :: "store \<Rightarrow> Diff \<Rightarrow> (string \<times> string) list" where
  "new_containers st d =
     filter (\<lambda>(language, key).
       map_option c_memberCount (find (\<lambda>c. c_language c = language \<and> c_key c = key) (containers st))
         = Some (count_list (upserted_members d) (language, key))) (btree_set (upserted_members d))"

definition container_tree :: "store \<Rightarrow> string \<Rightarrow> (string \<times> string) list" where
  "container_tree st language =
     List.map_filter (\<lambda>c. if c_language c = language then map_option (Pair (c_key c)) (c_parentKey c) else None)
       (containers st)"

definition requesters_below_new_containers :: "store \<Rightarrow> Diff \<Rightarrow> string list" where
  "requesters_below_new_containers st d =
     (let below = fold (\<lambda>(language, key) below. below_loop language (container_tree st language) below [key])
            (new_containers st d) [];
          files = btree_set (map n_filePath (filter (\<lambda>n. list_ex (\<lambda>(language, container).
            n_language n = language \<and> n_container n = Some container) below) (nodes st)))
      in concat (map (\<lambda>file. map n_id (filter (\<lambda>n. n_filePath n = file \<and>
           is_placeholder (n_kind n) (n_nativeKind n)) (nodes st))) files))"

definition woken_ids :: "store \<Rightarrow> Diff \<Rightarrow> string list" where
  "woken_ids st d =
     (let own = map nr_id (filter (\<lambda>n. is_placeholder (nr_kind n) (nr_native_kind n)) (upsert_nodes d));
          addresses = republished_addresses st (fst (seeds d) @ heads_of_members st d);
          used = map ed_to_id (filter (\<lambda>e. required_target_kind (ed_kind e) False \<noteq> None) (upsert_edges d))
      in btree_set (own @ waiting_on_a_head st addresses @ waiting_placeholders st (addresses @ snd (seeds d)) @
           used @ requesters_below_new_containers st d))"

definition link_diff :: "LinkRules \<Rightarrow> Diff \<Rightarrow> store \<Rightarrow> store \<times> nat" where
  "link_diff rules d st =
     link rules (collect_pending st (concat (map (\<lambda>i.
       filter (\<lambda>n. n_id n = i \<and> is_placeholder (n_kind n) (n_nativeKind n)) (nodes st)) (woken_ids st d)))) st"

end
