(* ===== verification/Link_Correct.thy ===== *)
theory Link_Correct
  imports Symbol_Links
begin

text \<open>
  Correctness of symbol linking: the pass reads no edges, so it is a function of each edge alone;
  every target is a stored declaration the edge admits and the requester sees; a second pass
  changes nothing; and the incremental pass does for the placeholders it wakes what the full pass
  does.
\<close>

section \<open>Linking reads no edges\<close>

named_theorems edge_frame

lemma store_edge_frame [edge_frame]:
  "nodes (st\<lparr>edges := E\<rparr>) = nodes st" "containers (st\<lparr>edges := E\<rparr>) = containers st"
  "placeholder_targets (st\<lparr>edges := E\<rparr>) = placeholder_targets st"
  "qualified_suffixes (st\<lparr>edges := E\<rparr>) = qualified_suffixes st"
  by simp_all

lemma parent_of_edges [edge_frame]: "parent_of (st\<lparr>edges := E\<rparr>) = parent_of st"
  by (intro ext) (unfold parent_of_def edge_frame, rule refl)

lemma chain_loop_edges: "chain_loop (st\<lparr>edges := E\<rparr>) language seen current = chain_loop st language seen current"
proof (induction st language seen current rule: chain_loop.induct)
  case (1 st language seen current)
  then show ?case
    using chain_loop_unfold [of "st\<lparr>edges := E\<rparr>" language seen current] chain_loop_unfold [of st language seen current]
    unfolding edge_frame by (auto split: option.splits)
qed

lemma lookup_edges [edge_frame]:
  "parent_chain (st\<lparr>edges := E\<rparr>) = parent_chain st"
  "target_of (st\<lparr>edges := E\<rparr>) = target_of st" "declared (st\<lparr>edges := E\<rparr>) = declared st"
  "position_of (st\<lparr>edges := E\<rparr>) = position_of st" "type_parents (st\<lparr>edges := E\<rparr>) = type_parents st"
  by (unfold parent_chain_def chain_loop_edges target_of_def declared_def position_of_def
      type_parents_def edge_frame, (rule refl)+)

lemma hop_of_row_edges [edge_frame]: "hop_of_row (st\<lparr>edges := E\<rparr>) = hop_of_row st"
  by (intro ext) (unfold hop_of_row_def edge_frame, rule refl)

lemma sees_edges [edge_frame]: "sees (st\<lparr>edges := E\<rparr>) = sees st"
  by (intro ext) (unfold sees_def edge_frame, rule refl)

lemma visible_edges [edge_frame]: "visible (st\<lparr>edges := E\<rparr>) = visible st"
  by (intro ext) (unfold visible_def edge_frame, rule refl)

lemma admits_edges [edge_frame]:
  "admits (st\<lparr>edges := E\<rparr>) = admits st" "rebinds (st\<lparr>edges := E\<rparr>) = rebinds st"
  "is_type_member (st\<lparr>edges := E\<rparr>) = is_type_member st" "hops_at (st\<lparr>edges := E\<rparr>) = hops_at st"
  by (unfold admits_def rebinds_def is_type_member_def hops_at_def edge_frame, (rule refl)+)

lemma binding_edges [edge_frame]:
  "binding_hops prov (st\<lparr>edges := E\<rparr>) = binding_hops prov st" "found_at (st\<lparr>edges := E\<rparr>) = found_at st"
  "drop_type_members (st\<lparr>edges := E\<rparr>) = drop_type_members st"
  by (unfold binding_hops_def found_at_def drop_type_members_def edge_frame, (rule refl)+)

lemma hops_from_edges [edge_frame]: "hops_from prov (st\<lparr>edges := E\<rparr>) = hops_from prov st"
  by (intro ext) (unfold hops_from_def edge_frame, rule refl)

lemma kept_at_edges [edge_frame]: "kept_at prov (st\<lparr>edges := E\<rparr>) = kept_at prov st"
  by (intro ext) (unfold kept_at_def edge_frame, rule refl)

lemma walk_loop_edges [edge_frame]: "walk_loop n (st\<lparr>edges := E\<rparr>) = walk_loop n st"
proof (induction n)
  case 0
  show ?case by (intro ext) (unfold walk_loop.simps edge_frame, rule refl)
next
  case (Suc n)
  show ?case by (intro ext) (unfold walk_loop.simps edge_frame Suc, rule refl)
qed

lemma walk_edges [edge_frame]: "walk (st\<lparr>edges := E\<rparr>) = walk st"
  by (intro ext) (unfold walk_def walk_capped_def edge_frame, rule refl)

lemma through_head_edges [edge_frame]: "through_head (st\<lparr>edges := E\<rparr>) = through_head st"
  by (intro ext) (unfold through_head_def edge_frame, rule refl)

lemma resolve_edges [edge_frame]:
  "resolve (st\<lparr>edges := E\<rparr>) = resolve st" "choose_candidate (st\<lparr>edges := E\<rparr>) = choose_candidate st"
  by (unfold resolve_def choose_candidate_def edge_frame, (rule refl)+)

lemma decide_group_edges [edge_frame]: "decide_group (st\<lparr>edges := E\<rparr>) = decide_group st"
  by (intro ext) (unfold decide_group_def edge_frame, rule refl)

section \<open>One edge at a time\<close>

definition settle_edge :: "store \<Rightarrow> LinkRules \<Rightarrow> Placeholder \<Rightarrow> EdgeRow \<Rightarrow> EdgeRow" where
  "settle_edge st rules p e =
     (case decide_group st rules p (e_kind e) (e_source e) of
        None \<Rightarrow> e
      | Some (Some target) \<Rightarrow> repoint_edge target (ph_id p) (e_kind e) (e_source e) e
      | Some None \<Rightarrow> unlink_group (ph_id p) (e_kind e) (e_source e) e)"

lemma settle_edge_same [simp]:
  "e_id (settle_edge st rules p e) = e_id e" "e_kind (settle_edge st rules p e) = e_kind e"
  "e_source (settle_edge st rules p e) = e_source e" "e_fromId (settle_edge st rules p e) = e_fromId e"
  by (simp_all add: settle_edge_def repoint_edge_def unlink_group_def split: option.split)

lemma settle_edge_other: "\<not> of_placeholder (ph_id p) e \<Longrightarrow> settle_edge st rules p e = e"
  by (auto simp: settle_edge_def repoint_edge_def unlink_group_def of_placeholder_def split: option.split)

lemma settle_edge_frame [edge_frame]: "settle_edge (st\<lparr>edges := E\<rparr>) = settle_edge st"
  by (intro ext) (unfold settle_edge_def edge_frame, rule refl)

definition in_group :: "string \<times> string \<Rightarrow> EdgeRow \<Rightarrow> bool" where
  "in_group g e \<longleftrightarrow> (e_kind e, e_source e) = g"

lemma link_group_edges:
  "fst (link_group rules p g (st, n)) =
     st\<lparr>edges := map (\<lambda>e. if in_group g e then settle_edge st rules p e else e) (edges st)\<rparr>"
proof -
  obtain kind source where g: "g = (kind, source)" by (cases g)
  have S: "(if in_group g e then settle_edge st rules p e else e) =
      (case decide_group st rules p kind source of None \<Rightarrow> e
       | Some (Some t) \<Rightarrow> repoint_edge t (ph_id p) kind source e
       | Some None \<Rightarrow> unlink_group (ph_id p) kind source e)" for e
    by (cases "in_group g e")
      (auto simp: settle_edge_def in_group_def g repoint_edge_def unlink_group_def split: option.split)
  show ?thesis unfolding S by (simp add: link_group_def g split: option.split)
qed

lemma link_groups_edges:
  "distinct gs \<Longrightarrow> fst (fold (link_group rules p) gs (st, n)) =
     st\<lparr>edges := map (\<lambda>e. if (e_kind e, e_source e) \<in> set gs then settle_edge st rules p e else e) (edges st)\<rparr>"
proof (induction gs arbitrary: st n)
  case (Cons g gs)
  obtain st1 n1 where s1: "link_group rules p g (st, n) = (st1, n1)" by (cases "link_group rules p g (st, n)")
  then have st1: "st1 = st\<lparr>edges := map (\<lambda>e. if in_group g e then settle_edge st rules p e else e) (edges st)\<rparr>"
    using link_group_edges [of rules p g st n] by simp
  have "fst (fold (link_group rules p) (g # gs) (st, n)) = fst (fold (link_group rules p) gs (st1, n1))" by (simp add: s1)
  also have "\<dots> = st1\<lparr>edges := map (\<lambda>e. if (e_kind e, e_source e) \<in> set gs then settle_edge st1 rules p e else e) (edges st1)\<rparr>"
    using Cons by simp
  also have "\<dots> = st\<lparr>edges := map (\<lambda>e. if (e_kind e, e_source e) \<in> set (g # gs) then settle_edge st rules p e else e) (edges st)\<rparr>"
    using Cons.prems unfolding st1 edge_frame by (auto simp: in_group_def)
  finally show ?case .
qed simp

lemma link_placeholder_edges:
  "fst (link_placeholder rules p (st, n)) = st\<lparr>edges := map (settle_edge st rules p) (edges st)\<rparr>"
proof -
  have "(if (e_kind e, e_source e) \<in> set (pending_groups st (ph_id p)) then settle_edge st rules p e else e) =
      settle_edge st rules p e" if "e \<in> set (edges st)" for e
  proof (cases "of_placeholder (ph_id p) e")
    case True
    then show ?thesis using that by (simp add: pending_groups_def)
  next
    case False
    then show ?thesis by (simp add: settle_edge_other)
  qed
  then show ?thesis
    unfolding link_placeholder_def by (simp add: link_groups_edges pending_groups_def)
qed

lemma link_edges:
  "fst (fold (link_placeholder rules) ps (st, n)) =
     st\<lparr>edges := map (\<lambda>e. fold (settle_edge st rules) ps e) (edges st)\<rparr>"
proof (induction ps arbitrary: st n)
  case (Cons p ps)
  obtain st1 n1 where s1: "link_placeholder rules p (st, n) = (st1, n1)" by (cases "link_placeholder rules p (st, n)")
  then have st1: "st1 = st\<lparr>edges := map (settle_edge st rules p) (edges st)\<rparr>"
    using link_placeholder_edges [of rules p st n] by simp
  have "settle_edge st1 rules = settle_edge st rules" unfolding st1 edge_frame by (rule refl)
  then show ?case using Cons [of st1 n1] st1 by (simp add: s1 comp_def)
qed simp

section \<open>Candidates\<close>

text \<open>A stored declaration that the requester may see, or that an engine named.\<close>

definition sound_candidate :: "store \<Rightarrow> Requester \<Rightarrow> Candidate \<Rightarrow> bool" where
  "sound_candidate st rq c \<longleftrightarrow> (\<exists>n\<in>set (nodes st). c = candidate_of_row n \<and> declaration_only n \<and>
     (rq_engine_answer rq \<or> (\<exists>scope. in_scope scope n \<and> visible st c scope rq)))"

lemma admitted_sound:
  assumes "c \<in> set (declared st scope key)" "admits st c scope key rq"
  shows "sound_candidate st rq c"
  using assms unfolding declared_def admits_def sound_candidate_def by auto

lemma found_sound: "c \<in> set (found_at st rq step) \<Longrightarrow> sound_candidate st rq c"
  unfolding found_at_def by (auto intro: admitted_sound)

lemma first_candidates_subset: "set (first_candidates seen cs) \<subseteq> set cs"
  by (induction seen cs rule: first_candidates.induct) auto

lemma kept_subset: "set (kept_at prov st rules rq step) \<subseteq> set (found_at st rq step)"
  by (auto simp: kept_at_def Let_def split: LinkKey.splits if_splits)

lemma walk_loop_sound:
  "\<forall>c\<in>set (fst (walk_loop n st rules rq depth frontier visited)). sound_candidate st rq c"
proof (induction n arbitrary: depth frontier visited)
  case 0
  show ?case using first_candidates_subset found_sound by fastforce
next
  case (Suc n)
  define prov where "prov = (\<lambda>step. fst (walk_loop n st rules rq 0 [step] [step]) \<noteq> [])"
  define cands where "cands = first_candidates [] (concat (map (kept_at prov st rules rq) frontier))"
  have here: "\<forall>c\<in>set cands. sound_candidate st rq c"
    using first_candidates_subset [of "[]" "concat (map (kept_at prov st rules rq) frontier)"] kept_subset found_sound
    unfolding cands_def by fastforce
  show ?case
    using here Suc unfolding walk_loop.simps Let_def prov_def [symmetric] cands_def [symmetric] by simp
qed

lemma visible_engine_flag [simp]:
  "visible st c scope (rq\<lparr>rq_engine_answer := b\<rparr>) = visible st c scope rq"
  by (simp add: visible_def sees_def split: option.split Scope.split)

lemma resolve_sound:
  assumes "c \<in> set (resolve st rules p rq)"
  shows "sound_candidate st rq c"
proof (cases "fst (walk st rules (ph_scope p) (ph_key p) rq) = []")
  case False
  then have "c \<in> set (fst (walk st rules (ph_scope p) (ph_key p) rq))" using assms by (simp add: resolve_def Let_def)
  then show ?thesis using walk_loop_sound unfolding walk_def walk_capped_def by blast
next
  case True
  then obtain key_path where "c \<in> set (through_head st rules p key_path rq)"
    using assms by (auto simp: resolve_def Let_def split: LinkKey.splits option.splits)
  then obtain scope key where "c \<in> set (declared st scope key)" "admits st c scope key rq"
    by (auto simp: through_head_def Let_def split: option.splits prod.splits list.splits if_splits)
  then show ?thesis by (rule admitted_sound)
qed

lemma fitting_sound:
  assumes "c \<in> set (fitting required cs)"
  shows "c \<in> set cs \<and> (\<forall>kinds. required = Some kinds \<longrightarrow> cd_kind c \<in> set kinds)"
proof (cases required)
  case None
  then show ?thesis using assms by (simp add: fitting_def)
next
  case (Some kinds)
  then obtain fit where "find (\<lambda>fit. fit \<noteq> []) (map (\<lambda>kind. filter (\<lambda>c. cd_kind c = kind) cs) kinds) = Some fit" "c \<in> set fit"
    using assms by (cases "find (\<lambda>fit. fit \<noteq> []) (map (\<lambda>kind. filter (\<lambda>c. cd_kind c = kind) cs) kinds)")
      (auto simp: fitting_def)
  then have "fit \<in> set (map (\<lambda>kind. filter (\<lambda>c. cd_kind c = kind) cs) kinds)"
    by (auto simp: find_Some_iff)
  then show ?thesis using \<open>c \<in> set fit\<close> Some by auto
qed

lemma sole_accessor_getter_in: "sole_accessor_getter key cs = Some c \<Longrightarrow> c \<in> set cs"
proof -
  assume a: "sole_accessor_getter key cs = Some c"
  then have "filter is_getter cs = [c]"
    by (auto simp: sole_accessor_getter_def split: LinkKey.splits list.splits if_splits)
  then have "c \<in> set (filter is_getter cs)" by simp
  then show ?thesis by simp
qed

lemma choose_candidate_sound:
  assumes "choose_candidate st key required cs = Some t"
  obtains c where "c \<in> set cs" "cd_id c = t" "\<forall>kinds. required = Some kinds \<longrightarrow> cd_kind c \<in> set kinds"
proof -
  have "set (drop_type_members st key cs) \<subseteq> set cs"
    by (auto simp: drop_type_members_def Let_def split: LinkKey.splits if_splits)
  moreover obtain c where c: "c \<in> set (fitting required (drop_type_members st key cs))" "cd_id c = t"
    using assms sole_accessor_getter_in
    unfolding choose_candidate_def by (fastforce split: list.splits)
  ultimately show ?thesis using that fitting_sound [OF c(1)] c(2) by blast
qed

text \<open>What a link may do: onto a stored declaration of a kind the edge admits, which the
  placeholder's requester sees or a semantic engine named exactly.\<close>

definition may_link :: "store \<Rightarrow> Placeholder \<Rightarrow> EdgeRow \<Rightarrow> NodeRow \<Rightarrow> bool" where
  "may_link st p e n \<longleftrightarrow> n \<in> set (nodes st) \<and> declaration_only n \<and>
     (\<exists>required. required_target_kind (e_kind e) (engine_answer_for p (e_kind e) (e_source e)) = Some required \<and>
        (\<forall>kinds. required = Some kinds \<longrightarrow> n_kind n \<in> set kinds)) \<and>
     (engine_answer_for p (e_kind e) (e_source e) \<or>
      (\<exists>scope. in_scope scope n \<and> visible st (candidate_of_row n) scope (ph_requester p)))"

lemma decide_group_sound:
  assumes "decide_group st rules p (e_kind e) (e_source e) = Some (Some t)"
  shows "\<exists>n. n_id n = t \<and> may_link st p e n"
proof -
  define eng where "eng = engine_answer_for p (e_kind e) (e_source e)"
  obtain required where req: "required_target_kind (e_kind e) eng = Some required"
    and ch: "choose_candidate st (ph_key p) required (resolve st rules p ((ph_requester p)\<lparr>rq_engine_answer := eng\<rparr>)) = Some t"
    using assms unfolding decide_group_def Let_def eng_def [symmetric] by (auto split: option.splits)
  obtain c where c: "c \<in> set (resolve st rules p ((ph_requester p)\<lparr>rq_engine_answer := eng\<rparr>))" "cd_id c = t"
    "\<forall>kinds. required = Some kinds \<longrightarrow> cd_kind c \<in> set kinds"
    using choose_candidate_sound [OF ch] by blast
  obtain n where n: "n \<in> set (nodes st)" "c = candidate_of_row n" "declaration_only n"
    "eng \<or> (\<exists>scope. in_scope scope n \<and> visible st c scope (ph_requester p))"
    using resolve_sound [OF c(1)] unfolding sound_candidate_def by auto
  then have "n_id n = t" "\<forall>kinds. required = Some kinds \<longrightarrow> n_kind n \<in> set kinds"
    using c by (simp_all add: candidate_of_row_def)
  then show ?thesis using n req unfolding may_link_def eng_def by blast
qed

section \<open>Linking as a function of one edge\<close>

definition pending_ids :: "store \<Rightarrow> string set" where
  "pending_ids st = n_id ` {n \<in> set (nodes st). is_placeholder (n_kind n) (n_nativeKind n)}"

definition origin :: "EdgeRow \<Rightarrow> string" where
  "origin e = (case e_linkedFrom e of Some i \<Rightarrow> i | None \<Rightarrow> e_toId e)"

text \<open>A linked edge does not point at a placeholder.\<close>

definition link_ok :: "string set \<Rightarrow> EdgeRow \<Rightarrow> bool" where
  "link_ok ids e \<longleftrightarrow> e_linkedFrom e = None \<or> e_toId e \<notin> ids"

definition links_ok :: "store \<Rightarrow> bool" where
  "links_ok st \<longleftrightarrow> list_all (link_ok (pending_ids st)) (edges st)"

definition relink :: "store \<Rightarrow> LinkRules \<Rightarrow> Placeholder list \<Rightarrow> EdgeRow \<Rightarrow> EdgeRow" where
  "relink st rules ps e =
     (case find (\<lambda>p. ph_id p = origin e) ps of None \<Rightarrow> e | Some p \<Rightarrow> settle_edge st rules p e)"

lemma declaration_not_pending:
  assumes "keyed n_id (nodes st)" "n \<in> set (nodes st)" "declaration_only n"
  shows "n_id n \<notin> pending_ids st"
proof
  assume "n_id n \<in> pending_ids st"
  then obtain m where m: "m \<in> set (nodes st)" "is_placeholder (n_kind m) (n_nativeKind m)" "n_id m = n_id n"
    unfolding pending_ids_def by auto
  then have "m = n" using assms by (metis keyed_inj)
  then show False using m(2) assms(3)
    by (simp add: is_placeholder_def declaration_only_def PENDING_SYMBOL_NATIVE_KIND_def NON_DECLARATION_NATIVE_KINDS_def)
qed

lemma of_placeholder_origin:
  assumes "link_ok ids e" "of_placeholder i e" "i \<in> ids"
  shows "i = origin e"
  using assms by (auto simp: link_ok_def of_placeholder_def origin_def split: option.splits)

lemma settle_other:
  assumes "link_ok ids e" "ph_id p \<in> ids" "ph_id p \<noteq> origin e"
  shows "settle_edge st rules p e = e"
  using assms of_placeholder_origin settle_edge_other by metis

lemma settle_keeps:
  assumes keyed: "keyed n_id (nodes st)" and e: "link_ok (pending_ids st) e" "ph_id p \<in> pending_ids st"
  shows "origin (settle_edge st rules p e) = origin e \<and> link_ok (pending_ids st) (settle_edge st rules p e)"
proof (cases "of_placeholder (ph_id p) e")
  case False
  then show ?thesis using e by (simp add: settle_edge_other)
next
  case True
  then have o: "ph_id p = origin e" using of_placeholder_origin [OF e(1) _ e(2)] by blast
  have "t \<notin> pending_ids st" if "decide_group st rules p (e_kind e) (e_source e) = Some (Some t)" for t
    using decide_group_sound [OF that] declaration_not_pending [OF keyed] unfolding may_link_def by blast
  then show ?thesis
    using o e by (auto simp: settle_edge_def repoint_edge_def unlink_group_def origin_def link_ok_def split: option.splits)
qed

lemma settle_twice:
  "settle_edge st rules p (settle_edge st rules p e) = settle_edge st rules p e"
  by (auto simp: settle_edge_def repoint_edge_def unlink_group_def of_placeholder_def split: option.splits)

lemma fold_settle:
  assumes keyed: "keyed n_id (nodes st)"
  shows "link_ok (pending_ids st) e \<Longrightarrow> distinct (map ph_id ps) \<Longrightarrow> set (map ph_id ps) \<subseteq> pending_ids st \<Longrightarrow>
    fold (settle_edge st rules) ps e = relink st rules ps e"
proof (induction ps arbitrary: e)
  case Nil
  then show ?case by (simp add: relink_def)
next
  case (Cons p ps)
  have p: "ph_id p \<in> pending_ids st" and ps: "distinct (map ph_id ps)" "set (map ph_id ps) \<subseteq> pending_ids st"
    using Cons.prems by auto
  let ?e = "settle_edge st rules p e"
  have keeps: "origin ?e = origin e" "link_ok (pending_ids st) ?e" using settle_keeps [OF keyed Cons.prems(1) p] by auto
  have IH: "fold (settle_edge st rules) ps ?e = relink st rules ps ?e" using Cons.IH [OF keeps(2) ps] .
  show ?case
  proof (cases "ph_id p = origin e")
    case True
    then have "find (\<lambda>q. ph_id q = origin e) ps = None"
      using Cons.prems(2) unfolding find_None_iff by (metis distinct.simps(2) image_eqI list.set_map list.simps(9))
    then show ?thesis using IH True keeps(1) by (simp add: relink_def)
  next
    case False
    then have "?e = e" using settle_other [OF Cons.prems(1) p] by blast
    then show ?thesis using IH False by (simp add: relink_def)
  qed
qed

lemma link_as_relink:
  assumes "keyed n_id (nodes st)" "links_ok st" "distinct (map ph_id (lp_placeholders pending))"
    "set (map ph_id (lp_placeholders pending)) \<subseteq> pending_ids st"
  shows "fst (link rules pending st) = st\<lparr>edges := map (relink st rules (lp_placeholders pending)) (edges st)\<rparr>"
proof -
  have "map (\<lambda>e. fold (settle_edge st rules) (lp_placeholders pending) e) (edges st) =
      map (relink st rules (lp_placeholders pending)) (edges st)"
    using fold_settle [OF assms(1) _ assms(3,4)] assms(2) by (auto simp: links_ok_def list_all_iff)
  then show ?thesis unfolding link_def link_edges by simp
qed

lemma pending_ids_frame [edge_frame]: "pending_ids (st\<lparr>edges := E\<rparr>) = pending_ids st"
  by (unfold pending_ids_def edge_frame, rule refl)

lemma placeholder_from_row_frame [edge_frame]: "placeholder_from_row (st\<lparr>edges := E\<rparr>) = placeholder_from_row st"
  by (intro ext) (unfold placeholder_from_row_def edge_frame, rule refl)

lemma collect_pending_frame [edge_frame]: "collect_pending (st\<lparr>edges := E\<rparr>) = collect_pending st"
  by (intro ext) (unfold collect_pending_def edge_frame, rule refl)

lemma placeholder_id: "placeholder_from_row st n = Some p \<Longrightarrow> ph_id p = n_id n"
  by (auto simp: placeholder_from_row_def split: option.splits)

lemma map_filter_ids:
  "distinct (map n_id rows) \<Longrightarrow> distinct (map ph_id (List.map_filter (placeholder_from_row st) rows)) \<and>
     set (map ph_id (List.map_filter (placeholder_from_row st) rows)) \<subseteq> set (map n_id rows)"
proof (induction rows)
  case (Cons n rows)
  then show ?case using placeholder_id by (auto simp: List.map_filter_simps split: option.split)
qed (simp add: List.map_filter_simps)

text \<open>The placeholder rows a pass starts from.\<close>

definition placeholder_rows :: "store \<Rightarrow> NodeRow list \<Rightarrow> bool" where
  "placeholder_rows st rows \<longleftrightarrow> distinct (map n_id rows) \<and>
     (\<forall>n\<in>set rows. n \<in> set (nodes st) \<and> is_placeholder (n_kind n) (n_nativeKind n))"

lemma collect_ok:
  assumes "placeholder_rows st rows"
  shows "distinct (map ph_id (lp_placeholders (collect_pending st rows)))"
    and "set (map ph_id (lp_placeholders (collect_pending st rows))) \<subseteq> pending_ids st"
  using assms map_filter_ids [of rows st] unfolding collect_pending_def placeholder_rows_def pending_ids_def by auto

lemma all_placeholder_rows:
  "keyed n_id (nodes st) \<Longrightarrow> placeholder_rows st (filter (\<lambda>n. is_placeholder (n_kind n) (n_nativeKind n)) (nodes st))"
  unfolding placeholder_rows_def keyed_def by (simp add: distinct_map_filter)

lemma woken_placeholder_rows:
  assumes "keyed n_id (nodes st)"
  shows "placeholder_rows st (concat (map (\<lambda>i. filter (\<lambda>n. n_id n = i \<and>
    is_placeholder (n_kind n) (n_nativeKind n)) (nodes st)) (woken_ids st d)))"
proof -
  have "distinct ids \<Longrightarrow> distinct (map n_id (concat (map (\<lambda>i. filter (\<lambda>n. n_id n = i \<and>
      is_placeholder (n_kind n) (n_nativeKind n)) (nodes st)) ids)))" for ids
  proof (induction ids)
    case (Cons i ids)
    have "distinct (map n_id (filter (\<lambda>n. n_id n = i \<and> is_placeholder (n_kind n) (n_nativeKind n)) (nodes st)))"
      using assms unfolding keyed_def by (simp add: distinct_map_filter)
    then show ?case using Cons by auto
  qed simp
  moreover have "distinct (woken_ids st d)" unfolding woken_ids_def Let_def by simp
  ultimately show ?thesis unfolding placeholder_rows_def by auto
qed

lemma relink_keeps:
  assumes "keyed n_id (nodes st)" "link_ok (pending_ids st) e" "set (map ph_id ps) \<subseteq> pending_ids st"
  shows "origin (relink st rules ps e) = origin e \<and> link_ok (pending_ids st) (relink st rules ps e)"
proof (cases "find (\<lambda>p. ph_id p = origin e) ps")
  case (Some p)
  then have "ph_id p \<in> pending_ids st" using assms(3) find_in [OF Some] by auto
  then show ?thesis using settle_keeps [OF assms(1,2)] Some by (simp add: relink_def)
qed (use assms in \<open>simp add: relink_def\<close>)

lemma relink_twice:
  assumes "keyed n_id (nodes st)" "link_ok (pending_ids st) e" "set (map ph_id ps) \<subseteq> pending_ids st"
  shows "relink st rules ps (relink st rules ps e) = relink st rules ps e"
proof -
  have "origin (relink st rules ps e) = origin e" using relink_keeps [OF assms] by blast
  then show ?thesis using settle_twice by (auto simp: relink_def split: option.splits)
qed

text \<open>A pass over an index whose edges are all settled changes nothing and counts nothing.\<close>

lemma link_group_fixed:
  assumes "\<forall>e\<in>set (edges st). settle_edge st rules p e = e"
  shows "link_group rules p g (st, n) = (st, n)"
proof -
  obtain kind source where g: "g = (kind, source)" by (cases g)
  have "\<not> (of_placeholder (ph_id p) e \<and> e_kind e = kind \<and> e_source e = source \<and> e_toId e \<noteq> t)"
    if "e \<in> set (edges st)" "decide_group st rules p kind source = Some (Some t)" for e t
  proof
    assume a: "of_placeholder (ph_id p) e \<and> e_kind e = kind \<and> e_source e = source \<and> e_toId e \<noteq> t"
    then have "e_toId (settle_edge st rules p e) = t" using that(2) by (simp add: settle_edge_def repoint_edge_def)
    then show False using a assms that(1) by simp
  qed
  then have "snd (link_group rules p g (st, n)) = n"
    by (auto simp: link_group_def g filter_empty_conv split: option.splits)
  moreover have "fst (link_group rules p g (st, n)) = st"
    unfolding link_group_edges using assms by (simp add: map_idI)
  ultimately show ?thesis by (metis prod.collapse)
qed

lemma link_fixed:
  assumes "\<forall>p\<in>set ps. \<forall>e\<in>set (edges st). settle_edge st rules p e = e"
  shows "fold (link_placeholder rules) ps (st, n) = (st, n)"
  using assms
proof (induction ps)
  case (Cons p ps)
  have "fold (link_group rules p) gs (st, n) = (st, n)" for gs
    using Cons.prems link_group_fixed [of st rules p] by (induction gs) simp_all
  then have "link_placeholder rules p (st, n) = (st, n)" by (simp add: link_placeholder_def)
  then show ?case using Cons by simp
qed simp

lemma link_again:
  assumes keyed: "keyed n_id (nodes st)" and ok: "links_ok st" and rows: "placeholder_rows st rows"
    and ps: "ps = lp_placeholders (collect_pending st rows)"
    and st': "st' = st\<lparr>edges := map (relink st rules ps) (edges st)\<rparr>"
  shows "link rules (collect_pending st' rows) st' = (st', 0)"
proof -
  have ids: "distinct (map ph_id ps)" "set (map ph_id ps) \<subseteq> pending_ids st"
    using collect_ok [OF rows] ps by simp_all
  have fixed: "settle_edge st rules p e' = e'" if p: "p \<in> set ps" and e': "e' \<in> set (edges st')" for p e'
  proof -
    obtain e where e: "e \<in> set (edges st)" "e' = relink st rules ps e" using e' unfolding st' by auto
    have "link_ok (pending_ids st) e" using ok e(1) by (simp add: links_ok_def list_all_iff)
    note r = relink_keeps [OF keyed this ids(2), of rules, folded e(2)] relink_twice [OF keyed this ids(2), of rules, folded e(2)]
    show ?thesis
    proof (cases "ph_id p = origin e'")
      case True
      then have "find (\<lambda>q. ph_id q = origin e') ps = Some p"
        using find_distinct [OF ids(1) p] by simp
      then show ?thesis using r(2) by (simp add: relink_def)
    next
      case False
      then show ?thesis using settle_other r(1) p ids(2) by (metis image_eqI list.set_map subsetD)
    qed
  qed
  have "lp_placeholders (collect_pending st' rows) = ps" unfolding st' ps edge_frame by (rule refl)
  moreover have "\<forall>p\<in>set ps. \<forall>e\<in>set (edges st'). settle_edge st' rules p e = e"
    using fixed unfolding st' edge_frame by blast
  ultimately show ?thesis unfolding link_def by (simp add: link_fixed)
qed

lemma relink_sound:
  assumes "e' = relink st rules ps e" "e' \<noteq> e"
  shows "\<exists>p\<in>set ps. ph_id p = origin e \<and>
    (e' = e\<lparr>e_toId := origin e, e_resolved := False, e_linkedFrom := None\<rparr> \<or>
     (\<exists>n. may_link st p e n \<and> e' = e\<lparr>e_toId := n_id n, e_resolved := True, e_linkedFrom := Some (origin e)\<rparr>))"
proof -
  obtain p where p: "find (\<lambda>p. ph_id p = origin e) ps = Some p" "e' = settle_edge st rules p e"
    using assms unfolding relink_def by (auto split: option.splits)
  have pp: "p \<in> set ps" "ph_id p = origin e" using find_in [OF p(1)] by auto
  obtain r where r: "decide_group st rules p (e_kind e) (e_source e) = Some r"
    using p(2) assms(2) by (auto simp: settle_edge_def split: option.splits)
  show ?thesis
  proof (cases r)
    case None
    then show ?thesis using p(2) assms(2) r pp
      by (auto simp: settle_edge_def unlink_group_def split: if_splits intro!: bexI [of _ p])
  next
    case (Some t)
    then obtain n where n: "n_id n = t" "may_link st p e n" using decide_group_sound r by blast
    have "e' = e\<lparr>e_toId := n_id n, e_resolved := True, e_linkedFrom := Some (origin e)\<rparr>"
      using p(2) assms(2) r Some n(1) pp(2) by (auto simp: settle_edge_def repoint_edge_def split: if_splits)
    then show ?thesis using n(2) pp by blast
  qed
qed

text \<open>
  C21. Linking never invents a target: a full pass changes only edges, and an edge that it changes
  belongs to a placeholder and either goes back onto that placeholder, unresolved, or points,
  resolved, at a stored declaration of a kind the edge admits that the placeholder's requester can
  see, visibility being waived only for a semantic engine's exact answer.
\<close>

theorem link_all_sound:
  assumes "keyed n_id (nodes st)" "links_ok st"
  shows "\<exists>E. fst (link_all rules st) = st\<lparr>edges := E\<rparr> \<and> length E = length (edges st) \<and>
    (\<forall>i<length E. E ! i = edges st ! i \<or>
      (\<exists>p node. node \<in> set (nodes st) \<and> is_placeholder (n_kind node) (n_nativeKind node) \<and>
         placeholder_from_row st node = Some p \<and> n_id node = origin (edges st ! i) \<and>
         (E ! i = (edges st ! i)\<lparr>e_toId := n_id node, e_resolved := False, e_linkedFrom := None\<rparr> \<or>
          (\<exists>n. may_link st p (edges st ! i) n \<and>
             E ! i = (edges st ! i)\<lparr>e_toId := n_id n, e_resolved := True, e_linkedFrom := Some (n_id node)\<rparr>))))"
proof -
  define rows where "rows = filter (\<lambda>n. is_placeholder (n_kind n) (n_nativeKind n)) (nodes st)"
  define ps where "ps = lp_placeholders (collect_pending st rows)"
  note ids = collect_ok [OF all_placeholder_rows [OF assms(1)], folded rows_def]
  have run: "fst (link_all rules st) = st\<lparr>edges := map (relink st rules ps) (edges st)\<rparr>"
    unfolding link_all_def rows_def [symmetric] ps_def by (rule link_as_relink [OF assms ids])
  have row: "\<exists>node\<in>set rows. placeholder_from_row st node = Some p" if "p \<in> set ps" for p
    using that unfolding ps_def collect_pending_def by (simp add: map_filter_mem)
  show ?thesis
  proof (intro exI [of _ "map (relink st rules ps) (edges st)"] conjI run allI impI)
    fix i assume "i < length (map (relink st rules ps) (edges st))"
    then have E: "map (relink st rules ps) (edges st) ! i = relink st rules ps (edges st ! i)" by simp
    let ?e = "edges st ! i" and ?e' = "map (relink st rules ps) (edges st) ! i"
    show "?e' = ?e \<or>
      (\<exists>p node. node \<in> set (nodes st) \<and> is_placeholder (n_kind node) (n_nativeKind node) \<and>
         placeholder_from_row st node = Some p \<and> n_id node = origin ?e \<and>
         (?e' = ?e\<lparr>e_toId := n_id node, e_resolved := False, e_linkedFrom := None\<rparr> \<or>
          (\<exists>n. may_link st p ?e n \<and>
             ?e' = ?e\<lparr>e_toId := n_id n, e_resolved := True, e_linkedFrom := Some (n_id node)\<rparr>)))"
    proof (cases "?e' = ?e")
      case False
      obtain p where p: "p \<in> set ps" "ph_id p = origin ?e"
        "?e' = ?e\<lparr>e_toId := origin ?e, e_resolved := False, e_linkedFrom := None\<rparr> \<or>
         (\<exists>n. may_link st p ?e n \<and> ?e' = ?e\<lparr>e_toId := n_id n, e_resolved := True, e_linkedFrom := Some (origin ?e)\<rparr>)"
        using relink_sound [OF E False] by blast
      obtain node where node: "node \<in> set rows" "placeholder_from_row st node = Some p" using row [OF p(1)] by blast
      then have "node \<in> set (nodes st)" "is_placeholder (n_kind node) (n_nativeKind node)" "n_id node = origin ?e"
        using placeholder_id p(2) by (auto simp: rows_def)
      then show ?thesis using node(2) p(3) by (intro disjI2 exI [of _ p] exI [of _ node]) simp
    qed simp
  qed simp
qed

text \<open>
  C22. Linking settles: running a full pass again changes no edge and links nothing, and the pass
  keeps the rule that a linked edge does not point at a placeholder.
\<close>

theorem link_all_idempotent:
  assumes "keyed n_id (nodes st)" "links_ok st"
  shows "link_all rules (fst (link_all rules st)) = (fst (link_all rules st), 0) \<and>
    links_ok (fst (link_all rules st))"
proof -
  define rows where "rows = filter (\<lambda>n. is_placeholder (n_kind n) (n_nativeKind n)) (nodes st)"
  define ps where "ps = lp_placeholders (collect_pending st rows)"
  define st' where "st' = st\<lparr>edges := map (relink st rules ps) (edges st)\<rparr>"
  have ok: "placeholder_rows st rows" using all_placeholder_rows [OF assms(1)] by (simp add: rows_def)
  have run: "fst (link_all rules st) = st'"
    unfolding link_all_def rows_def [symmetric] st'_def ps_def by (rule link_as_relink [OF assms collect_ok [OF ok]])
  have "link_all rules st' = (st', 0)"
    using link_again [OF assms ok ps_def st'_def] unfolding link_all_def st'_def edge_frame rows_def .
  moreover have "links_ok st'"
    using assms(2) relink_keeps [OF assms(1) _ collect_ok(2) [OF ok, folded ps_def]]
    unfolding links_ok_def st'_def edge_frame by (auto simp: list_all_iff)
  ultimately show ?thesis unfolding run by simp
qed

lemma find_subset:
  assumes "distinct (map f xs)" and both: "\<And>x. x \<in> set ys \<longleftrightarrow> x \<in> set xs \<and> f x \<in> S"
  shows "find (\<lambda>x. f x = k) ys = (if k \<in> S then find (\<lambda>x. f x = k) xs else None)"
proof (cases "find (\<lambda>x. f x = k) ys")
  case None
  have "find (\<lambda>x. f x = k) xs = None" if "k \<in> S"
  proof (rule ccontr)
    assume "find (\<lambda>x. f x = k) xs \<noteq> None"
    then obtain x where "x \<in> set xs" "f x = k" using find_in [of "\<lambda>x. f x = k" xs] by blast
    then have "x \<in> set ys" using both that by blast
    then show False using None \<open>f x = k\<close> by (auto simp: find_None_iff)
  qed
  then show ?thesis using None by simp
next
  case (Some x)
  then have x: "x \<in> set ys" "f x = k" using find_in [OF Some] by auto
  then have "x \<in> set xs" "k \<in> S" using both by auto
  then show ?thesis using Some x(2) find_distinct [OF assms(1), of x] by simp
qed

text \<open>
  C23. The incremental pass does nothing else than the full one: after \<^verbatim>\<open>link_diff\<close> an edge of a
  placeholder that the diff wakes is as \<^verbatim>\<open>link_all\<close> leaves it, and every other edge is as before.
\<close>

theorem link_diff_agrees:
  assumes "keyed n_id (nodes st)" "links_ok st" "i < length (edges st)"
  shows "edges (fst (link_diff rules d st)) ! i =
    (if origin (edges st ! i) \<in> set (woken_ids st d) then edges (fst (link_all rules st)) ! i else edges st ! i)"
proof -
  define rows where "rows = filter (\<lambda>n. is_placeholder (n_kind n) (n_nativeKind n)) (nodes st)"
  define some_rows where "some_rows = concat (map (\<lambda>i. filter (\<lambda>n. n_id n = i \<and>
    is_placeholder (n_kind n) (n_nativeKind n)) (nodes st)) (woken_ids st d))"
  let ?ps = "\<lambda>rs. List.map_filter (placeholder_from_row st) rs"
  have ok: "placeholder_rows st rows" "placeholder_rows st some_rows"
    using all_placeholder_rows [OF assms(1)] woken_placeholder_rows [OF assms(1)] by (simp_all add: rows_def some_rows_def)
  have all: "fst (link_all rules st) = st\<lparr>edges := map (relink st rules (?ps rows)) (edges st)\<rparr>"
    and some: "fst (link_diff rules d st) = st\<lparr>edges := map (relink st rules (?ps some_rows)) (edges st)\<rparr>"
    using link_as_relink [OF assms(1,2) collect_ok [OF ok(1)]] link_as_relink [OF assms(1,2) collect_ok [OF ok(2)]]
    unfolding link_all_def link_diff_def rows_def [symmetric] some_rows_def [symmetric] collect_pending_def by simp_all
  have "p \<in> set (?ps some_rows) \<longleftrightarrow> p \<in> set (?ps rows) \<and> ph_id p \<in> set (woken_ids st d)" for p
    unfolding map_filter_mem using placeholder_id [of st _ p] by (auto simp: rows_def some_rows_def)
  moreover have "distinct (map ph_id (?ps rows))" using collect_ok(1) [OF ok(1)] by (simp add: collect_pending_def)
  ultimately have "find (\<lambda>p. ph_id p = k) (?ps some_rows) =
      (if k \<in> set (woken_ids st d) then find (\<lambda>p. ph_id p = k) (?ps rows) else None)" for k
    by (intro find_subset)
  then show ?thesis using assms(3) unfolding all some by (simp add: relink_def)
qed

section \<open>A concrete index\<close>

text \<open>A call through a placeholder onto a function of another file, and one whose name is declared twice.\<close>

definition two_files :: store where
  "two_files = empty_store\<lparr>
     nodes := map node_row [
       (new_NodeRecord ''f'' ''Function'' ''f'' ''f'' ''b.ts'' ''ts'')\<lparr>nr_visibility := ''public''\<rparr>,
       (new_NodeRecord ''g1'' ''Function'' ''g'' ''g'' ''b.ts'' ''ts'')\<lparr>nr_visibility := ''public''\<rparr>,
       (new_NodeRecord ''g2'' ''Function'' ''g'' ''g'' ''b.ts'' ''ts'')\<lparr>nr_visibility := ''public''\<rparr>,
       (new_NodeRecord ''p'' ''Module'' ''f'' ''f'' ''a.ts'' ''ts'')\<lparr>nr_native_kind := Some ''pending_symbol''\<rparr>,
       (new_NodeRecord ''q'' ''Module'' ''g'' ''g'' ''a.ts'' ''ts'')\<lparr>nr_native_kind := Some ''pending_symbol''\<rparr>],
     edges := map edge_row [new_EdgeRecord ''1'' ''h'' ''p'' ''CALLS'' ''tree-sitter'' False,
       new_EdgeRecord ''2'' ''h'' ''q'' ''CALLS'' ''tree-sitter'' False],
     placeholder_targets := map (\<lambda>(i, k). \<lparr>t_nodeId = i, t_scopeKind = ''file'', t_scope = ''b.ts'', t_keyKind = ''name'',
       t_key = k, t_fromContainer = None, t_fromFile = ''a.ts'', t_keyPath = None\<rparr>) [(''p'', ''f''), (''q'', ''g'')]\<rparr>"

definition no_rules :: LinkRules where
  "no_rules = \<lparr>lr_named_shadows_glob = [], lr_later_import_binds = []\<rparr>"

lemma two_files_ok: "keyed n_id (nodes two_files)" "links_ok two_files"
proof -
  show "keyed n_id (nodes two_files)" unfolding keyed_def by code_simp
  have "list_all (\<lambda>e. e_linkedFrom e = None) (edges two_files)" by code_simp
  then show "links_ok two_files" by (simp add: links_ok_def link_ok_def list_all_iff)
qed

theorem link_all_sound_witness:
  "map e_toId (edges (fst (link_all no_rules two_files))) = [''f'', ''q''] \<and>
   (\<exists>p n. may_link two_files p (edges two_files ! 0) n \<and> n_id n = ''f'')"
proof -
  have run: "map e_toId (edges (fst (link_all no_rules two_files))) = [''f'', ''q'']"
    and e0: "e_toId (edges two_files ! 0) = ''p''" "origin (edges two_files ! 0) = ''p''" by code_simp+
  have two: "length (edges two_files) = 2" by code_simp
  from link_all_sound [OF two_files_ok, of no_rules] show ?thesis
  proof (elim exE conjE)
    fix E
    assume E: "fst (link_all no_rules two_files) = two_files\<lparr>edges := E\<rparr>" "length E = length (edges two_files)"
      and all: "\<forall>i<length E. E ! i = edges two_files ! i \<or>
        (\<exists>p node. node \<in> set (nodes two_files) \<and> is_placeholder (n_kind node) (n_nativeKind node) \<and>
           placeholder_from_row two_files node = Some p \<and> n_id node = origin (edges two_files ! i) \<and>
           (E ! i = (edges two_files ! i)\<lparr>e_toId := n_id node, e_resolved := False, e_linkedFrom := None\<rparr> \<or>
            (\<exists>n. may_link two_files p (edges two_files ! i) n \<and>
               E ! i = (edges two_files ! i)\<lparr>e_toId := n_id n, e_resolved := True, e_linkedFrom := Some (n_id node)\<rparr>)))"
    have to: "map e_toId E = [''f'', ''q'']" using run E(1) by simp
    then have "e_toId (E ! 0) = ''f''" by (cases E) auto
    moreover have "0 < length E" using E(2) two by simp
    ultimately have "\<exists>p n. may_link two_files p (edges two_files ! 0) n \<and> n_id n = ''f''"
      using all [rule_format, of 0] e0 by (auto, blast)
    then show ?thesis using run by blast
  qed
qed

theorem link_all_idempotent_witness:
  "link_all no_rules (fst (link_all no_rules two_files)) = (fst (link_all no_rules two_files), 0) \<and>
   snd (link_all no_rules two_files) = 1"
proof -
  have "snd (link_all no_rules two_files) = 1" by code_simp
  then show ?thesis using link_all_idempotent [OF two_files_ok, of no_rules] by simp
qed

theorem link_diff_agrees_witness:
  "edges (fst (link_diff no_rules (default_Diff\<lparr>upsert_nodes := [(new_NodeRecord ''f'' ''Function'' ''f'' ''f'' ''b.ts'' ''ts'')
      \<lparr>nr_visibility := ''public''\<rparr>]\<rparr>) two_files)) ! 0 = edges (fst (link_all no_rules two_files)) ! 0"
proof -
  let ?d = "default_Diff\<lparr>upsert_nodes := [(new_NodeRecord ''f'' ''Function'' ''f'' ''f'' ''b.ts'' ''ts'')
      \<lparr>nr_visibility := ''public''\<rparr>]\<rparr>"
  have "0 < length (edges two_files)" "origin (edges two_files ! 0) \<in> set (woken_ids two_files ?d)" by code_simp+
  then show ?thesis using link_diff_agrees [OF two_files_ok, of 0 no_rules ?d] by simp
qed

end
