(* ===== verification/Import_Links.thy ===== *)
theory Import_Links
  imports Link_Correct
begin

text \<open>
  \<^verbatim>\<open>core/src/graph/imports.rs\<close>: import edges that a plugin hung on a placeholder for a resolved module
  are moved onto the file or the container the placeholder addresses, and a placeholder that no
  edge touches any more is deleted with its dependent rows.
\<close>

definition RESOLVED_MODULE_NATIVE_KIND :: string where "RESOLVED_MODULE_NATIVE_KIND = ''resolved_module''"
definition EXTERNAL_MODULE_NATIVE_KIND :: string where "EXTERNAL_MODULE_NATIVE_KIND = ''external_module''"

record ImportSummary =
  linked_edges :: nat
  dropped_placeholders :: nat

record ImportPlaceholder =
  ip_id :: string
  ip_scope_kind :: string
  ip_scope :: string
  ip_language :: string

definition is_import_placeholder :: "string \<Rightarrow> string option \<Rightarrow> bool" where
  "is_import_placeholder kind native_kind \<longleftrightarrow> kind = MODULE_KIND \<and> native_kind = Some RESOLVED_MODULE_NATIVE_KIND"

text \<open>The rows of nodes joined with their targets.\<close>

definition import_rows :: "store \<Rightarrow> (NodeRow \<times> TargetRow) list" where
  "import_rows st =
     concat (map (\<lambda>n. map (Pair n) (filter (\<lambda>t. t_nodeId t = n_id n) (placeholder_targets st)))
       (filter (\<lambda>n. is_import_placeholder (n_kind n) (n_nativeKind n)) (nodes st)))"

definition import_target :: "store \<Rightarrow> ImportPlaceholder \<Rightarrow> string option" where
  "import_target st p =
     (if ip_scope_kind p = ''container''
      then map_option c_nodeId (find (\<lambda>c. c_language c = ip_language p \<and> c_key c = ip_scope p) (containers st))
      else map_option n_id (find (\<lambda>n. n_kind n = FILE_KIND \<and> n_filePath n = ip_scope p) (nodes st)))"

definition waits_on :: "string \<Rightarrow> EdgeRow \<Rightarrow> bool" where
  "waits_on i e \<longleftrightarrow> e_toId e = i \<and> e_kind e = ''IMPORTS''"

definition repoint_import :: "string \<Rightarrow> string \<Rightarrow> EdgeRow \<Rightarrow> EdgeRow" where
  "repoint_import target i e = (if waits_on i e then e\<lparr>e_toId := target, e_resolved := True\<rparr> else e)"

definition incident :: "store \<Rightarrow> string \<Rightarrow> nat" where
  "incident st i = length (filter (\<lambda>e. e_fromId e = i \<or> e_toId e = i) (edges st))"

definition link_import :: "ImportPlaceholder \<Rightarrow> store \<times> ImportSummary \<Rightarrow> store \<times> ImportSummary" where
  "link_import p acc =
     (case acc of (st, summary) \<Rightarrow>
        (case import_target st p of
           None \<Rightarrow> (st, summary)
         | Some target \<Rightarrow>
             let moved = length (filter (waits_on (ip_id p)) (edges st));
                 st1 = st\<lparr>edges := map (repoint_import target (ip_id p)) (edges st)\<rparr>;
                 summary1 = summary\<lparr>linked_edges := linked_edges summary + moved\<rparr>
             in if incident st1 (ip_id p) = 0
                then (delete_node_rows (ip_id p) st1,
                      summary1\<lparr>dropped_placeholders := dropped_placeholders summary1 +
                        length (filter (\<lambda>n. n_id n = ip_id p) (nodes st1))\<rparr>)
                else (st1, summary1)))"

definition link_imports :: "ImportPlaceholder list \<Rightarrow> store \<Rightarrow> store \<times> ImportSummary" where
  "link_imports ps st = fold link_import ps (st, \<lparr>linked_edges = 0, dropped_placeholders = 0\<rparr>)"

definition import_placeholders :: "store \<Rightarrow> ImportPlaceholder list" where
  "import_placeholders st =
     map (\<lambda>(n, t). \<lparr>ip_id = n_id n, ip_scope_kind = t_scopeKind t, ip_scope = t_scope t, ip_language = n_language n\<rparr>)
       (import_rows st)"

definition link_all_imports :: "store \<Rightarrow> store \<times> ImportSummary" where
  "link_all_imports st = link_imports (import_placeholders st) st"

definition sent_placeholders :: "Diff \<Rightarrow> ImportPlaceholder list" where
  "sent_placeholders d =
     List.map_filter (\<lambda>n. map_option (\<lambda>t. \<lparr>ip_id = nr_id n, ip_scope_kind = tr_scope_kind t, ip_scope = tr_scope t,
         ip_language = nr_language n\<rparr>) (nr_target n))
       (filter (\<lambda>n. is_import_placeholder (nr_kind n) (nr_native_kind n)) (upsert_nodes d))"

definition waiting_on_file :: "store \<Rightarrow> string \<Rightarrow> ImportPlaceholder list" where
  "waiting_on_file st file_path =
     map (\<lambda>(n, t). \<lparr>ip_id = n_id n, ip_scope_kind = ''file'', ip_scope = file_path, ip_language = n_language n\<rparr>)
       (filter (\<lambda>(n, t). t_scopeKind t = ''file'' \<and> t_scope t = file_path) (import_rows st))"

definition waiting_on_container :: "store \<Rightarrow> string \<times> string \<Rightarrow> ImportPlaceholder list" where
  "waiting_on_container st container =
     (case container of (language, key) \<Rightarrow>
        map (\<lambda>(n, t). \<lparr>ip_id = n_id n, ip_scope_kind = ''container'', ip_scope = key, ip_language = language\<rparr>)
          (filter (\<lambda>(n, t). t_scopeKind t = ''container'' \<and> t_scope t = key \<and> n_language n = language) (import_rows st)))"

text \<open>\<^verbatim>\<open>sort_by\<close> is stable and \<^verbatim>\<open>dedup_by\<close> keeps the first of equal neighbours.\<close>

fun dedup_ids :: "ImportPlaceholder list \<Rightarrow> ImportPlaceholder list" where
  "dedup_ids (a # b # ps) = (if ip_id a = ip_id b then dedup_ids (a # ps) else a # dedup_ids (b # ps))"
| "dedup_ids ps = ps"

definition link_diff_imports :: "Diff \<Rightarrow> store \<Rightarrow> store \<times> ImportSummary" where
  "link_diff_imports d st =
     (let added_files = map nr_file_path (filter (\<lambda>n. nr_kind n = FILE_KIND) (upsert_nodes d));
          container_keys = btree_set (List.map_filter (\<lambda>n. map_option (Pair (nr_language n)) (nr_container n)) (upsert_nodes d));
          placeholders = sent_placeholders d @ concat (map (waiting_on_file st) added_files) @
            concat (map (waiting_on_container st) container_keys)
      in link_imports (dedup_ids (sort_key ip_id placeholders)) st)"

section \<open>What linking keeps\<close>

definition endpoints_stored :: "store \<Rightarrow> bool" where
  "endpoints_stored st \<longleftrightarrow> list_all (\<lambda>e. e_fromId e \<in> node_ids st \<and> e_toId e \<in> node_ids st) (edges st)"

text \<open>Unique keys, and every container row has its node, which is no import placeholder.\<close>

definition import_ok :: "store \<Rightarrow> bool" where
  "import_ok st \<longleftrightarrow> keyed n_id (nodes st) \<and> keyed t_nodeId (placeholder_targets st) \<and>
     list_all (\<lambda>c. list_ex (\<lambda>n. n_id n = c_nodeId c \<and> \<not> is_import_placeholder (n_kind n) (n_nativeKind n)) (nodes st))
       (containers st)"

definition import_ids :: "store \<Rightarrow> string set" where
  "import_ids st = n_id ` {n \<in> set (nodes st). is_import_placeholder (n_kind n) (n_nativeKind n)}"

lemma import_ids_row:
  assumes "keyed n_id (nodes st)" "n \<in> set (nodes st)"
  shows "n_id n \<in> import_ids st \<longleftrightarrow> is_import_placeholder (n_kind n) (n_nativeKind n)"
proof
  assume "n_id n \<in> import_ids st"
  then obtain m where "m \<in> set (nodes st)" "is_import_placeholder (n_kind m) (n_nativeKind m)" "n_id m = n_id n"
    unfolding import_ids_def by auto
  then show "is_import_placeholder (n_kind n) (n_nativeKind n)" using keyed_inj [OF assms(1) _ assms(2)] by metis
qed (use assms(2) in \<open>auto simp: import_ids_def\<close>)

lemma import_target_stored:
  assumes "import_ok st" "import_target st p = Some t"
  shows "t \<in> node_ids st - import_ids st"
proof -
  have keyed: "keyed n_id (nodes st)" using assms(1) by (simp add: import_ok_def)
  obtain n where n: "n \<in> set (nodes st)" "n_id n = t" "\<not> is_import_placeholder (n_kind n) (n_nativeKind n)"
  proof (cases "ip_scope_kind p = ''container''")
    case True
    then obtain c where "c \<in> set (containers st)" "c_nodeId c = t"
      using assms(2) unfolding import_target_def by (auto dest: find_in)
    then show ?thesis using assms(1) that unfolding import_ok_def list_all_iff list_ex_iff by blast
  next
    case False
    then obtain n where "n \<in> set (nodes st)" "n_kind n = FILE_KIND" "n_id n = t"
      using assms(2) unfolding import_target_def by (auto dest: find_in)
    then show ?thesis using that [of n] by (simp add: is_import_placeholder_def FILE_KIND_def MODULE_KIND_def)
  qed
  then have "t \<notin> import_ids st" using import_ids_row [OF keyed n(1)] by simp
  then show ?thesis using n unfolding node_ids_def by auto
qed

text \<open>One step: what it leaves of the tables other steps read.\<close>

lemma link_import_store:
  "fst (link_import p (st, s)) =
     (case import_target st p of None \<Rightarrow> st
      | Some t \<Rightarrow> (let st1 = st\<lparr>edges := map (repoint_import t (ip_id p)) (edges st)\<rparr>
                   in if incident st1 (ip_id p) = 0 then delete_node_rows (ip_id p) st1 else st1))"
  by (auto simp: link_import_def Let_def split: option.split)

lemma link_import_cases:
  obtains "fst (link_import p (st, s)) = st" "import_target st p = None"
  | t where "import_target st p = Some t"
      "fst (link_import p (st, s)) = st\<lparr>edges := map (repoint_import t (ip_id p)) (edges st)\<rparr>"
      "incident (st\<lparr>edges := map (repoint_import t (ip_id p)) (edges st)\<rparr>) (ip_id p) \<noteq> 0"
  | t where "import_target st p = Some t"
      "fst (link_import p (st, s)) = delete_node_rows (ip_id p) (st\<lparr>edges := map (repoint_import t (ip_id p)) (edges st)\<rparr>)"
      "incident (st\<lparr>edges := map (repoint_import t (ip_id p)) (edges st)\<rparr>) (ip_id p) = 0"
  by (cases "import_target st p") (auto simp: link_import_store Let_def split: if_splits)

lemma deleted_tables [simp]:
  "edges (delete_node_rows i st) = edges st" "containers (delete_node_rows i st) = containers st"
  "set (nodes (delete_node_rows i st)) = {n \<in> set (nodes st). n_id n \<noteq> i}"
  "set (placeholder_targets (delete_node_rows i st)) = {t \<in> set (placeholder_targets st). t_nodeId t \<noteq> i}"
  by (auto simp: delete_node_rows_def delete_by_def)

lemma find_filter_other: "(\<And>x. x \<in> set xs \<Longrightarrow> P x \<Longrightarrow> Q x) \<Longrightarrow> find P (filter Q xs) = find P xs"
  by (induction xs) auto

lemma import_target_kept:
  assumes "import_ok st" "ip_id q \<in> import_ids st"
  shows "import_target (fst (link_import q (st, s))) p = import_target st p"
proof -
  have keyed: "keyed n_id (nodes st)" using assms(1) by (simp add: import_ok_def)
  have "n_id n \<noteq> ip_id q" if "n \<in> set (nodes st)" "n_kind n = FILE_KIND" for n
    using assms(2) import_ids_row [OF keyed that(1)] that(2)
    by (auto simp: is_import_placeholder_def FILE_KIND_def MODULE_KIND_def)
  then have "find (\<lambda>n. n_kind n = FILE_KIND \<and> n_filePath n = ip_scope p) (filter (\<lambda>n. n_id n \<noteq> ip_id q) (nodes st)) =
      find (\<lambda>n. n_kind n = FILE_KIND \<and> n_filePath n = ip_scope p) (nodes st)"
    by (intro find_filter_other) blast
  then have "import_target (delete_node_rows (ip_id q) (st\<lparr>edges := E\<rparr>)) p = import_target st p" for E
    by (simp add: import_target_def delete_node_rows_def delete_by_def)
  moreover have "import_target (st\<lparr>edges := E\<rparr>) p = import_target st p" for E by (simp add: import_target_def)
  ultimately show ?thesis by (cases rule: link_import_cases [of q st s]) simp_all
qed

lemma link_import_ok:
  assumes "import_ok st" "ip_id q \<in> import_ids st"
  shows "import_ok (fst (link_import q (st, s)))"
proof -
  have keep: "import_ok (delete_node_rows (ip_id q) (st\<lparr>edges := E\<rparr>))" for E
  proof -
    have "\<exists>n\<in>set (nodes st). n_id n \<noteq> ip_id q \<and> n_id n = c_nodeId c \<and> \<not> is_import_placeholder (n_kind n) (n_nativeKind n)"
      if c: "c \<in> set (containers st)" for c
    proof -
      obtain n where n: "n \<in> set (nodes st)" "n_id n = c_nodeId c" "\<not> is_import_placeholder (n_kind n) (n_nativeKind n)"
        using assms(1) c unfolding import_ok_def list_all_iff list_ex_iff by blast
      have "keyed n_id (nodes st)" using assms(1) unfolding import_ok_def by blast
      then have "n_id n \<notin> import_ids st" using import_ids_row [OF _ n(1)] n(3) by blast
      then have "n_id n \<noteq> ip_id q" using assms(2) by metis
      then show ?thesis using n by blast
    qed
    then show ?thesis using assms(1) unfolding import_ok_def
      by (auto simp: list_all_iff list_ex_iff delete_node_rows_def delete_by_def keyed_filter)
  qed
  have "import_ok (st\<lparr>edges := E\<rparr>)" for E using assms(1) by (simp add: import_ok_def)
  then show ?thesis using assms(1) keep by (cases rule: link_import_cases [of q st s]) simp_all
qed

lemma link_import_endpoints:
  assumes "import_ok st" "endpoints_stored st"
  shows "endpoints_stored (fst (link_import q (st, s)))"
proof -
  have moved: "endpoints_stored (st\<lparr>edges := map (repoint_import t (ip_id q)) (edges st)\<rparr>)"
    if "import_target st q = Some t" for t
    using assms import_target_stored [OF assms(1) that]
    by (auto simp: endpoints_stored_def list_all_iff repoint_import_def)
  show ?thesis
  proof (cases rule: link_import_cases [of q st s])
    case (3 t)
    let ?st1 = "st\<lparr>edges := map (repoint_import t (ip_id q)) (edges st)\<rparr>"
    have "\<forall>e\<in>set (edges ?st1). e_fromId e \<noteq> ip_id q \<and> e_toId e \<noteq> ip_id q"
      using 3(3) unfolding incident_def by (auto simp: filter_empty_conv)
    then show ?thesis using moved [OF 3(1)] 3(2) by (auto simp: endpoints_stored_def list_all_iff)
  qed (use assms moved in simp_all)
qed

lemma link_import_orphans:
  assumes "orphan_free st"
  shows "orphan_free (fst (link_import q (st, s)))"
  using assms by (cases rule: link_import_cases [of q st s]) (auto simp: orphan_free_def)

lemma link_import_ids:
  "import_ids (fst (link_import q (st, s))) \<subseteq> import_ids st"
  by (cases rule: link_import_cases [of q st s]) (auto simp: import_ids_def)

section \<open>Settled placeholders\<close>

definition settled :: "store \<Rightarrow> ImportPlaceholder \<Rightarrow> bool" where
  "settled st p \<longleftrightarrow> import_target st p = None \<or>
     (\<forall>e\<in>set (edges st). \<not> waits_on (ip_id p) e) \<and> incident st (ip_id p) \<noteq> 0"

definition handled :: "store \<Rightarrow> ImportPlaceholder \<Rightarrow> bool" where
  "handled st p \<longleftrightarrow> ip_id p \<notin> import_ids st \<or> settled st p"

lemma link_import_settled: "settled st p \<Longrightarrow> link_import p (st, s) = (st, s)"
proof -
  assume a: "settled st p"
  show ?thesis
  proof (cases "import_target st p")
    case None
    then show ?thesis by (simp add: link_import_def)
  next
    case (Some t)
    then have none: "\<forall>e\<in>set (edges st). \<not> waits_on (ip_id p) e" "incident st (ip_id p) \<noteq> 0"
      using a by (simp_all add: settled_def)
    then have "map (repoint_import t (ip_id p)) (edges st) = edges st" "filter (waits_on (ip_id p)) (edges st) = []"
      by (auto simp: repoint_import_def filter_empty_conv intro!: map_idI)
    then show ?thesis using Some none by (simp add: link_import_def Let_def)
  qed
qed

lemma link_import_handled:
  assumes "import_ok st" "ip_id p \<in> import_ids st"
  shows "handled (fst (link_import p (st, s))) p"
proof (cases rule: link_import_cases [of p st s])
  case 1
  then show ?thesis by (simp add: handled_def settled_def)
next
  case (2 t)
  have "t \<noteq> ip_id p" using import_target_stored [OF assms(1) 2(1)] assms(2) by blast
  then have "\<forall>e\<in>set (edges (fst (link_import p (st, s)))). \<not> waits_on (ip_id p) e"
    unfolding 2(2) by (auto simp: repoint_import_def waits_on_def)
  then show ?thesis using 2 unfolding handled_def settled_def by simp
next
  case (3 t)
  then show ?thesis by (auto simp: handled_def import_ids_def)
qed

lemma link_import_keeps_settled:
  assumes ok: "import_ok st" and ids: "ip_id q \<in> import_ids st" "ip_id p \<noteq> ip_id q" "ip_id p \<in> import_ids st"
    and target: "import_target st p \<noteq> None" and settled: "settled st p"
  shows "settled (fst (link_import q (st, s))) p"
proof -
  have p: "\<forall>e\<in>set (edges st). \<not> waits_on (ip_id p) e" "incident st (ip_id p) \<noteq> 0"
    using settled target unfolding settled_def by auto
  have moved: "(\<forall>e\<in>set (map (repoint_import t' (ip_id q)) (edges st)). \<not> waits_on (ip_id p) e) \<and>
      incident (st\<lparr>edges := map (repoint_import t' (ip_id q)) (edges st)\<rparr>) (ip_id p) \<noteq> 0"
    if "import_target st q = Some t'" for t'
  proof
    have "t' \<noteq> ip_id p" using import_target_stored [OF ok that] ids(3) by blast
    then show "\<forall>e\<in>set (map (repoint_import t' (ip_id q)) (edges st)). \<not> waits_on (ip_id p) e"
      using p(1) by (auto simp: repoint_import_def waits_on_def)
    obtain e where "e \<in> set (edges st)" "e_fromId e = ip_id p \<or> e_toId e = ip_id p"
      using p(2) unfolding incident_def by (auto simp: filter_empty_conv)
    then have "e_fromId (repoint_import t' (ip_id q) e) = ip_id p \<or> e_toId (repoint_import t' (ip_id q) e) = ip_id p"
      using ids(2) by (auto simp: repoint_import_def waits_on_def)
    then show "incident (st\<lparr>edges := map (repoint_import t' (ip_id q)) (edges st)\<rparr>) (ip_id p) \<noteq> 0"
      using \<open>e \<in> set (edges st)\<close> unfolding incident_def by (auto simp: filter_empty_conv)
  qed
  show ?thesis
    using moved p unfolding settled_def
    by (cases rule: link_import_cases [of q st s]) (auto simp: incident_def)
qed

lemma link_import_keeps_handled:
  assumes ok: "import_ok st" and ids: "ip_id q \<in> import_ids st" "ip_id p \<noteq> ip_id q" and h: "handled st p"
  shows "handled (fst (link_import q (st, s))) p"
proof -
  consider "ip_id p \<notin> import_ids st" | "ip_id p \<in> import_ids st" "import_target st p = None"
    | "ip_id p \<in> import_ids st" "import_target st p \<noteq> None" by blast
  then show ?thesis
  proof cases
    case 1
    then show ?thesis using link_import_ids [of q st s] by (auto simp: handled_def)
  next
    case 2
    then show ?thesis using import_target_kept [OF ok ids(1)] by (simp add: handled_def settled_def)
  next
    case 3
    then have "settled st p" using h by (simp add: handled_def)
    then show ?thesis using link_import_keeps_settled [OF ok ids 3] by (simp add: handled_def)
  qed
qed
text \<open>A whole pass.\<close>

lemma link_imports_run:
  assumes "import_ok st" "distinct (map ip_id ps)" "ip_id ` set ps \<subseteq> import_ids st"
    and "endpoints_stored st" "orphan_free st" "st' = fst (fold link_import ps (st, s))"
  shows "import_ok st' \<and> endpoints_stored st' \<and> orphan_free st' \<and> import_ids st' \<subseteq> import_ids st \<and>
    (\<forall>p. (p \<in> set ps \<or> handled st p \<and> ip_id p \<notin> ip_id ` set ps) \<longrightarrow> handled st' p)"
  using assms
proof (induction ps arbitrary: st s)
  case (Cons q ps)
  let ?st1 = "fst (link_import q (st, s))"
  have q: "ip_id q \<in> import_ids st" "ip_id q \<notin> ip_id ` set ps" using Cons.prems(2,3) by auto
  have "ip_id p \<in> import_ids ?st1" if "p \<in> set ps" for p
  proof -
    have "ip_id p \<in> import_ids st" using that Cons.prems(3) by auto
    moreover have "ip_id p \<noteq> ip_id q" using that q(2) by (metis imageI)
    ultimately show ?thesis by (cases rule: link_import_cases [of q st s]) (auto simp: import_ids_def)
  qed
  then have sub: "ip_id ` set ps \<subseteq> import_ids ?st1" by blast
  have IH: "import_ok st' \<and> endpoints_stored st' \<and> orphan_free st' \<and> import_ids st' \<subseteq> import_ids ?st1 \<and>
    (\<forall>p. (p \<in> set ps \<or> handled ?st1 p \<and> ip_id p \<notin> ip_id ` set ps) \<longrightarrow> handled st' p)"
  proof (rule Cons.IH)
    show "st' = fst (fold link_import ps (?st1, snd (link_import q (st, s))))" using Cons.prems(6) by simp
  qed (use Cons.prems sub link_import_ok [OF Cons.prems(1) q(1)] link_import_endpoints link_import_orphans in auto)
  have "handled st' p" if p: "p \<in> set (q # ps) \<or> handled st p \<and> ip_id p \<notin> ip_id ` set (q # ps)" for p
  proof -
    consider "p \<in> set ps" | "p = q" | "handled st p" "ip_id p \<noteq> ip_id q" "ip_id p \<notin> ip_id ` set ps" using p by auto
    then show ?thesis
    proof cases
      case 2
      then show ?thesis using IH q(2) link_import_handled [OF Cons.prems(1) q(1)] by blast
    next
      case 3
      then show ?thesis using IH link_import_keeps_handled [OF Cons.prems(1) q(1)] by blast
    qed (use IH in blast)
  qed
  then show ?case using IH link_import_ids [of q st s] by blast
qed auto

lemma link_imports_rows:
  "set (nodes (fst (fold link_import ps (st, s)))) \<subseteq> set (nodes st) \<and>
   set (placeholder_targets (fst (fold link_import ps (st, s)))) \<subseteq> set (placeholder_targets st)"
proof (induction ps arbitrary: st s)
  case (Cons q ps)
  obtain st1 s1 where r: "link_import q (st, s) = (st1, s1)" by (cases "link_import q (st, s)")
  then have "set (nodes st1) \<subseteq> set (nodes st) \<and> set (placeholder_targets st1) \<subseteq> set (placeholder_targets st)"
    by (cases rule: link_import_cases [of q st s]) auto
  then show ?case using Cons [of st1 s1] r by auto
qed simp

lemma fold_settled:
  assumes "\<And>p. p \<in> set ps \<Longrightarrow> settled st p"
  shows "fold link_import ps (st, s) = (st, s)"
  using assms by (induction ps) (simp_all add: link_import_settled)

lemma import_row_in:
  "(n, t) \<in> set (import_rows st) \<longleftrightarrow> n \<in> set (nodes st) \<and> is_import_placeholder (n_kind n) (n_nativeKind n) \<and>
     t \<in> set (placeholder_targets st) \<and> t_nodeId t = n_id n"
  by (auto simp: import_rows_def)

lemma import_placeholders_ids:
  assumes "import_ok st"
  shows "distinct (map ip_id (import_placeholders st))" "ip_id ` set (import_placeholders st) \<subseteq> import_ids st"
proof -
  have keyed: "distinct (map n_id (nodes st))" "distinct (map t_nodeId (placeholder_targets st))"
    using assms by (simp_all add: import_ok_def keyed_def)
  have one: "length (filter (\<lambda>t. t_nodeId t = i) (placeholder_targets st)) \<le> 1" for i
  proof -
    have d: "distinct (map t_nodeId (filter (\<lambda>t. t_nodeId t = i) (placeholder_targets st)))"
      using keyed(2) by (rule distinct_map_filter)
    have "set (map t_nodeId (filter (\<lambda>t. t_nodeId t = i) (placeholder_targets st))) \<subseteq> {i}" by auto
    then have "card (set (map t_nodeId (filter (\<lambda>t. t_nodeId t = i) (placeholder_targets st)))) \<le> 1"
      using card_mono [of "{i}"] by simp
    then show ?thesis using distinct_card [OF d] by simp
  qed
  have "distinct (map n_id ns) \<Longrightarrow> distinct (map (\<lambda>(n, t). n_id n) (concat (map (\<lambda>n. map (Pair n)
      (filter (\<lambda>t. t_nodeId t = n_id n) (placeholder_targets st))) ns)))" for ns
  proof (induction ns)
    case (Cons n ns)
    have "distinct (map (\<lambda>t. n_id n) (filter (\<lambda>t. t_nodeId t = n_id n) (placeholder_targets st)))"
      using one [of "n_id n"] by (cases "filter (\<lambda>t. t_nodeId t = n_id n) (placeholder_targets st)") auto
    then show ?case using Cons by (auto simp: comp_def)
  qed simp
  from this [OF distinct_map_filter [OF keyed(1)]]
  show "distinct (map ip_id (import_placeholders st))"
    by (simp add: import_placeholders_def import_rows_def comp_def case_prod_unfold)
  show "ip_id ` set (import_placeholders st) \<subseteq> import_ids st"
    by (auto simp: import_placeholders_def import_row_in import_ids_def)
qed

text \<open>
  C24. Import linking keeps the graph whole and settles: if every edge had both ends stored and no
  dependent row was orphaned, this is so afterwards, although nodes are deleted on a connection
  without foreign keys; and a second pass moves no edge and drops no node.
\<close>

theorem import_linking_settles:
  assumes "import_ok st" "endpoints_stored st" "orphan_free st"
  shows "endpoints_stored (fst (link_all_imports st)) \<and> orphan_free (fst (link_all_imports st)) \<and>
    link_all_imports (fst (link_all_imports st)) =
      (fst (link_all_imports st), \<lparr>linked_edges = 0, dropped_placeholders = 0\<rparr>)"
proof -
  define st' where "st' = fst (link_all_imports st)"
  note run = link_imports_run [OF assms(1) import_placeholders_ids [OF assms(1)] assms(2,3)
      st'_def [unfolded link_all_imports_def link_imports_def]]
  have sub: "set (nodes st') \<subseteq> set (nodes st) \<and> set (placeholder_targets st') \<subseteq> set (placeholder_targets st)"
    unfolding st'_def link_all_imports_def link_imports_def by (rule link_imports_rows)
  have "settled st' p" if "p \<in> set (import_placeholders st')" for p
  proof -
    have "p \<in> set (import_placeholders st)"
    proof -
      obtain n t where nt: "(n, t) \<in> set (import_rows st')" "p = \<lparr>ip_id = n_id n, ip_scope_kind = t_scopeKind t,
          ip_scope = t_scope t, ip_language = n_language n\<rparr>"
        using \<open>p \<in> set (import_placeholders st')\<close> unfolding import_placeholders_def by auto
      have "(n, t) \<in> set (import_rows st)" using nt(1) sub unfolding import_row_in by blast
      then show ?thesis using nt(2) unfolding import_placeholders_def by (auto intro!: image_eqI [of _ _ "(n, t)"])
    qed
    moreover have "ip_id p \<in> import_ids st'" using that run import_placeholders_ids(2) by blast
    ultimately show ?thesis using run unfolding handled_def by blast
  qed
  then have "fold link_import (import_placeholders st') (st', s) = (st', s)" for s
    by (rule fold_settled)
  then have "link_all_imports st' = (st', \<lparr>linked_edges = 0, dropped_placeholders = 0\<rparr>)"
    by (simp add: link_all_imports_def link_imports_def)
  then show ?thesis using run unfolding st'_def by blast
qed

section \<open>A concrete index\<close>

definition importing :: store where
  "importing = empty_store\<lparr>
     nodes := map node_row [new_NodeRecord ''A'' ''File'' ''a.ts'' ''a.ts'' ''a.ts'' ''ts'',
       new_NodeRecord ''B'' ''File'' ''b.ts'' ''b.ts'' ''b.ts'' ''ts'',
       (new_NodeRecord ''p'' ''Module'' ''./b'' ''./b'' ''a.ts'' ''ts'')\<lparr>nr_native_kind := Some ''resolved_module''\<rparr>],
     edges := map edge_row [new_EdgeRecord ''1'' ''A'' ''p'' ''IMPORTS'' ''tree-sitter'' False],
     placeholder_targets := [\<lparr>t_nodeId = ''p'', t_scopeKind = ''file'', t_scope = ''b.ts'', t_keyKind = ''name'',
       t_key = ''*'', t_fromContainer = None, t_fromFile = ''a.ts'', t_keyPath = None\<rparr>]\<rparr>"

theorem import_linking_settles_witness:
  "map e_toId (edges (fst (link_all_imports importing))) = [''B''] \<and>
   map n_id (nodes (fst (link_all_imports importing))) = [''A'', ''B''] \<and>
   endpoints_stored (fst (link_all_imports importing)) \<and> orphan_free (fst (link_all_imports importing))"
proof -
  have ok: "import_ok importing" unfolding import_ok_def keyed_def by code_simp
  have ids: "map n_id (nodes importing) = [''A'', ''B'', ''p'']"
    and "list_all (\<lambda>e. e_fromId e \<in> {''A'', ''B'', ''p''} \<and> e_toId e \<in> {''A'', ''B'', ''p''}) (edges importing)"
    and tables: "declarations importing = []" "map t_nodeId (placeholder_targets importing) = [''p'']"
      "placeholder_also_scopes importing = []" "qualified_suffixes importing = []" "untyped_calls importing = []"
      "vectors importing = []" by code_simp+
  have n: "node_ids importing = {''A'', ''B'', ''p''}"
    unfolding node_ids_def list.set_map [symmetric] ids by simp
  have e: "endpoints_stored importing" unfolding endpoints_stored_def n by fact
  have "t_nodeId ` set (placeholder_targets importing) = {''p''}" unfolding list.set_map [symmetric] tables by simp
  then have o: "orphan_free importing" unfolding orphan_free_def child_ids_def n tables by simp
  have "map e_toId (edges (fst (link_all_imports importing))) = [''B'']"
    "map n_id (nodes (fst (link_all_imports importing))) = [''A'', ''B'']" by code_simp+
  then show ?thesis using import_linking_settles [OF ok e o] by blast
qed

end
