(* ===== verification/Plugin_Graph.thy ===== *)
theory Plugin_Graph
  imports Containers
begin

text \<open>
  The plugin SDK's own data (\<^verbatim>\<open>plugins/sdk/src\<close>): project-relative paths (\<^verbatim>\<open>path.rs\<close>), the id scheme
  (\<^verbatim>\<open>ids.rs\<close>), one file's graph and its builder (\<^verbatim>\<open>graph.rs\<close>), the index of what was extracted
  (\<^verbatim>\<open>index.rs\<close>), the diff between two extractions of a file (\<^verbatim>\<open>diff.rs\<close>) and the delta between two
  container layouts (\<^verbatim>\<open>resolution.rs\<close>).

  The SHA-256 digest is the argument \<open>sha\<close>, Unicode lower-casing the argument \<open>lower\<close>. A
  \<^verbatim>\<open>BTreeMap\<close> is its list of entries in key order.
\<close>

section \<open>Ordered maps\<close>

fun bt_insert :: "'k::linorder \<Rightarrow> 'v \<Rightarrow> ('k \<times> 'v) list \<Rightarrow> ('k \<times> 'v) list" where
  "bt_insert k v [] = [(k, v)]"
| "bt_insert k v ((j, w) # m) =
     (if k < j then (k, v) # (j, w) # m
      else if k = j then (k, v) # m
      else (j, w) # bt_insert k v m)"

definition bt_remove :: "'k \<Rightarrow> ('k \<times> 'v) list \<Rightarrow> ('k \<times> 'v) list" where
  "bt_remove k m = filter (\<lambda>e. fst e \<noteq> k) m"

lemma map_of_bt_insert [simp]: "map_of (bt_insert k v m) = (map_of m)(k \<mapsto> v)"
  by (induction k v m rule: bt_insert.induct) auto

lemma map_of_bt_remove [simp]: "map_of (bt_remove k m) = (map_of m)(k := None)"
  by (induction m) (auto simp: bt_remove_def)

lemma set_bt_insert: "set (bt_insert k v m) \<subseteq> insert (k, v) (set m)"
  by (induction k v m rule: bt_insert.induct) auto

section \<open>Paths\<close>

type_synonym RelPath = string

definition rel_path :: "string \<Rightarrow> RelPath" where
  "rel_path path =
     (let p = map (\<lambda>c. if c = CHR 0x5C then CHR ''/'' else c) path
      in case strip_prefix ''./'' p of Some rest \<Rightarrow> rest | None \<Rightarrow> p)"

definition rsplit_once :: "char \<Rightarrow> string \<Rightarrow> (string \<times> string) option" where
  "rsplit_once c s =
     (let after = takeWhile (\<lambda>x. x \<noteq> c) (rev s); rest = dropWhile (\<lambda>x. x \<noteq> c) (rev s)
      in if rest = [] then None else Some (rev (tl rest), rev after))"

definition extension :: "(string \<Rightarrow> string) \<Rightarrow> RelPath \<Rightarrow> string option" where
  "extension lower p =
     (case rsplit_once (CHR ''.'') (last (split_on (CHR ''/'') p)) of
        None \<Rightarrow> None
      | Some (_, e) \<Rightarrow> if e = [] then None else Some (CHR ''.'' # lower e))"

lemma split_at_first:
  "c \<notin> set b \<Longrightarrow> takeWhile (\<lambda>x. x \<noteq> c) (b @ c # a) = b"
  "c \<notin> set b \<Longrightarrow> dropWhile (\<lambda>x. x \<noteq> c) (b @ c # a) = c # a"
  by (induction b) auto

lemma rsplit_once_Some:
  "rsplit_once c s = Some (a, b) \<longleftrightarrow> s = a @ c # b \<and> c \<notin> set b"
proof
  let ?D = "dropWhile (\<lambda>x. x \<noteq> c) (rev s)"
  assume "rsplit_once c s = Some (a, b)"
  then have ne: "?D \<noteq> []" and a: "rev a = tl ?D" and b: "rev b = takeWhile (\<lambda>x. x \<noteq> c) (rev s)"
    by (auto simp: rsplit_once_def Let_def split: if_splits)
  have "hd ?D = c" using hd_dropWhile [OF ne] by simp
  with ne a have d: "?D = c # rev a" by (cases ?D) auto
  have "rev s = rev b @ c # rev a" using takeWhile_dropWhile_id [of "\<lambda>x. x \<noteq> c" "rev s"] unfolding d b by (rule sym)
  then have "rev (rev s) = rev (rev b @ c # rev a)" by (rule arg_cong)
  then have "s = a @ c # b" by simp
  moreover have "c \<notin> set (rev b)" unfolding b by (auto dest: set_takeWhileD)
  ultimately show "s = a @ c # b \<and> c \<notin> set b" by simp
next
  assume "s = a @ c # b \<and> c \<notin> set b"
  then have t: "takeWhile (\<lambda>x. x \<noteq> c) (rev s) = rev b" "dropWhile (\<lambda>x. x \<noteq> c) (rev s) = c # rev a"
    by (auto simp: split_at_first)
  then show "rsplit_once c s = Some (a, b)" by (simp add: rsplit_once_def)
qed

lemma extension_Nil [simp]: "extension lower [] = None"
  by (simp add: extension_def rsplit_once_def)

section \<open>Ids\<close>

definition FIELD_SEPARATOR :: char where "FIELD_SEPARATOR = CHR 0x00"
definition ID_HEX_LEN :: nat where "ID_HEX_LEN = 32"

definition id_text :: "string \<Rightarrow> string list \<Rightarrow> string" where
  "id_text tag parts = tag @ concat (map (\<lambda>f. FIELD_SEPARATOR # f) parts)"

definition sdk_digest :: "digest \<Rightarrow> string \<Rightarrow> string list \<Rightarrow> string" where
  "sdk_digest sha tag parts = take ID_HEX_LEN (concat (map hex_byte (sha (id_text tag parts))))"

fun node_kind_wire_value :: "NodeKind \<Rightarrow> string" where
  "node_kind_wire_value NK_File = ''File''"
| "node_kind_wire_value NK_Module = ''Module''"
| "node_kind_wire_value NK_Type = ''Type''"
| "node_kind_wire_value NK_Function = ''Function''"
| "node_kind_wire_value NK_Variable = ''Variable''"

fun edge_kind_wire_value :: "EdgeKind \<Rightarrow> string" where
  "edge_kind_wire_value Defines = ''DEFINES''"
| "edge_kind_wire_value Imports = ''IMPORTS''"
| "edge_kind_wire_value Calls = ''CALLS''"
| "edge_kind_wire_value SupertypeOf = ''SUPERTYPE_OF''"
| "edge_kind_wire_value References = ''REFERENCES''"
| "edge_kind_wire_value Exports = ''EXPORTS''"

fun decimal :: "nat \<Rightarrow> string" where
  "decimal n =
     (if n < 10 then [char_of (48 + n)] else decimal (n div 10) @ [char_of (48 + n mod 10)])"

declare decimal.simps [simp del]

definition node_id_fields :: "string \<Rightarrow> NodeKind \<Rightarrow> string \<Rightarrow> string option \<Rightarrow> string list" where
  "node_id_fields path kind qname native =
     [path, node_kind_wire_value kind, qname, unwrap_or_empty native]"

definition node_id :: "digest \<Rightarrow> string \<Rightarrow> NodeKind \<Rightarrow> string \<Rightarrow> string option \<Rightarrow> string" where
  "node_id sha path kind qname native = sdk_digest sha ''node'' (node_id_fields path kind qname native)"

definition edge_id_fields :: "string \<Rightarrow> EdgeKind \<Rightarrow> string \<Rightarrow> nat option \<Rightarrow> string list" where
  "edge_id_fields from_id kind to_id decl =
     [from_id, edge_kind_wire_value kind, to_id] @
     (case decl of None \<Rightarrow> [] | Some ordinal \<Rightarrow> [decimal ordinal])"

definition edge_id :: "digest \<Rightarrow> string \<Rightarrow> EdgeKind \<Rightarrow> string \<Rightarrow> nat option \<Rightarrow> string" where
  "edge_id sha from_id kind to_id decl = sdk_digest sha ''edge'' (edge_id_fields from_id kind to_id decl)"

section \<open>One file's graph\<close>

datatype OpenSiteKind = ReceiverCall | ReceiverField | Reference | Implementation | OverloadCall

record OpenSite =
  os_from_id :: string
  os_position :: Position
  os_name :: string
  os_kind :: OpenSiteKind
  os_edge_kind :: EdgeKind
  os_from_container :: "string option"
  os_replaces :: "string option"

record FileGraph =
  fg_nodes :: "WireNode list"
  fg_edges :: "WireEdge list"
  fg_open_sites :: "OpenSite list"

definition default_FileGraph :: FileGraph where
  "default_FileGraph = \<lparr>fg_nodes = [], fg_edges = [], fg_open_sites = []\<rparr>"

definition graph_is_empty :: "FileGraph \<Rightarrow> bool" where
  "graph_is_empty g \<longleftrightarrow> fg_nodes g = [] \<and> fg_edges g = [] \<and> fg_open_sites g = []"

definition graph_mark_syntax_errors :: "FileGraph \<Rightarrow> FileGraph" where
  "graph_mark_syntax_errors g = g\<lparr>fg_nodes := map (wn_has_syntax_errors_update (\<lambda>_. True)) (fg_nodes g)\<rparr>"

datatype PlaceholderKind = PendingSymbol | Reexport | ResolvedModule | ExternalModule

fun placeholder_native_kind :: "PlaceholderKind \<Rightarrow> string" where
  "placeholder_native_kind PendingSymbol = ''pending_symbol''"
| "placeholder_native_kind Reexport = ''reexport''"
| "placeholder_native_kind ResolvedModule = ''resolved_module''"
| "placeholder_native_kind ExternalModule = ''external_module''"

record NodeSpec =
  ns_kind :: NodeKind
  ns_name :: string
  ns_qualified_name :: string
  ns_range :: Range
  ns_visibility :: Visibility
  ns_native_kind :: "string option"
  ns_signature :: "string option"
  ns_doc_comment :: "string option"
  ns_container :: "string option"
  ns_container_parent :: "string option"
  ns_declarations :: "WireDeclaration list option"
  ns_target :: "PlaceholderTarget option"
  ns_qualified_path :: "QualifiedPath option"
  ns_alias_paths :: "QualifiedPath list"

definition new_NodeSpec :: "NodeKind \<Rightarrow> string \<Rightarrow> string \<Rightarrow> Range \<Rightarrow> NodeSpec" where
  "new_NodeSpec kind name qname rng =
     \<lparr>ns_kind = kind, ns_name = name, ns_qualified_name = qname, ns_range = rng,
      ns_visibility = V_File, ns_native_kind = None, ns_signature = None, ns_doc_comment = None,
      ns_container = None, ns_container_parent = None, ns_declarations = None, ns_target = None,
      ns_qualified_path = None, ns_alias_paths = []\<rparr>"

definition spec_with_path :: "NodeKind \<Rightarrow> string \<Rightarrow> QualifiedPath \<Rightarrow> Range \<Rightarrow> NodeSpec" where
  "spec_with_path kind name path rng =
     (new_NodeSpec kind name (display path) rng)\<lparr>ns_qualified_path := Some path\<rparr>"

definition spec_alias :: "NodeSpec \<Rightarrow> QualifiedPath \<Rightarrow> NodeSpec" where
  "spec_alias s path = s\<lparr>ns_alias_paths := ns_alias_paths s @ [path]\<rparr>"

definition spec_public :: "NodeSpec \<Rightarrow> NodeSpec" where
  "spec_public s = s\<lparr>ns_visibility := V_Public\<rparr>"

definition spec_visible_in :: "NodeSpec \<Rightarrow> string \<Rightarrow> NodeSpec" where
  "spec_visible_in s container = s\<lparr>ns_visibility := V_Container container\<rparr>"

definition spec_visibility :: "NodeSpec \<Rightarrow> Visibility \<Rightarrow> NodeSpec" where
  "spec_visibility s v = s\<lparr>ns_visibility := v\<rparr>"

definition spec_native_kind :: "NodeSpec \<Rightarrow> string \<Rightarrow> NodeSpec" where
  "spec_native_kind s k = s\<lparr>ns_native_kind := Some k\<rparr>"

definition spec_signature :: "NodeSpec \<Rightarrow> string \<Rightarrow> NodeSpec" where
  "spec_signature s t = s\<lparr>ns_signature := Some t\<rparr>"

definition spec_doc_comment :: "NodeSpec \<Rightarrow> string \<Rightarrow> NodeSpec" where
  "spec_doc_comment s t = s\<lparr>ns_doc_comment := Some t\<rparr>"

definition spec_in_container :: "NodeSpec \<Rightarrow> string \<Rightarrow> string option \<Rightarrow> NodeSpec" where
  "spec_in_container s c parent = s\<lparr>ns_container := Some c, ns_container_parent := parent\<rparr>"

definition some_unless_empty :: "'a list \<Rightarrow> 'a list option" where
  "some_unless_empty xs = (if xs = [] then None else Some xs)"

definition spec_declarations :: "NodeSpec \<Rightarrow> WireDeclaration list \<Rightarrow> NodeSpec" where
  "spec_declarations s ds = s\<lparr>ns_declarations := some_unless_empty ds\<rparr>"

record EdgeSpec =
  es_from_id :: string
  es_to_id :: string
  es_kind :: EdgeKind
  es_resolved :: bool
  es_to_declaration :: "nat option"
  es_source :: SourceTier
  es_engine :: string
  es_specifier :: "string option"

record FileGraphBuilder =
  b_language :: string
  b_engine :: string
  b_file :: RelPath
  b_graph :: FileGraph
  b_record_untyped :: bool

definition new_FileGraphBuilder :: "string \<Rightarrow> string \<Rightarrow> RelPath \<Rightarrow> FileGraphBuilder" where
  "new_FileGraphBuilder language engine file =
     \<lparr>b_language = language, b_engine = engine, b_file = file, b_graph = default_FileGraph,
      b_record_untyped = False\<rparr>"

definition record_untyped_receiver_calls :: "FileGraphBuilder \<Rightarrow> FileGraphBuilder" where
  "record_untyped_receiver_calls b = b\<lparr>b_record_untyped := True\<rparr>"

definition spec_node :: "digest \<Rightarrow> FileGraphBuilder \<Rightarrow> NodeSpec \<Rightarrow> WireNode" where
  "spec_node sha b s =
     \<lparr>wn_id = node_id sha (b_file b) (ns_kind s) (ns_qualified_name s) (ns_native_kind s),
      wn_kind = ns_kind s, wn_name = ns_name s, wn_qualified_name = ns_qualified_name s,
      wn_file_path = b_file b, wn_range = ns_range s, wn_signature = ns_signature s,
      wn_visibility = ns_visibility s, wn_doc_comment = ns_doc_comment s,
      wn_language = b_language b, wn_native_kind = ns_native_kind s, wn_has_syntax_errors = False,
      wn_declarations = ns_declarations s, wn_container = ns_container s,
      wn_container_parent = ns_container_parent s, wn_target = ns_target s,
      wn_qualified_path = ns_qualified_path s, wn_alias_paths = ns_alias_paths s,
      wn_untyped_calls = [], wn_generated = False\<rparr>"

definition add_node :: "digest \<Rightarrow> FileGraphBuilder \<Rightarrow> NodeSpec \<Rightarrow> FileGraphBuilder \<times> string" where
  "add_node sha b s =
     (let node = spec_node sha b s
      in (b\<lparr>b_graph := (b_graph b)\<lparr>fg_nodes := fg_nodes (b_graph b) @ [node]\<rparr>\<rparr>, wn_id node))"

definition file_node :: "digest \<Rightarrow> FileGraphBuilder \<Rightarrow> Range \<Rightarrow> FileGraphBuilder \<times> string" where
  "file_node sha b rng =
     add_node sha b (new_NodeSpec NK_File (last (split_on (CHR ''/'') (b_file b))) (b_file b) rng)"

fun update_first :: "('a \<Rightarrow> bool) \<Rightarrow> ('a \<Rightarrow> 'a) \<Rightarrow> 'a list \<Rightarrow> 'a list option" where
  "update_first P f [] = None"
| "update_first P f (x # xs) =
     (if P x then Some (f x # xs) else map_option ((#) x) (update_first P f xs))"

definition set_declarations ::
  "FileGraphBuilder \<Rightarrow> string \<Rightarrow> WireDeclaration list \<Rightarrow> FileGraphBuilder \<times> bool" where
  "set_declarations b i ds =
     (case update_first (\<lambda>n. wn_id n = i) (wn_declarations_update (\<lambda>_. some_unless_empty ds))
             (fg_nodes (b_graph b)) of
        None \<Rightarrow> (b, False)
      | Some ns \<Rightarrow> (b\<lparr>b_graph := (b_graph b)\<lparr>fg_nodes := ns\<rparr>\<rparr>, True))"

definition render_target :: "PlaceholderTarget \<Rightarrow> string" where
  "render_target t =
     (let key = (case pt_key t of TK_Name n \<Rightarrow> n | TK_QualifiedName q \<Rightarrow> CHR ''='' # q)
      in case pt_scope t of TS_File path \<Rightarrow> path @ ''#'' @ key | TS_Container c \<Rightarrow> c @ ''::'' @ key)"

definition add_placeholder ::
  "digest \<Rightarrow> FileGraphBuilder \<Rightarrow> PlaceholderKind \<Rightarrow> string \<Rightarrow> PlaceholderTarget \<Rightarrow> Range
    \<Rightarrow> FileGraphBuilder \<times> string" where
  "add_placeholder sha b kind name target rng =
     add_node sha b
       ((spec_native_kind (new_NodeSpec NK_Module name (render_target target) rng)
          (placeholder_native_kind kind))\<lparr>ns_target := Some target\<rparr>)"

definition add_external_module ::
  "digest \<Rightarrow> FileGraphBuilder \<Rightarrow> string \<Rightarrow> Range \<Rightarrow> FileGraphBuilder \<times> string" where
  "add_external_module sha b specifier rng =
     add_node sha b (spec_native_kind (new_NodeSpec NK_Module specifier specifier rng)
       (placeholder_native_kind ExternalModule))"

definition spec_edge :: "digest \<Rightarrow> EdgeSpec \<Rightarrow> WireEdge" where
  "spec_edge sha s =
     \<lparr>we_id = edge_id sha (es_from_id s) (es_kind s) (es_to_id s) (es_to_declaration s),
      we_from_id = es_from_id s, we_to_id = es_to_id s, we_kind = es_kind s,
      we_source = es_source s, we_engine = es_engine s, we_resolved = es_resolved s,
      we_to_declaration = es_to_declaration s,
      we_specifier = (if es_kind s = Imports then es_specifier s else None)\<rparr>"

definition add_edge :: "digest \<Rightarrow> FileGraphBuilder \<Rightarrow> EdgeSpec \<Rightarrow> FileGraphBuilder \<times> string" where
  "add_edge sha b s =
     (let edge = spec_edge sha s
      in (b\<lparr>b_graph := (b_graph b)\<lparr>fg_edges := fg_edges (b_graph b) @ [edge]\<rparr>\<rparr>, we_id edge))"

definition import_edge ::
  "digest \<Rightarrow> FileGraphBuilder \<Rightarrow> string \<Rightarrow> string \<Rightarrow> string \<Rightarrow> FileGraphBuilder \<times> string" where
  "import_edge sha b from_id to_id specifier =
     add_edge sha b \<lparr>es_from_id = from_id, es_to_id = to_id, es_kind = Imports, es_resolved = False,
       es_to_declaration = None, es_source = Syntactic, es_engine = b_engine b,
       es_specifier = Some specifier\<rparr>"

definition structural_edge ::
  "digest \<Rightarrow> FileGraphBuilder \<Rightarrow> EdgeKind \<Rightarrow> string \<Rightarrow> string \<Rightarrow> bool \<Rightarrow> FileGraphBuilder \<times> string" where
  "structural_edge sha b kind from_id to_id resolved =
     add_edge sha b \<lparr>es_from_id = from_id, es_to_id = to_id, es_kind = kind, es_resolved = resolved,
       es_to_declaration = None, es_source = Syntactic, es_engine = b_engine b, es_specifier = None\<rparr>"

definition resolved_edge ::
  "digest \<Rightarrow> FileGraphBuilder \<Rightarrow> EdgeKind \<Rightarrow> string \<Rightarrow> string \<Rightarrow> FileGraphBuilder \<times> string" where
  "resolved_edge sha b kind from_id to_id = structural_edge sha b kind from_id to_id True"

definition placeholder_edge ::
  "digest \<Rightarrow> FileGraphBuilder \<Rightarrow> EdgeKind \<Rightarrow> string \<Rightarrow> string \<Rightarrow> FileGraphBuilder \<times> string" where
  "placeholder_edge sha b kind from_id to_id = structural_edge sha b kind from_id to_id False"

definition add_defines ::
  "digest \<Rightarrow> FileGraphBuilder \<Rightarrow> string \<Rightarrow> string \<Rightarrow> bool \<Rightarrow> FileGraphBuilder" where
  "add_defines sha b file_id nid exported =
     (let b1 = fst (resolved_edge sha b Defines file_id nid)
      in if exported then fst (resolved_edge sha b1 Exports file_id nid) else b1)"

definition open_site :: "FileGraphBuilder \<Rightarrow> OpenSite \<Rightarrow> FileGraphBuilder" where
  "open_site b site = b\<lparr>b_graph := (b_graph b)\<lparr>fg_open_sites := fg_open_sites (b_graph b) @ [site]\<rparr>\<rparr>"

definition builder_mark_syntax_errors :: "FileGraphBuilder \<Rightarrow> FileGraphBuilder" where
  "builder_mark_syntax_errors b = b\<lparr>b_graph := graph_mark_syntax_errors (b_graph b)\<rparr>"

definition untyped_names :: "OpenSite list \<Rightarrow> string \<Rightarrow> string list" where
  "untyped_names sites i =
     map os_name (filter (\<lambda>s. os_kind s = ReceiverCall \<and> os_replaces s = None \<and> os_from_id s = i) sites)"

text \<open>The map of names per node loses an entry when the first node of that id takes it.\<close>

fun fold_untyped :: "OpenSite list \<Rightarrow> string list \<Rightarrow> WireNode list \<Rightarrow> WireNode list" where
  "fold_untyped sites taken [] = []"
| "fold_untyped sites taken (n # ns) =
     (if wn_kind n \<in> {NK_File, NK_Function} \<and> wn_id n \<notin> set taken \<and> untyped_names sites (wn_id n) \<noteq> []
      then n\<lparr>wn_untyped_calls := btree_set (untyped_names sites (wn_id n))\<rparr> #
           fold_untyped sites (wn_id n # taken) ns
      else n # fold_untyped sites taken ns)"

definition fold_untyped_calls :: "FileGraph \<Rightarrow> FileGraph" where
  "fold_untyped_calls g = g\<lparr>fg_nodes := fold_untyped (fg_open_sites g) [] (fg_nodes g)\<rparr>"

definition finish :: "FileGraphBuilder \<Rightarrow> FileGraph" where
  "finish b = (if b_record_untyped b then fold_untyped_calls (b_graph b) else b_graph b)"

definition placeholder_id :: "digest \<Rightarrow> RelPath \<Rightarrow> PlaceholderKind \<Rightarrow> PlaceholderTarget \<Rightarrow> string" where
  "placeholder_id sha file kind target =
     node_id sha file NK_Module (render_target target) (Some (placeholder_native_kind kind))"

section \<open>The diff between two extractions\<close>

text \<open>A hash map collected from a list keeps the last entry of a key.\<close>

definition last_by :: "('a \<Rightarrow> string) \<Rightarrow> 'a list \<Rightarrow> string \<Rightarrow> 'a option" where
  "last_by key xs i = find (\<lambda>x. key x = i) (rev xs)"

definition changed_against :: "('a \<Rightarrow> string) \<Rightarrow> 'a list \<Rightarrow> 'a list \<Rightarrow> 'a list" where
  "changed_against key other xs = filter (\<lambda>x. last_by key other (key x) \<noteq> Some x) xs"

definition diff_file :: "FileGraph option \<Rightarrow> FileGraph \<Rightarrow> FileChangeDiff" where
  "diff_file previous new =
     (let prev = (case previous of None \<Rightarrow> default_FileGraph | Some g \<Rightarrow> g)
      in \<lparr>fd_upsert_nodes = changed_against wn_id (fg_nodes prev) (fg_nodes new),
          fd_delete_node_ids = map wn_id (changed_against wn_id (fg_nodes new) (fg_nodes prev)),
          fd_upsert_edges = changed_against we_id (fg_edges prev) (fg_edges new),
          fd_delete_edge_ids = map we_id (changed_against we_id (fg_edges new) (fg_edges prev)),
          fd_complete = (previous = None), fd_affected = None\<rparr>)"

definition is_empty_diff :: "FileChangeDiff \<Rightarrow> bool" where
  "is_empty_diff d \<longleftrightarrow>
     fd_upsert_nodes d = [] \<and> fd_delete_node_ids d = [] \<and> fd_upsert_edges d = [] \<and> fd_delete_edge_ids d = []"

definition default_FileChangeDiff :: FileChangeDiff where
  "default_FileChangeDiff =
     \<lparr>fd_upsert_nodes = [], fd_delete_node_ids = [], fd_upsert_edges = [], fd_delete_edge_ids = [],
      fd_complete = False, fd_affected = None\<rparr>"

section \<open>The index of extracted files\<close>

record FileEntry =
  fe_source :: string
  fe_graph :: FileGraph
  fe_reported :: bool

record SdkIndex =
  si_files :: "(RelPath \<times> FileEntry) list"
  si_linked :: "(string \<times> string) list"

definition new_SdkIndex :: SdkIndex where
  "new_SdkIndex = \<lparr>si_files = [], si_linked = []\<rparr>"

definition si_insert :: "SdkIndex \<Rightarrow> RelPath \<Rightarrow> string \<Rightarrow> FileGraph \<Rightarrow> SdkIndex" where
  "si_insert ix path source graph =
     ix\<lparr>si_files := bt_insert path \<lparr>fe_source = source, fe_graph = graph, fe_reported = True\<rparr> (si_files ix)\<rparr>"

definition insert_unreported :: "SdkIndex \<Rightarrow> RelPath \<Rightarrow> string \<Rightarrow> FileGraph \<Rightarrow> SdkIndex" where
  "insert_unreported ix path source graph =
     ix\<lparr>si_files := bt_insert path \<lparr>fe_source = source, fe_graph = graph, fe_reported = False\<rparr> (si_files ix)\<rparr>"

definition si_remove :: "SdkIndex \<Rightarrow> RelPath \<Rightarrow> SdkIndex" where
  "si_remove ix path = ix\<lparr>si_files := bt_remove path (si_files ix)\<rparr>"

definition si_clear :: "SdkIndex \<Rightarrow> SdkIndex" where
  "si_clear ix = ix\<lparr>si_files := [], si_linked := []\<rparr>"

definition set_linked :: "SdkIndex \<Rightarrow> (string \<times> string) list \<Rightarrow> SdkIndex" where
  "set_linked ix pairs = ix\<lparr>si_linked := pairs\<rparr>"

definition linked_target :: "SdkIndex \<Rightarrow> string \<Rightarrow> string option" where
  "linked_target ix e = map_of (rev (si_linked ix)) e"

definition si_entry :: "SdkIndex \<Rightarrow> RelPath \<Rightarrow> FileEntry option" where
  "si_entry ix path = map_of (si_files ix) path"

definition si_graph :: "SdkIndex \<Rightarrow> RelPath \<Rightarrow> FileGraph option" where
  "si_graph ix path = map_option fe_graph (si_entry ix path)"

definition baseline :: "SdkIndex \<Rightarrow> RelPath \<Rightarrow> FileGraph option" where
  "baseline ix path =
     (case si_entry ix path of None \<Rightarrow> None | Some e \<Rightarrow> if fe_reported e then Some (fe_graph e) else None)"

definition si_source :: "SdkIndex \<Rightarrow> RelPath \<Rightarrow> string option" where
  "si_source ix path = map_option fe_source (si_entry ix path)"

definition si_paths :: "SdkIndex \<Rightarrow> RelPath list" where
  "si_paths ix = map fst (si_files ix)"

definition si_open_sites :: "SdkIndex \<Rightarrow> RelPath \<Rightarrow> OpenSite list" where
  "si_open_sites ix path = (case si_graph ix path of None \<Rightarrow> [] | Some g \<Rightarrow> fg_open_sites g)"

definition wire_contains :: "WireNode \<Rightarrow> Position \<Rightarrow> bool" where
  "wire_contains n p \<longleftrightarrow>
     (line (range_start (wn_range n)), col (range_start (wn_range n))) \<le> (line p, col p) \<and>
     (line p, col p) \<le> (line (range_end (wn_range n)), col (range_end (wn_range n)))"

definition wire_span :: "WireNode \<Rightarrow> nat \<times> nat" where
  "wire_span n =
     (let r = wn_range n; lines = line (range_end r) - line (range_start r)
      in (lines, if lines = 0 then col (range_end r) - col (range_start r) else col (range_end r)))"

fun min_by_key :: "('a \<Rightarrow> 'k::linorder) \<Rightarrow> 'a list \<Rightarrow> 'a option" where
  "min_by_key f [] = None"
| "min_by_key f (x # xs) =
     (case min_by_key f xs of None \<Rightarrow> Some x | Some y \<Rightarrow> if f y < f x then Some y else Some x)"

definition wire_rank :: "WireNode \<Rightarrow> (nat \<times> nat) \<times> bool \<times> string" where
  "wire_rank n = (wire_span n, wn_kind n = NK_File, wn_id n)"

definition si_node_at :: "SdkIndex \<Rightarrow> RelPath \<Rightarrow> Position \<Rightarrow> WireNode option" where
  "si_node_at ix path p =
     (case si_entry ix path of
        None \<Rightarrow> None
      | Some e \<Rightarrow> min_by_key wire_rank (filter (\<lambda>n. wire_contains n p) (fg_nodes (fe_graph e))))"

fun find_in_files :: "string \<Rightarrow> (RelPath \<times> FileEntry) list \<Rightarrow> (RelPath \<times> WireNode) option" where
  "find_in_files i [] = None"
| "find_in_files i ((path, e) # fs) =
     (case find (\<lambda>n. wn_id n = i) (fg_nodes (fe_graph e)) of
        Some n \<Rightarrow> Some (path, n) | None \<Rightarrow> find_in_files i fs)"

definition si_node :: "SdkIndex \<Rightarrow> string \<Rightarrow> (RelPath \<times> WireNode) option" where
  "si_node ix i = find_in_files i (si_files ix)"

section \<open>Container deltas\<close>

record ContainerFacts =
  cf_files :: "(string \<times> string) list"
  cf_keys :: "string list"

definition whole_project :: PathScope where
  "whole_project = \<lparr>under = [], not_under = []\<rparr>"

definition container_delta :: "ContainerFacts \<Rightarrow> ContainerFacts \<Rightarrow> string \<Rightarrow> ResolutionDelta" where
  "container_delta old new separator =
     (let paths = btree_set (map fst (cf_files old) @ map fst (cf_files new));
          files = map (\<lambda>p. \<lparr>under = p, not_under = []\<rparr>)
            (filter (\<lambda>p. map_of (cf_files old) p \<noteq> map_of (cf_files new) p) paths);
          moved = btree_set (filter (\<lambda>k. k \<notin> set (cf_keys new)) (cf_keys old) @
                             filter (\<lambda>k. k \<notin> set (cf_keys old)) (cf_keys new));
          added = filter (\<lambda>k. k \<notin> set (cf_keys old)) (cf_keys new);
          selectors = map (\<lambda>k. \<lparr>importers = whole_project, sel_by = Target TSK_Container (Exact k)\<rparr>) moved @
                    map (\<lambda>k. \<lparr>importers = whole_project, sel_by = Specifier (Under k separator)\<rparr>) added
      in if files = [] \<and> selectors = [] then Unchanged else Affected files selectors)"

section \<open>What a diff carries\<close>

lemma last_by_keyed:
  "keyed key xs \<Longrightarrow> last_by key xs i = Some x \<longleftrightarrow> x \<in> set xs \<and> key x = i"
proof -
  assume "keyed key xs"
  then have "keyed key (rev xs)" by (simp add: keyed_def rev_map [symmetric])
  from select_by_Some [OF this, of i x] show ?thesis by (simp add: last_by_def select_by_def)
qed

lemma set_changed_against:
  "keyed key other \<Longrightarrow> set (changed_against key other xs) = set xs - set other"
  by (auto simp: changed_against_def last_by_keyed)

lemma last_by_Nil [simp]: "last_by key [] i = None"
  by (simp add: last_by_def)

lemma changed_against_Nil [simp]: "changed_against key [] xs = xs"
  by (simp add: changed_against_def)

text \<open>
  Every graph the builder hands out holds nodes of its own file and language only, and its ids are
  those of the id scheme.
\<close>

definition own_nodes :: "RelPath \<Rightarrow> WireNode list \<Rightarrow> bool" where
  "own_nodes path ns \<longleftrightarrow> (\<forall>n\<in>set ns. wn_file_path n = path)"

definition built_for :: "digest \<Rightarrow> FileGraphBuilder \<Rightarrow> bool" where
  "built_for sha b \<longleftrightarrow>
     (\<forall>n\<in>set (fg_nodes (b_graph b)). wn_file_path n = b_file b \<and> wn_language n = b_language b \<and>
        wn_id n = node_id sha (b_file b) (wn_kind n) (wn_qualified_name n) (wn_native_kind n)) \<and>
     (\<forall>e\<in>set (fg_edges (b_graph b)).
        we_id e = edge_id sha (we_from_id e) (we_kind e) (we_to_id e) (we_to_declaration e))"

lemma built_for_new: "built_for sha (new_FileGraphBuilder l e f)"
  by (simp add: built_for_def new_FileGraphBuilder_def default_FileGraph_def)

lemma built_for_add_node: "built_for sha b \<Longrightarrow> built_for sha (fst (add_node sha b s))"
  by (auto simp: built_for_def add_node_def spec_node_def Let_def)

lemma built_for_add_edge: "built_for sha b \<Longrightarrow> built_for sha (fst (add_edge sha b s))"
  by (auto simp: built_for_def add_edge_def spec_edge_def Let_def)

lemma update_first_set:
  "update_first P f xs = Some ys \<Longrightarrow> y \<in> set ys \<Longrightarrow> y \<in> set xs \<or> (\<exists>x\<in>set xs. y = f x)"
  by (induction xs arbitrary: ys) (auto split: if_splits)

lemma built_for_operations:
  assumes "built_for sha b"
  shows "built_for sha (fst (file_node sha b r))" "built_for sha (fst (add_placeholder sha b k nm t r))"
    "built_for sha (fst (add_external_module sha b sp r))" "built_for sha (fst (import_edge sha b x y sp))"
    "built_for sha (fst (resolved_edge sha b ek x y))" "built_for sha (fst (placeholder_edge sha b ek x y))"
    "built_for sha (add_defines sha b x y ex)" "built_for sha (open_site b site)"
    "built_for sha (builder_mark_syntax_errors b)" "built_for sha (fst (set_declarations b i ds))"
    "built_for sha (record_untyped_receiver_calls b)"
proof -
  show "built_for sha (fst (set_declarations b i ds))"
    using assms by (auto simp: built_for_def set_declarations_def split: option.splits dest!: update_first_set)
  show "built_for sha (builder_mark_syntax_errors b)"
    using assms by (auto simp: built_for_def builder_mark_syntax_errors_def graph_mark_syntax_errors_def)
qed (use assms in \<open>auto simp: file_node_def add_placeholder_def add_external_module_def import_edge_def
      resolved_edge_def placeholder_edge_def structural_edge_def add_defines_def Let_def
      intro!: built_for_add_node built_for_add_edge\<close>,
    auto simp: built_for_def open_site_def record_untyped_receiver_calls_def)

lemma fold_untyped_nodes:
  "n \<in> set (fold_untyped sites taken ns) \<Longrightarrow> \<exists>m\<in>set ns. n = m\<lparr>wn_untyped_calls := wn_untyped_calls n\<rparr>"
  by (induction sites taken ns rule: fold_untyped.induct) (auto split: if_splits)

lemma finish_own_nodes: "built_for sha b \<Longrightarrow> own_nodes (b_file b) (fg_nodes (finish b))"
  by (auto simp: built_for_def own_nodes_def finish_def fold_untyped_calls_def dest!: fold_untyped_nodes)
    (metis WireNode.simps(5) WireNode.surjective WireNode.update_convs(19))

end
