(* ===== verification/Plugin_Answers.thy ===== *)
theory Plugin_Answers
  imports Plugin_Graph File_Rows
begin

text \<open>
  \<^verbatim>\<open>core/src/watcher/apply.rs\<close>: how the answer of a plugin becomes rows. A wire record is translated to
  a storage record; an invalid qualified path, alias or key path is dropped with one warning per
  file while the node is kept; the scope of a \<^verbatim>\<open>fileChanged\<close> answer decides which other rows of the
  file go. Whether the file is missing on disk is an argument (\<open>missing\<close>).
\<close>

datatype warned_part = W_QualifiedPath | W_AliasPath | W_KeyPath

record PathWarnings =
  pw_warned :: "(string \<times> string) list"
  pw_emitted :: "(warned_part \<times> string \<times> string \<times> string \<times> PathError) list"

definition default_PathWarnings :: PathWarnings where
  "default_PathWarnings = \<lparr>pw_warned = [], pw_emitted = []\<rparr>"

definition warn :: "WireNode \<Rightarrow> warned_part \<Rightarrow> PathError \<Rightarrow> PathWarnings \<Rightarrow> PathWarnings" where
  "warn n what error w =
     (if (wn_language n, wn_file_path n) \<in> set (pw_warned w) then w
      else w\<lparr>pw_warned := (wn_language n, wn_file_path n) # pw_warned w,
             pw_emitted := pw_emitted w @
               [(what, wn_language n, wn_qualified_name n, wn_file_path n, error)]\<rparr>)"

fun checked_aliases ::
  "WireNode \<Rightarrow> QualifiedPath list \<Rightarrow> PathWarnings \<Rightarrow> QualifiedPath list \<times> PathWarnings" where
  "checked_aliases n [] w = ([], w)"
| "checked_aliases n (a # as) w =
     (case check_alias_path n a of
        Inr _ \<Rightarrow> (let (rest, w') = checked_aliases n as w in (a # rest, w'))
      | Inl error \<Rightarrow> checked_aliases n as (warn n W_AliasPath error w))"

definition checked_paths ::
  "WireNode \<Rightarrow> PathWarnings \<Rightarrow> (QualifiedPath option \<times> QualifiedPath list) \<times> PathWarnings" where
  "checked_paths n w =
     (case check_qualified_path n of
        Inl error \<Rightarrow> ((None, []), warn n W_QualifiedPath error w)
      | Inr _ \<Rightarrow> (let (aliases, w') = checked_aliases n (wn_alias_paths n) w
                  in ((wn_qualified_path n, aliases), w')))"

definition to_storage_visibility :: "Visibility \<Rightarrow> string \<times> string option" where
  "to_storage_visibility v =
     (case v of V_Public \<Rightarrow> (''public'', None) | V_File \<Rightarrow> (''file'', None)
      | V_Container key \<Rightarrow> (''container'', Some key))"

definition to_placeholder_target_record ::
  "PlaceholderTarget \<Rightarrow> QualifiedPath option \<Rightarrow> PlaceholderTargetRecord" where
  "to_placeholder_target_record t key_path =
     (let (scope_kind, scope) = (case pt_scope t of TS_File p \<Rightarrow> (''file'', p) | TS_Container k \<Rightarrow> (''container'', k));
          (key_kind, key) = (case pt_key t of TK_Name n \<Rightarrow> (''name'', n) | TK_QualifiedName q \<Rightarrow> (''qualifiedName'', q))
      in \<lparr>tr_scope_kind = scope_kind, tr_scope = scope, tr_key_kind = key_kind, tr_key = key,
          tr_from_container = pt_from_container t, tr_key_path = key_path,
          tr_also_scopes = (case pt_scope t of TS_File _ \<Rightarrow> pt_also_scopes t | TS_Container _ \<Rightarrow> [])\<rparr>)"

definition to_declaration_record :: "WireDeclaration \<Rightarrow> DeclarationRecord" where
  "to_declaration_record d =
     \<lparr>dr_ordinal = int (wd_ordinal d), dr_start_line = int (wd_start_line d),
      dr_start_col = int (wd_start_col d), dr_end_line = int (wd_end_line d),
      dr_end_col = int (wd_end_col d), dr_signature = wd_signature d, dr_has_body = wd_has_body d\<rparr>"

definition checked_key_path ::
  "WireNode \<Rightarrow> PathWarnings \<Rightarrow> QualifiedPath option \<times> PathWarnings" where
  "checked_key_path n w =
     (case wn_target n of
        None \<Rightarrow> (None, w)
      | Some t \<Rightarrow> (case check_key_path t of
                     Inr _ \<Rightarrow> (pt_key_path t, w)
                   | Inl error \<Rightarrow> (None, warn n W_KeyPath error w)))"

definition to_node_record :: "WireNode \<Rightarrow> PathWarnings \<Rightarrow> NodeRecord \<times> PathWarnings" where
  "to_node_record n w =
     (let (visibility, visibility_container) = to_storage_visibility (wn_visibility n);
          ((qualified_path, alias_paths), w1) = checked_paths n w;
          (key_path, w2) = checked_key_path n w1
      in (\<lparr>nr_id = wn_id n, nr_kind = node_kind_wire_value (wn_kind n), nr_name = wn_name n,
           nr_qualified_name = wn_qualified_name n, nr_file_path = wn_file_path n,
           nr_start_line = int (line (range_start (wn_range n))),
           nr_start_col = int (col (range_start (wn_range n))),
           nr_end_line = int (line (range_end (wn_range n))),
           nr_end_col = int (col (range_end (wn_range n))),
           nr_signature = wn_signature n, nr_exported = (wn_visibility n = V_Public),
           nr_visibility = visibility, nr_visibility_container = visibility_container,
           nr_container = wn_container n, nr_container_parent = wn_container_parent n,
           nr_target = map_option (\<lambda>t. to_placeholder_target_record t key_path) (wn_target n),
           nr_doc_comment = wn_doc_comment n, nr_language = wn_language n,
           nr_native_kind = wn_native_kind n, nr_has_syntax_errors = wn_has_syntax_errors n,
           nr_generated = wn_generated n,
           nr_declarations = map to_declaration_record
             (case wn_declarations n of None \<Rightarrow> [] | Some ds \<Rightarrow> ds),
           nr_qualified_path = qualified_path, nr_alias_paths = alias_paths,
           nr_untyped_calls = wn_untyped_calls n\<rparr>, w2))"

definition edge_source_tier_wire_value :: "SourceTier \<Rightarrow> string" where
  "edge_source_tier_wire_value s = (case s of Syntactic \<Rightarrow> ''syntactic'' | Semantic \<Rightarrow> ''semantic'')"

definition to_edge_record :: "WireEdge \<Rightarrow> EdgeRecord" where
  "to_edge_record e =
     (new_EdgeRecord (we_id e) (we_from_id e) (we_to_id e) (edge_kind_wire_value (we_kind e))
        (edge_source_tier_wire_value (we_source e)) (we_resolved e))
     \<lparr>ed_engine := we_engine e, ed_to_declaration := map_option int (we_to_declaration e),
      ed_specifier := we_specifier e\<rparr>"

fun to_node_records :: "WireNode list \<Rightarrow> PathWarnings \<Rightarrow> NodeRecord list \<times> PathWarnings" where
  "to_node_records [] w = ([], w)"
| "to_node_records (n # ns) w =
     (let (r, w1) = to_node_record n w; (rs, w2) = to_node_records ns w1 in (r # rs, w2))"

definition to_storage_diff :: "FileChangeDiff \<Rightarrow> PathWarnings \<Rightarrow> Diff \<times> PathWarnings" where
  "to_storage_diff d w =
     (let (ns, w') = to_node_records (fd_upsert_nodes d) w
      in (\<lparr>upsert_nodes = ns, delete_node_ids = fd_delete_node_ids d,
           upsert_edges = map to_edge_record (fd_upsert_edges d),
           delete_edge_ids = fd_delete_edge_ids d\<rparr>, w'))"

definition file_scope :: "bool \<Rightarrow> Diff \<Rightarrow> bool \<Rightarrow> FileScope" where
  "file_scope missing d complete =
     (if upsert_nodes d = [] \<and> upsert_edges d = [] \<and> missing then Gone
      else if complete then Complete else Partial)"

section \<open>The translation\<close>

text \<open>The record of a node does not depend on the warnings already given.\<close>

definition node_record :: "WireNode \<Rightarrow> NodeRecord" where
  "node_record n = fst (to_node_record n default_PathWarnings)"

lemma checked_aliases_fst:
  "fst (checked_aliases n as w) = filter (\<lambda>a. check_alias_path n a = Inr ()) as"
proof (induction as arbitrary: w)
  case (Cons a as)
  show ?case
  proof (cases "check_alias_path n a")
    case (Inl e)
    then show ?thesis using Cons.IH by simp
  next
    case (Inr u)
    then show ?thesis using Cons.IH [of w] by (simp add: case_prod_beta)
  qed
qed simp

lemma to_node_record_fst: "fst (to_node_record n w) = fst (to_node_record n w')"
proof -
  have p: "fst (checked_paths n w) = fst (checked_paths n w')" for w w'
  proof (cases "check_qualified_path n")
    case (Inr u)
    then show ?thesis
      using checked_aliases_fst [of n "wn_alias_paths n" w] checked_aliases_fst [of n "wn_alias_paths n" w']
      by (simp add: checked_paths_def case_prod_beta)
  qed (simp add: checked_paths_def)
  have k: "fst (checked_key_path n w) = fst (checked_key_path n w')" for w w'
    by (simp add: checked_key_path_def split: option.splits sum.splits)
  obtain q1 a1 v1 where 1: "checked_paths n w = ((q1, a1), v1)" by (metis prod.exhaust)
  obtain q2 a2 v2 where 2: "checked_paths n w' = ((q2, a2), v2)" by (metis prod.exhaust)
  obtain k1 u1 where 3: "checked_key_path n v1 = (k1, u1)" by fastforce
  obtain k2 u2 where 4: "checked_key_path n v2 = (k2, u2)" by fastforce
  from p [of w w'] k [of v1 v2] show ?thesis
    by (simp add: to_node_record_def 1 2 3 4 split: prod.splits)
qed

lemma to_node_records_fst: "fst (to_node_records ns w) = map node_record ns"
proof (induction ns arbitrary: w)
  case (Cons n ns)
  have "fst (to_node_record n w) = node_record n" unfolding node_record_def by (rule to_node_record_fst)
  with Cons.IH [of "snd (to_node_record n w)"] show ?case by (simp add: case_prod_beta)
qed simp

lemma to_storage_diff_parts [simp]:
  "upsert_nodes (fst (to_storage_diff d w)) = map node_record (fd_upsert_nodes d)"
  "delete_node_ids (fst (to_storage_diff d w)) = fd_delete_node_ids d"
  "upsert_edges (fst (to_storage_diff d w)) = map to_edge_record (fd_upsert_edges d)"
  "delete_edge_ids (fst (to_storage_diff d w)) = fd_delete_edge_ids d"
  using to_node_records_fst [of "fd_upsert_nodes d" w] by (simp_all add: to_storage_diff_def case_prod_beta)

lemma node_record_columns [simp]:
  "nr_id (node_record n) = wn_id n" "nr_file_path (node_record n) = wn_file_path n"
  "nr_visibility (node_record n) = fst (to_storage_visibility (wn_visibility n))"
  "nr_declarations (node_record n) =
     map to_declaration_record (case wn_declarations n of None \<Rightarrow> [] | Some ds \<Rightarrow> ds)"
  by (simp_all add: node_record_def to_node_record_def split: prod.splits)

lemma node_record_target:
  "\<exists>k. nr_target (node_record n) = map_option (\<lambda>t. to_placeholder_target_record t k) (wn_target n)"
  by (auto simp: node_record_def to_node_record_def split: prod.splits)

lemma to_edge_record_columns [simp]:
  "ed_id (to_edge_record e) = we_id e" "ed_from_id (to_edge_record e) = we_from_id e"
  "ed_to_id (to_edge_record e) = we_to_id e"
  "ed_source (to_edge_record e) = edge_source_tier_wire_value (we_source e)"
  by (simp_all add: to_edge_record_def new_EdgeRecord_def normalize_legacy_source_def
      edge_source_tier_wire_value_def split: SourceTier.splits)

text \<open>What a plugin sends always satisfies the closed column sets, so only a repeated ordinal can fail.\<close>

definition ordinals_distinct :: "WireNode \<Rightarrow> bool" where
  "ordinals_distinct n \<longleftrightarrow> distinct (map wd_ordinal (case wn_declarations n of None \<Rightarrow> [] | Some ds \<Rightarrow> ds))"

lemma target_record_kinds:
  "tr_scope_kind (to_placeholder_target_record t k) \<in> {''file'', ''container''}"
  "tr_key_kind (to_placeholder_target_record t k) \<in> {''name'', ''qualifiedName''}"
  by (cases "pt_scope t"; cases "pt_key t"; simp add: to_placeholder_target_record_def)+

lemma node_record_valid: "node_valid (node_record n) \<longleftrightarrow> ordinals_distinct n"
proof -
  obtain k where k: "nr_target (node_record n) = map_option (\<lambda>t. to_placeholder_target_record t k) (wn_target n)"
    using node_record_target by blast
  have "distinct (map (dr_ordinal \<circ> to_declaration_record) ds) \<longleftrightarrow> distinct (map wd_ordinal ds)" for ds
  proof -
    have "map (dr_ordinal \<circ> to_declaration_record) ds = map int (map wd_ordinal ds)"
      by (simp add: to_declaration_record_def)
    then show ?thesis by (metis distinct_map inj_of_nat inj_on_subset subset_UNIV)
  qed
  moreover have "fst (to_storage_visibility (wn_visibility n)) \<in> {''public'', ''file'', ''container''}"
    by (cases "wn_visibility n") (simp_all add: to_storage_visibility_def)
  moreover have "\<forall>t. nr_target (node_record n) = Some t \<longrightarrow>
      tr_scope_kind t \<in> {''file'', ''container''} \<and> tr_key_kind t \<in> {''name'', ''qualifiedName''}"
    using target_record_kinds [where k = k] by (auto simp: k)
  ultimately show ?thesis by (simp add: node_valid_def ordinals_distinct_def)
qed

end
