(* ===== verification/Generated_Header.thy ===== *)
theory Generated_Header
  imports Mesh_Prelude
begin

text \<open>
  \<^verbatim>\<open>plugins/sdk/src/generated.rs\<close>: whether a source file is machine-written, read from the comments at
  its start. At most \<open>MAX_HEADER_LINES\<close> lines and \<open>MAX_HEADER_BYTES\<close> bytes are looked at.
  The three words searched for have no border, so their non-overlapping matches are all of them.
\<close>

definition MAX_HEADER_LINES :: nat where "MAX_HEADER_LINES = 64"
definition MAX_HEADER_BYTES :: nat where "MAX_HEADER_BYTES = 8 * 1024"

section \<open>String operations\<close>

definition is_char_boundary :: "string \<Rightarrow> nat \<Rightarrow> bool" where
  "is_char_boundary s n \<longleftrightarrow> n = 0 \<or> n = length s \<or>
     (n < length s \<and> \<not> (128 \<le> (of_char (s ! n) :: nat) \<and> (of_char (s ! n) :: nat) < 192))"

fun floor_boundary :: "string \<Rightarrow> nat \<Rightarrow> nat" where
  "floor_boundary s 0 = 0"
| "floor_boundary s (Suc n) = (if is_char_boundary s (Suc n) then Suc n else floor_boundary s n)"

definition trim_cr :: "string \<Rightarrow> string" where
  "trim_cr l = (if l \<noteq> [] \<and> last l = CHR 0x0D then butlast l else l)"

definition lines_of :: "string \<Rightarrow> string list" where
  "lines_of s =
     (let parts = split_on (CHR 0x0A) s
      in map trim_cr (butlast parts) @ (if last parts = [] then [] else [last parts]))"

definition ascii_whitespace :: "char \<Rightarrow> bool" where
  "ascii_whitespace c \<longleftrightarrow> c \<in> {CHR '' '', CHR 0x09, CHR 0x0A, CHR 0x0C, CHR 0x0D}"

definition trim_ascii_start :: "string \<Rightarrow> string" where
  "trim_ascii_start s = dropWhile ascii_whitespace s"

definition trim_ascii :: "string \<Rightarrow> string" where
  "trim_ascii s = trim_end_matches ascii_whitespace (trim_ascii_start s)"

definition match_indices :: "string \<Rightarrow> string \<Rightarrow> nat list" where
  "match_indices s pat = filter (\<lambda>i. starts_with (drop i s) pat) [0..<Suc (length s)]"

definition rfind_sub :: "string \<Rightarrow> string \<Rightarrow> nat option" where
  "rfind_sub s pat = (case match_indices s pat of [] \<Rightarrow> None | is \<Rightarrow> Some (last is))"

definition contains_sub :: "string \<Rightarrow> string \<Rightarrow> bool" where
  "contains_sub s pat = (match_indices s pat \<noteq> [])"

definition to_ascii_lowercase :: "string \<Rightarrow> string" where
  "to_ascii_lowercase s =
     map (\<lambda>c. if 65 \<le> (of_char c :: nat) \<and> (of_char c :: nat) \<le> 90 then char_of (of_char c + 32 :: nat) else c) s"

definition is_ascii_digit :: "char \<Rightarrow> bool" where
  "is_ascii_digit c \<longleftrightarrow> 48 \<le> (of_char c :: nat) \<and> (of_char c :: nat) \<le> 57"

definition is_ascii_alphabetic :: "char \<Rightarrow> bool" where
  "is_ascii_alphabetic c \<longleftrightarrow>
     65 \<le> (of_char c :: nat) \<and> (of_char c :: nat) \<le> 90 \<or> 97 \<le> (of_char c :: nat) \<and> (of_char c :: nat) \<le> 122"

definition is_ascii_alphanumeric :: "char \<Rightarrow> bool" where
  "is_ascii_alphanumeric c \<longleftrightarrow> is_ascii_digit c \<or> is_ascii_alphabetic c"

function split_ascii_whitespace :: "string \<Rightarrow> string list" where
  "split_ascii_whitespace [] = []"
| "split_ascii_whitespace (c # cs) =
     (if ascii_whitespace c then split_ascii_whitespace cs
      else (c # takeWhile (\<lambda>x. \<not> ascii_whitespace x) cs) #
           split_ascii_whitespace (dropWhile (\<lambda>x. \<not> ascii_whitespace x) cs))"
  by pat_completeness auto
termination
  by (relation "measure length") (auto simp: le_imp_less_Suc length_dropWhile_le)

section \<open>The header\<close>

definition bracket_depth :: "nat \<Rightarrow> string \<Rightarrow> nat" where
  "bracket_depth depth l =
     fold (\<lambda>b d. if b = CHR ''['' then d + 1 else if b = CHR '']'' then d - 1 else d) l depth"

definition opens_block :: "string \<Rightarrow> bool \<Rightarrow> bool" where
  "opens_block l open_at_start =
     (case (rfind_sub l ''/*'', rfind_sub l ''*/'') of
        (Some opening, Some closing) \<Rightarrow> opening > closing
      | (Some _, None) \<Rightarrow> True
      | (None, Some _) \<Rightarrow> False
      | (None, None) \<Rightarrow> open_at_start)"

fun header_loop :: "string list \<Rightarrow> bool \<Rightarrow> nat \<Rightarrow> string list" where
  "header_loop [] in_block depth = []"
| "header_loop (l # ls) in_block depth =
     (let trimmed = trim_ascii l
      in if in_block then trimmed # header_loop ls (opens_block trimmed True) depth
         else if depth > 0 then header_loop ls in_block (bracket_depth depth trimmed)
         else if starts_with trimmed ''#!['' then header_loop ls in_block (bracket_depth 0 trimmed)
         else if trimmed = [] \<or> starts_with trimmed ''#!'' then header_loop ls in_block depth
         else if starts_with trimmed ''//'' then trimmed # header_loop ls in_block depth
         else if starts_with trimmed ''/*'' then trimmed # header_loop ls (opens_block trimmed False) depth
         else if starts_with trimmed ''#'' \<and> \<not> starts_with trimmed ''#['' then trimmed # header_loop ls in_block depth
         else [])"

definition byte_order_mark :: string where
  "byte_order_mark = [CHR 0xEF, CHR 0xBB, CHR 0xBF]"

definition header_window :: "string \<Rightarrow> string" where
  "header_window source =
     (let w = take (floor_boundary source (min (length source) MAX_HEADER_BYTES)) source
      in case strip_prefix byte_order_mark w of Some rest \<Rightarrow> rest | None \<Rightarrow> w)"

definition header_lines :: "string \<Rightarrow> string list" where
  "header_lines source = header_loop (take MAX_HEADER_LINES (lines_of (header_window source))) False 0"

definition is_go_directive :: "string \<Rightarrow> bool" where
  "is_go_directive l = starts_with l ''//go:''"

definition is_word_byte :: "char \<Rightarrow> bool" where
  "is_word_byte b \<longleftrightarrow> is_ascii_alphanumeric b \<or> b = CHR ''_''"

definition is_quote_at :: "string \<Rightarrow> nat \<Rightarrow> bool" where
  "is_quote_at s at =
     (if s ! at = CHR 0x60 \<or> s ! at = CHR 0x22 then True
      else if s ! at = CHR 0x27 then
        \<not> (at > 0 \<and> is_ascii_alphanumeric (s ! (at - 1)) \<and>
           at + 1 < length s \<and> is_ascii_alphanumeric (s ! (at + 1)))
      else False)"

definition closing_quote :: "string \<Rightarrow> nat \<Rightarrow> nat option" where
  "closing_quote s at = find (\<lambda>j. s ! j = s ! at \<and> is_quote_at s j) [Suc at..<length s]"

function unquoted_loop :: "string \<Rightarrow> nat \<Rightarrow> nat \<Rightarrow> string \<Rightarrow> string" where
  "unquoted_loop s copied at out =
     (if at < length s then
        (case (if is_quote_at s at then closing_quote s at else None) of
           Some close \<Rightarrow> unquoted_loop s (close + 1) (close + 1) (out @ take (at - copied) (drop copied s) @ '' '')
         | None \<Rightarrow> unquoted_loop s copied (at + 1) out)
      else out @ drop copied s)"
  by pat_completeness auto
termination
  by (relation "measure (\<lambda>(s, copied, at, out). length s - at)")
    (auto simp: closing_quote_def dest!: find_in split: if_splits)

declare unquoted_loop.simps [simp del]

definition unquoted :: "string \<Rightarrow> string" where
  "unquoted l = unquoted_loop l 0 0 []"

definition normalized :: "string \<Rightarrow> string" where
  "normalized l = to_ascii_lowercase (join_with '' '' (split_ascii_whitespace l))"

definition has_do_not_edit :: "string \<Rightarrow> bool" where
  "has_do_not_edit l =
     (contains_sub (normalized l) ''do not edit'' \<or> contains_sub (normalized l) ''do not modify'')"

definition last_before :: "(char \<Rightarrow> bool) \<Rightarrow> string \<Rightarrow> nat \<Rightarrow> bool" where
  "last_before P s at \<longleftrightarrow> take at s = [] \<or> P (last (take at s))"

definition has_generated_word :: "string \<Rightarrow> bool" where
  "has_generated_word l =
     (let n = normalized l
      in list_ex (\<lambda>word. list_ex (last_before (\<lambda>b. \<not> is_word_byte b) n) (match_indices n word))
           [''generated'', ''autogenerated''])"

definition token_at :: "string \<Rightarrow> nat \<Rightarrow> bool" where
  "token_at l at =
     (let after = drop (at + length ''@generated'') l;
          preceded = last_before (\<lambda>b. ascii_whitespace b \<or> b \<in> {CHR ''*'', CHR ''/'', CHR ''#''}) l at;
          rest = trim_ascii_start after;
          ends = (rest = [] \<or> rest = ''*/'');
          spaced = (after \<noteq> [] \<and> ascii_whitespace (hd after));
          by_word = (case strip_prefix ''by'' rest of
                       None \<Rightarrow> False | Some tail \<Rightarrow> tail = [] \<or> \<not> is_word_byte (hd tail))
      in preceded \<and> (ends \<or> (spaced \<and> (by_word \<or> starts_with rest ''SignedSource''))))"

definition has_generated_token :: "string \<Rightarrow> bool" where
  "has_generated_token l = list_ex (token_at l) (match_indices l ''@generated'')"

definition is_generated :: "string \<Rightarrow> bool" where
  "is_generated source =
     (let hdr = map (\<lambda>l. (is_go_directive l, unquoted l)) (header_lines source);
          notice = list_ex (\<lambda>(directive, l). \<not> directive \<and> has_do_not_edit l) hdr;
          word = list_ex (\<lambda>(directive, l). \<not> directive \<and> has_generated_word l) hdr
      in (notice \<and> word) \<or> list_ex (\<lambda>(_, l). has_generated_token l) hdr)"

end
