(* ===== verification/Plugin_Session.thy ===== *)
theory Plugin_Session
  imports Plugin_Answers Generated_Header
begin

text \<open>
  \<^verbatim>\<open>plugins/sdk/src/run.rs\<close> and \<^verbatim>\<open>plugins/sdk/src/semantic.rs\<close>: the control-plane session of a plugin
  process. A language supplies an extractor and, optionally, a semantic engine; both are the
  fields of records here, as they are trait implementations in the code. A caught panic is \<open>None\<close>
  (a hook that panics may leave the project half updated: its field returns the project it
  leaves). What the disk answers while a message is handled is the record \<open>Disk\<close>. JSON decoding of
  a message is serde's; a message arrives as a \<open>Request\<close>.
\<close>

section \<open>The language's side\<close>

record 'p Extractor =
  ex_extract :: "'p \<Rightarrow> RelPath \<Rightarrow> string \<Rightarrow> FileGraph option"
  ex_presence :: "'p \<Rightarrow> RelPath \<Rightarrow> bool \<Rightarrow> 'p"
  ex_source_changed :: "'p \<Rightarrow> RelPath \<Rightarrow> string option \<Rightarrow> 'p \<times> ResolutionDelta option option"
  ex_facts :: "'p \<Rightarrow> string option option"
  ex_watch_paths :: "'p \<Rightarrow> string list option"
  ex_delta :: "string \<Rightarrow> 'p \<Rightarrow> ResolutionDelta option"

record 'p Disk =
  dk_load :: "string + 'p"
  dk_read :: "RelPath \<Rightarrow> string option"
  dk_real :: "RelPath \<Rightarrow> RelPath option"
  dk_walk :: "RelPath list"

record SemanticAnswer =
  sa_diff :: FileChangeDiff
  sa_complete :: bool
  sa_reason :: "string option"
  sa_unfinished :: "RelPath list option"

definition answer_complete :: "FileChangeDiff \<Rightarrow> SemanticAnswer" where
  "answer_complete d = \<lparr>sa_diff = d, sa_complete = True, sa_reason = None, sa_unfinished = None\<rparr>"

definition incomplete_because :: "FileChangeDiff \<Rightarrow> string \<Rightarrow> SemanticAnswer" where
  "incomplete_because d reason =
     \<lparr>sa_diff = d, sa_complete = False, sa_reason = Some reason, sa_unfinished = None\<rparr>"

record 'e EngineOps =
  en_answer :: "'e \<Rightarrow> RelPath list \<Rightarrow> SdkIndex \<Rightarrow> 'e \<times> (string + SemanticAnswer)"
  en_workspace_changed :: "'e \<Rightarrow> 'e"
  en_prepare :: "'e \<Rightarrow> 'e"
  en_set_deadline :: "'e \<Rightarrow> nat option \<Rightarrow> 'e"

record ('p, 'e) Plugin =
  pl_extractor :: "'p Extractor"
  pl_engine :: "'e EngineOps"
  pl_extensions :: "string list"
  pl_lower :: "string \<Rightarrow> string"

section \<open>The lazily started engine\<close>

text \<open>The factory runs at most once: it holds the result the start will have, and is taken.\<close>

record 'e LazyEngine =
  le_factory :: "(string + 'e) option"
  le_engine :: "'e option"
  le_failed :: bool
  le_start_failure :: "string option"
  le_pass_deadline :: "nat option"

definition new_LazyEngine :: "(string + 'e) option \<Rightarrow> 'e LazyEngine" where
  "new_LazyEngine factory =
     \<lparr>le_factory = factory, le_engine = None, le_failed = False, le_start_failure = None,
      le_pass_deadline = None\<rparr>"

definition set_pass_deadline :: "'e LazyEngine \<Rightarrow> nat option \<Rightarrow> 'e LazyEngine" where
  "set_pass_deadline e deadline = e\<lparr>le_pass_deadline := deadline\<rparr>"

definition engine_start :: "'e LazyEngine \<Rightarrow> 'e LazyEngine" where
  "engine_start e =
     (if le_engine e \<noteq> None \<or> le_failed e then e
      else case le_factory e of
             None \<Rightarrow> e
           | Some (Inr engine) \<Rightarrow> e\<lparr>le_factory := None, le_engine := Some engine\<rparr>
           | Some (Inl err) \<Rightarrow> e\<lparr>le_factory := None, le_failed := True,
               le_start_failure := Some (''the semantic engine could not be started: '' @ err)\<rparr>)"

definition engine_answer ::
  "'e EngineOps \<Rightarrow> 'e LazyEngine \<Rightarrow> RelPath list \<Rightarrow> SdkIndex \<Rightarrow> 'e LazyEngine \<times> SemanticAnswer" where
  "engine_answer ops e files ix =
     (if le_engine e = None \<and> \<not> le_failed e \<and> le_factory e = None
      then (e, answer_complete default_FileChangeDiff)
      else
        let e1 = engine_start e
        in case le_engine e1 of
             None \<Rightarrow> (e1, incomplete_because default_FileChangeDiff
               (case le_start_failure e1 of
                  Some reason \<Rightarrow> reason | None \<Rightarrow> ''the semantic engine could not be started''))
           | Some engine \<Rightarrow>
               (case en_answer ops (en_set_deadline ops engine (le_pass_deadline e1)) files ix of
                  (engine', Inr answer) \<Rightarrow> (e1\<lparr>le_engine := Some engine'\<rparr>, answer)
                | (engine', Inl err) \<Rightarrow>
                    (e1\<lparr>le_engine := Some engine'\<rparr>,
                     incomplete_because default_FileChangeDiff (''the semantic pass failed: '' @ err))))"

definition engine_prepare :: "'e EngineOps \<Rightarrow> 'e LazyEngine \<Rightarrow> 'e LazyEngine" where
  "engine_prepare ops e =
     (let e1 = engine_start e in e1\<lparr>le_engine := map_option (en_prepare ops) (le_engine e1)\<rparr>)"

definition engine_workspace_changed :: "'e EngineOps \<Rightarrow> 'e LazyEngine \<Rightarrow> 'e LazyEngine" where
  "engine_workspace_changed ops e = e\<lparr>le_engine := map_option (en_workspace_changed ops) (le_engine e)\<rparr>"

definition engine_started :: "'e LazyEngine \<Rightarrow> bool" where
  "engine_started e \<longleftrightarrow> le_engine e \<noteq> None \<or> le_failed e"

definition engine_configured :: "'e LazyEngine \<Rightarrow> bool" where
  "engine_configured e \<longleftrightarrow> le_factory e \<noteq> None \<or> le_engine e \<noteq> None"

section \<open>The session\<close>

record ('p, 'e) Session =
  se_project :: "'p option"
  se_index :: SdkIndex
  se_engine :: "'e LazyEngine"
  se_project_hydrated :: bool

definition load_project :: "'p Disk \<Rightarrow> ('p, 'e) Session \<Rightarrow> ('p, 'e) Session" where
  "load_project dk s =
     (case dk_load dk of Inr project \<Rightarrow> s\<lparr>se_project := Some project\<rparr> | Inl _ \<Rightarrow> s\<lparr>se_project := None\<rparr>)"

definition new_Session :: "'p Disk \<Rightarrow> (string + 'e) option \<Rightarrow> ('p, 'e) Session" where
  "new_Session dk factory =
     load_project dk \<lparr>se_project = None, se_index = new_SdkIndex, se_engine = new_LazyEngine factory,
       se_project_hydrated = False\<rparr>"

definition is_within_root :: "RelPath \<Rightarrow> bool" where
  "is_within_root p \<longleftrightarrow> \<not> starts_with p ''/'' \<and> ''..'' \<notin> set (split_on (CHR ''/'') p)"

definition claims :: "('p, 'e) Plugin \<Rightarrow> RelPath \<Rightarrow> bool" where
  "claims pl p =
     (case extension (pl_lower pl) p of None \<Rightarrow> False | Some e \<Rightarrow> e \<in> set (pl_extensions pl))"

definition source_changed ::
  "('p, 'e) Plugin \<Rightarrow> ('p, 'e) Session \<Rightarrow> RelPath \<Rightarrow> string option
    \<Rightarrow> ('p, 'e) Session \<times> ResolutionDelta option" where
  "source_changed pl s p source =
     (if \<not> is_within_root p then (s, None)
      else case se_project s of
             None \<Rightarrow> (s, None)
           | Some project \<Rightarrow>
               (case ex_source_changed (pl_extractor pl) project p source of
                  (project', answer) \<Rightarrow>
                    (s\<lparr>se_project := Some project'\<rparr>,
                     case answer of None \<Rightarrow> None | Some delta \<Rightarrow> delta)))"

definition presence_changed ::
  "('p, 'e) Plugin \<Rightarrow> ('p, 'e) Session \<Rightarrow> RelPath \<Rightarrow> bool \<Rightarrow> ('p, 'e) Session" where
  "presence_changed pl s p present =
     (if \<not> is_within_root p then s
      else s\<lparr>se_project := map_option (\<lambda>pr. ex_presence (pl_extractor pl) pr p present) (se_project s)\<rparr>)"

definition extract_caught ::
  "('p, 'e) Plugin \<Rightarrow> 'p \<Rightarrow> RelPath \<Rightarrow> string \<Rightarrow> FileGraph option" where
  "extract_caught pl project p source =
     map_option (\<lambda>g. if is_generated source
                     then g\<lparr>fg_nodes := map (wn_generated_update (\<lambda>_. True)) (fg_nodes g)\<rparr> else g)
       (ex_extract (pl_extractor pl) project p source)"

definition real_spelling :: "'p Disk \<Rightarrow> RelPath \<Rightarrow> RelPath option" where
  "real_spelling dk p =
     (case dk_real dk p of None \<Rightarrow> None | Some real \<Rightarrow> if real \<noteq> p then Some real else None)"

definition indexed_spelling :: "'p Disk \<Rightarrow> ('p, 'e) Session \<Rightarrow> RelPath \<Rightarrow> RelPath option" where
  "indexed_spelling dk s p =
     (case real_spelling dk p of
        None \<Rightarrow> None
      | Some real \<Rightarrow> if si_entry (se_index s) real \<noteq> None then Some real else None)"

text \<open>The file's spelling in the index, then each early return of the handler in turn.\<close>

definition file_changed_as ::
  "('p, 'e) Plugin \<Rightarrow> 'p Disk \<Rightarrow> ('p, 'e) Session \<Rightarrow> RelPath \<Rightarrow> bool
    \<Rightarrow> ('p, 'e) Session \<times> FileChangeDiff" where
  "file_changed_as pl dk s p reextract =
     (if \<not> claims pl p then (s, default_FileChangeDiff)
      else
        let source = dk_read dk p; s1 = presence_changed pl s p (source \<noteq> None)
        in case source of
             None \<Rightarrow>
               (let d = diff_file (baseline (se_index s1) p) default_FileGraph;
                    s2 = s1\<lparr>se_index := si_remove (se_index s1) p\<rparr>;
                    (s3, affected) = source_changed pl s2 p None
                in (s3, d\<lparr>fd_affected := affected\<rparr>))
           | Some text \<Rightarrow>
               if \<not> reextract \<and>
                  (case si_entry (se_index s1) p of
                     None \<Rightarrow> False | Some e \<Rightarrow> fe_reported e \<and> fe_source e = text)
               then (s1, default_FileChangeDiff)
               else
                 let s2 = (if se_project s1 = None then load_project dk s1 else s1);
                     (s3, affected) = source_changed pl s2 p (Some text)
                 in case se_project s3 of
                      None \<Rightarrow> (s3, default_FileChangeDiff)
                    | Some project \<Rightarrow>
                        (case extract_caught pl project p text of
                           None \<Rightarrow> (s3, default_FileChangeDiff\<lparr>fd_affected := affected\<rparr>)
                         | Some g \<Rightarrow>
                             (s3\<lparr>se_index := si_insert (se_index s3) p text g\<rparr>,
                              (diff_file (baseline (se_index s3) p) g)\<lparr>fd_affected := affected\<rparr>)))"

definition file_changed ::
  "('p, 'e) Plugin \<Rightarrow> 'p Disk \<Rightarrow> ('p, 'e) Session \<Rightarrow> RelPath \<Rightarrow> bool
    \<Rightarrow> ('p, 'e) Session \<times> FileChangeDiff" where
  "file_changed pl dk s path reextract =
     file_changed_as pl dk s
       (case indexed_spelling dk s path of Some real \<Rightarrow> real | None \<Rightarrow> path) reextract"

fun files_created_loop ::
  "('p, 'e) Plugin \<Rightarrow> 'p Disk \<Rightarrow> RelPath list \<Rightarrow> RelPath list \<Rightarrow> RelPath list \<Rightarrow> ('p, 'e) Session
    \<Rightarrow> ('p, 'e) Session" where
  "files_created_loop pl dk listed [] applied s = s"
| "files_created_loop pl dk listed (spelled # rest) applied s =
     (let p = (case real_spelling dk spelled of
                 None \<Rightarrow> spelled
               | Some real \<Rightarrow>
                   if real \<in> set listed \<or> si_entry (se_index s) real \<noteq> None then real else spelled)
      in if \<not> claims pl p \<or> p \<in> set applied then files_created_loop pl dk listed rest applied s
         else files_created_loop pl dk listed rest (p # applied)
                (presence_changed pl s p (dk_read dk p \<noteq> None)))"

definition files_created ::
  "('p, 'e) Plugin \<Rightarrow> 'p Disk \<Rightarrow> RelPath list \<Rightarrow> ('p, 'e) Session \<Rightarrow> ('p, 'e) Session" where
  "files_created pl dk files s =
     (if se_project s = None then s else files_created_loop pl dk files files [] s)"

fun hydrate_loop ::
  "('p, 'e) Plugin \<Rightarrow> 'p Disk \<Rightarrow> RelPath list \<Rightarrow> ('p, 'e) Session \<Rightarrow> ('p, 'e) Session \<times> bool" where
  "hydrate_loop pl dk [] s = (s, True)"
| "hydrate_loop pl dk (p # ps) s =
     (if si_entry (se_index s) p \<noteq> None \<or> \<not> claims pl p then hydrate_loop pl dk ps s
      else case dk_read dk p of
             None \<Rightarrow> hydrate_loop pl dk ps s
           | Some source \<Rightarrow>
               (let s1 = (if se_project s = None then load_project dk s else s);
                    s2 = presence_changed pl s1 p True
                in case se_project s2 of
                     None \<Rightarrow> (s2, False)
                   | Some project \<Rightarrow>
                       (case extract_caught pl project p source of
                          None \<Rightarrow> hydrate_loop pl dk ps s2
                        | Some g \<Rightarrow> hydrate_loop pl dk ps
                            (s2\<lparr>se_index := insert_unreported (se_index s2) p source g\<rparr>))))"

definition hydrate ::
  "('p, 'e) Plugin \<Rightarrow> 'p Disk \<Rightarrow> RelPath list \<Rightarrow> ('p, 'e) Session \<Rightarrow> ('p, 'e) Session \<times> bool" where
  "hydrate pl dk files s =
     (if \<not> engine_configured (se_engine s) then (s, False)
      else hydrate_loop pl dk (if files = [] then dk_walk dk else files) s)"

definition semantic_pass ::
  "('p, 'e) Plugin \<Rightarrow> 'p Disk \<Rightarrow> nat option \<Rightarrow> RelPath list \<Rightarrow> (string \<times> string) list
    \<Rightarrow> ('p, 'e) Session \<Rightarrow> ('p, 'e) Session \<times> SemanticAnswer" where
  "semantic_pass pl dk deadline files linked s =
     (let s1 = (if files = [] \<or> \<not> se_project_hydrated s
                then (let (s', ok) = hydrate pl dk [] s in s'\<lparr>se_project_hydrated := ok\<rparr>) else s);
          s2 = (if files \<noteq> [] then fst (hydrate pl dk files s1) else s1);
          s3 = s2\<lparr>se_index := set_linked (se_index s2) linked\<rparr>;
          (e, answer) = engine_answer (pl_engine pl) (set_pass_deadline (se_engine s3) deadline) files (se_index s3)
      in (s3\<lparr>se_engine := e\<rparr>, answer))"

definition workspace_changed ::
  "('p, 'e) Plugin \<Rightarrow> 'p Disk \<Rightarrow> ('p, 'e) Session \<Rightarrow> ('p, 'e) Session" where
  "workspace_changed pl dk s =
     (let s1 = load_project dk (s\<lparr>se_index := si_clear (se_index s), se_project_hydrated := False\<rparr>)
      in s1\<lparr>se_engine := engine_workspace_changed (pl_engine pl) (se_engine s1)\<rparr>)"

record ResolutionChangedResult =
  rr_delta :: ResolutionDelta
  rr_facts :: "string option"
  rr_watch_paths :: "string list"

definition facts_caught :: "('p, 'e) Plugin \<Rightarrow> 'p \<Rightarrow> string option" where
  "facts_caught pl project = (case ex_facts (pl_extractor pl) project of None \<Rightarrow> None | Some f \<Rightarrow> f)"

definition watch_paths_caught :: "('p, 'e) Plugin \<Rightarrow> 'p \<Rightarrow> string list" where
  "watch_paths_caught pl project =
     (case ex_watch_paths (pl_extractor pl) project of None \<Rightarrow> [] | Some ps \<Rightarrow> ps)"

definition delta_caught :: "('p, 'e) Plugin \<Rightarrow> string \<Rightarrow> 'p \<Rightarrow> ResolutionDelta" where
  "delta_caught pl previous project =
     (case ex_delta (pl_extractor pl) previous project of
        None \<Rightarrow> Unknown ''the resolution delta panicked'' | Some d \<Rightarrow> d)"

fun is_unknown :: "ResolutionDelta \<Rightarrow> bool" where
  "is_unknown (Unknown _) = True"
| "is_unknown _ = False"

definition resolution_changed ::
  "('p, 'e) Plugin \<Rightarrow> 'p Disk \<Rightarrow> string option \<Rightarrow> ('p, 'e) Session
    \<Rightarrow> ('p, 'e) Session \<times> ResolutionChangedResult" where
  "resolution_changed pl dk previous s =
     (let (s1, result) =
            (case dk_load dk of
               Inl err \<Rightarrow>
                 (s, \<lparr>rr_delta = Unknown (''the project model failed to load: '' @ err), rr_facts = None,
                      rr_watch_paths = []\<rparr>)
             | Inr project \<Rightarrow>
                 (let delta = (case previous of
                                 None \<Rightarrow> Unknown ''no previous resolution facts''
                               | Some p \<Rightarrow> delta_caught pl p project);
                      facts = facts_caught pl project;
                      watch = (if facts = None \<or> is_unknown delta then [] else watch_paths_caught pl project)
                  in (s\<lparr>se_project := Some project\<rparr>,
                      \<lparr>rr_delta = delta, rr_facts = facts, rr_watch_paths = watch\<rparr>)));
          s2 = (if is_unknown (rr_delta result)
                then s1\<lparr>se_index := si_clear (se_index s1), se_project_hydrated := False\<rparr> else s1)
      in (s2\<lparr>se_engine := engine_workspace_changed (pl_engine pl) (se_engine s2)\<rparr>, result))"

datatype Request =
    FileChangedReq string bool
  | FilesCreatedReq "string list"
  | SemanticPassReq "nat option" "string list" "(string \<times> string) list"
  | WorkspaceChangedReq
  | ResolutionChangedReq "string option"
  | PrepareSemanticPassReq
  | OtherReq

datatype Response =
    DiffResponse FileChangeDiff
  | PassResponse FileChangeDiff bool "string option" "RelPath list option"
  | ResolutionResponse ResolutionChangedResult
  | Acknowledged

definition pass_response :: "bool \<Rightarrow> SemanticAnswer \<Rightarrow> Response" where
  "pass_response whole answer =
     (let incomplete = (whole \<and> \<not> sa_complete answer)
      in PassResponse (sa_diff answer) incomplete (if incomplete then sa_reason answer else None)
           (sa_unfinished answer))"

text \<open>One control message; an answer is written only for a message that carries an id.\<close>

definition handle ::
  "('p, 'e) Plugin \<Rightarrow> 'p Disk \<Rightarrow> ('p, 'e) Session \<Rightarrow> bool \<Rightarrow> Request \<Rightarrow> ('p, 'e) Session \<times> Response option" where
  "handle pl dk s has_id req =
     (let (s', r) =
        (case req of
           FileChangedReq path reextract \<Rightarrow>
             (let (s', d) = file_changed pl dk s (rel_path path) reextract in (s', DiffResponse d))
         | FilesCreatedReq paths \<Rightarrow> (files_created pl dk (map rel_path paths) s, Acknowledged)
         | SemanticPassReq deadline paths linked \<Rightarrow>
             (let files = map rel_path paths; (s', answer) = semantic_pass pl dk deadline files linked s
              in (s', pass_response (files = []) answer))
         | WorkspaceChangedReq \<Rightarrow> (workspace_changed pl dk s, Acknowledged)
         | ResolutionChangedReq previous \<Rightarrow>
             (let (s', result) = resolution_changed pl dk previous s in (s', ResolutionResponse result))
         | PrepareSemanticPassReq \<Rightarrow>
             (s\<lparr>se_engine := engine_prepare (pl_engine pl) (se_engine s)\<rparr>, Acknowledged)
         | OtherReq \<Rightarrow> (s, Acknowledged))
      in (s', if has_id then Some r else None))"

end
