(* ===== verification/Plugin_Sync.thy ===== *)
theory Plugin_Sync
  imports Plugin_Session
begin

text \<open>
  A plugin session and the index it reports to, step by step: what core does with a \<^verbatim>\<open>fileChanged\<close>
  answer and with a semantic answer, and why a reported file never keeps a row its last reported
  extraction does not have.
\<close>

section \<open>Applying an answer\<close>

definition apply_file_answer ::
  "digest \<Rightarrow> bool \<Rightarrow> string \<Rightarrow> FileChangeDiff \<Rightarrow> store \<Rightarrow> store \<times> (store_error + unit)" where
  "apply_file_answer sha missing path d st =
     (let sd = fst (to_storage_diff d default_PathWarnings);
          scope = file_scope missing sd (fd_complete d)
      in apply_diff sha st (widen path scope st sd))"

definition wire_rows :: "WireNode list \<Rightarrow> NodeRow set" where
  "wire_rows ns = node_row ` node_record ` set ns"

lemma wire_row_columns [simp]: "n_id (node_row (node_record n)) = wn_id n"
  "n_filePath (node_row (node_record n)) = wn_file_path n"
  by (simp_all add: node_row_def)

lemma apply_file_answer_rows:
  assumes "apply_file_answer sha missing path d st = (st', Inr ())" and "r \<in> set (nodes st')"
  shows "r \<in> wire_rows (fd_upsert_nodes d) \<or> n_filePath r = [] \<or>
    (r \<in> set (nodes st) \<and> n_id r \<notin> set (fd_delete_node_ids d) \<and> n_id r \<notin> wn_id ` set (fd_upsert_nodes d) \<and>
     (fd_complete d \<longrightarrow> n_filePath r \<noteq> path))"
proof -
  define sd where "sd = fst (to_storage_diff d default_PathWarnings)"
  define scope where "scope = file_scope missing sd (fd_complete d)"
  let ?w = "widen path scope st sd"
  have a: "apply_diff sha st ?w = (st', Inr ())"
    using assms(1) by (simp add: apply_file_answer_def sd_def scope_def Let_def)
  have c: "fd_complete d \<Longrightarrow> scope \<noteq> Partial" by (simp add: scope_def file_scope_def)
  have up: "nr_id ` set (upsert_nodes sd) = wn_id ` set (fd_upsert_nodes d)"
    "node_row ` set (upsert_nodes sd) = wire_rows (fd_upsert_nodes d)"
    by (simp_all add: sd_def wire_rows_def image_image)
  have del: "set (fd_delete_node_ids d) \<subseteq> set (delete_node_ids ?w)"
    by (auto simp: sd_def widen_def Let_def)
  have path: "r \<in> set (nodes st) \<Longrightarrow> n_id r \<notin> set (delete_node_ids ?w) \<Longrightarrow>
      n_id r \<notin> wn_id ` set (fd_upsert_nodes d) \<Longrightarrow> fd_complete d \<Longrightarrow> n_filePath r \<noteq> path"
    using widen_deletes_node [of scope r st path sd] c up by auto
  show ?thesis
  proof (cases "diff_is_empty ?w")
    case True
    with a have "st' = st" by (simp add: apply_diff_def)
    moreover have "delete_node_ids ?w = []" "upsert_nodes sd = []" using True by (simp_all add: diff_is_empty_def)
    ultimately show ?thesis using assms(2) path del up by auto
  next
    case False
    with a have "write_diff sha ?w st = Inr st'"
      by (auto simp: apply_diff_def savepoint_def split: sum.splits)
    from write_diff_node_origin [OF this assms(2)] show ?thesis using path del up by auto
  qed
qed

lemma apply_file_answer_total:
  assumes "\<forall>n\<in>set (fd_upsert_nodes d). ordinals_distinct n"
  shows "\<exists>st'. apply_file_answer sha missing path d st = (st', Inr ())"
proof -
  let ?d = "widen path (file_scope missing (fst (to_storage_diff d default_PathWarnings)) (fd_complete d)) st
      (fst (to_storage_diff d default_PathWarnings))"
  have "(\<forall>n\<in>set (upsert_nodes ?d). node_valid n) \<and>
      (\<forall>e\<in>set (upsert_edges ?d). ed_source e \<in> {''syntactic'', ''semantic''})"
    using assms by (auto simp: node_record_valid edge_source_tier_wire_value_def split: SourceTier.splits)
  then have "snd (apply_diff sha st ?d) = Inr ()" using apply_diff_accepts by blast
  then show ?thesis unfolding apply_file_answer_def Let_def by (metis prod.collapse)
qed

section \<open>Well-formed sessions\<close>

definition well_formed_graph :: "RelPath \<Rightarrow> FileGraph \<Rightarrow> bool" where
  "well_formed_graph p g \<longleftrightarrow>
     own_nodes p (fg_nodes g) \<and> keyed wn_id (fg_nodes g) \<and> (\<forall>n\<in>set (fg_nodes g). ordinals_distinct n)"

definition well_formed_extractor :: "('p, 'e) Plugin \<Rightarrow> bool" where
  "well_formed_extractor pl \<longleftrightarrow>
     (\<forall>pr p src g. ex_extract (pl_extractor pl) pr p src = Some g \<longrightarrow> well_formed_graph p g)"

definition entries_ok :: "('p, 'e) Plugin \<Rightarrow> SdkIndex \<Rightarrow> bool" where
  "entries_ok pl ix \<longleftrightarrow>
     (\<forall>p e. si_entry ix p = Some e \<longrightarrow> claims pl p \<and> well_formed_graph p (fe_graph e))"

definition rows_fresh :: "string set \<Rightarrow> SdkIndex \<Rightarrow> store \<Rightarrow> bool" where
  "rows_fresh S ix st \<longleftrightarrow>
     (\<forall>p g r. baseline ix p = Some g \<longrightarrow> r \<in> set (nodes st) \<longrightarrow> n_filePath r = p \<longrightarrow>
        n_id r \<in> S \<or> r \<in> wire_rows (fg_nodes g))"

lemma claims_not_Nil: "claims pl p \<Longrightarrow> p \<noteq> []"
  by (auto simp: claims_def)

lemma well_formed_extract_caught:
  "well_formed_extractor pl \<Longrightarrow> extract_caught pl pr p src = Some g \<Longrightarrow> well_formed_graph p g"
proof -
  assume w: "well_formed_extractor pl" and e: "extract_caught pl pr p src = Some g"
  from e obtain g0 where x: "ex_extract (pl_extractor pl) pr p src = Some g0"
    and g: "g = (if is_generated src
      then g0\<lparr>fg_nodes := map (wn_generated_update (\<lambda>_. True)) (fg_nodes g0)\<rparr> else g0)"
    by (auto simp: extract_caught_def)
  from w x have g0: "well_formed_graph p g0" unfolding well_formed_extractor_def by blast
  have "keyed wn_id (map (wn_generated_update (\<lambda>_. True)) ns)" if "keyed wn_id ns" for ns
    using that by (rule keyed_map) simp
  with g0 show ?thesis
    by (auto simp: g well_formed_graph_def own_nodes_def ordinals_distinct_def)
qed

lemma session_index_frame [simp]:
  "se_index (load_project dk s) = se_index s" "se_index (presence_changed pl s p b) = se_index s"
  "se_index (fst (source_changed pl s p t)) = se_index s"
  by (auto simp: load_project_def presence_changed_def source_changed_def split: sum.splits option.splits prod.splits)

lemma si_entry_simps [simp]:
  "si_entry (si_insert ix p t g) = (si_entry ix)(p \<mapsto> \<lparr>fe_source = t, fe_graph = g, fe_reported = True\<rparr>)"
  "si_entry (insert_unreported ix p t g) = (si_entry ix)(p \<mapsto> \<lparr>fe_source = t, fe_graph = g, fe_reported = False\<rparr>)"
  "si_entry (si_remove ix p) = (si_entry ix)(p := None)"
  "si_entry (si_clear ix) = (\<lambda>_. None)" "si_entry new_SdkIndex = (\<lambda>_. None)"
  "si_entry (set_linked ix l) = si_entry ix"
  by (auto simp: si_entry_def si_insert_def insert_unreported_def si_remove_def si_clear_def new_SdkIndex_def
      set_linked_def fun_eq_iff)

lemma baseline_simps [simp]:
  "baseline (si_insert ix p t g) = (baseline ix)(p \<mapsto> g)"
  "baseline (si_remove ix p) = (baseline ix)(p := None)"
  "baseline (si_clear ix) = (\<lambda>_. None)" "baseline new_SdkIndex = (\<lambda>_. None)"
  "baseline (set_linked ix l) = baseline ix"
  by (auto simp: baseline_def fun_eq_iff)

text \<open>What the handler of a changed file does, over all its returns.\<close>

lemma file_changed_as_cases:
  assumes "file_changed_as pl dk s p re = (s', d)"
  obtains (same) "se_index s' = se_index s" and "d = default_FileChangeDiff\<lparr>fd_affected := fd_affected d\<rparr>"
  | (gone) "claims pl p" "se_index s' = si_remove (se_index s) p"
      "d = (diff_file (baseline (se_index s) p) default_FileGraph)\<lparr>fd_affected := fd_affected d\<rparr>"
  | (extracted) project src g where "claims pl p" "extract_caught pl project p src = Some g"
      "se_index s' = si_insert (se_index s) p src g"
      "d = (diff_file (baseline (se_index s) p) g)\<lparr>fd_affected := fd_affected d\<rparr>"
proof (cases "claims pl p")
  case False
  with assms same show ?thesis by (simp add: file_changed_as_def default_FileChangeDiff_def)
next
  case True
  let ?s1 = "presence_changed pl s p (dk_read dk p \<noteq> None)"
  show ?thesis
  proof (cases "dk_read dk p")
    case None
    obtain s3 a where "source_changed pl (?s1\<lparr>se_index := si_remove (se_index ?s1) p\<rparr>) p None = (s3, a)" by fastforce
    moreover from this have "se_index s3 = si_remove (se_index s) p"
      using session_index_frame(3) [of pl "?s1\<lparr>se_index := si_remove (se_index ?s1) p\<rparr>" p None] by simp
    ultimately show ?thesis using assms True None by (intro gone) (auto simp: file_changed_as_def Let_def)
  next
    case (Some src)
    let ?s1 = "presence_changed pl s p True"
    define s2 where "s2 = (if se_project ?s1 = None then load_project dk ?s1 else ?s1)"
    obtain s3 a where s3: "source_changed pl s2 p (Some src) = (s3, a)" by fastforce
    have ix: "se_index s2 = se_index s" by (simp add: s2_def)
    then have i3: "se_index s3 = se_index s" using session_index_frame(3) [of pl s2 p "Some src"] s3 by simp
    let ?unchanged = "\<not> re \<and> (case si_entry (se_index ?s1) p of
      None \<Rightarrow> False | Some e \<Rightarrow> fe_reported e \<and> fe_source e = src)"
    show ?thesis
    proof (cases ?unchanged)
      case True
      with assms \<open>claims pl p\<close> Some show ?thesis
        by (intro same) (auto simp: file_changed_as_def Let_def default_FileChangeDiff_def)
    next
      case False
      have r: "(s', d) = (case se_project s3 of
            None \<Rightarrow> (s3, default_FileChangeDiff)
          | Some project \<Rightarrow> (case extract_caught pl project p src of
              None \<Rightarrow> (s3, default_FileChangeDiff\<lparr>fd_affected := a\<rparr>)
            | Some g \<Rightarrow> (s3\<lparr>se_index := si_insert (se_index s3) p src g\<rparr>,
                (diff_file (baseline (se_index s3) p) g)\<lparr>fd_affected := a\<rparr>)))"
        using assms \<open>claims pl p\<close> Some False s3
        by (simp add: file_changed_as_def Let_def s2_def split: if_split_asm)
      show ?thesis
      proof (cases "se_project s3")
        case None
        with r i3 show ?thesis by (intro same) (auto simp: default_FileChangeDiff_def)
      next
        case (Some project)
        show ?thesis
        proof (cases "extract_caught pl project p src")
          case None
          with r i3 Some show ?thesis by (intro same) (auto simp: default_FileChangeDiff_def)
        next
          case (Some g)
          with r i3 \<open>se_project s3 = Some project\<close> \<open>claims pl p\<close> show ?thesis
            by (intro extracted [of project src g]) auto
        qed
      qed
    qed
  qed
qed

section \<open>One answer keeps the rows fresh\<close>

text \<open>The baselines of the new index, given those of the old one and the diff between them.\<close>

lemma diff_keeps_fresh:
  assumes ok: "entries_ok pl ix" and p: "p \<noteq> []"
    and fresh: "\<forall>h r. baseline ix p = Some h \<longrightarrow> r \<in> set (nodes st) \<longrightarrow> n_filePath r = p \<longrightarrow>
      n_id r \<in> S \<or> r \<in> wire_rows (fg_nodes h)"
    and g: "well_formed_graph p g" and d: "d = (diff_file (baseline ix p) g)\<lparr>fd_affected := a\<rparr>"
    and spelled: "path = p \<or> baseline ix p \<noteq> None"
    and app: "apply_file_answer sha missing path d st = (st', Inr ())"
    and r: "r \<in> set (nodes st')"
  shows "n_filePath r = p \<Longrightarrow> n_id r \<in> S \<or> r \<in> wire_rows (fg_nodes g)"
    and "n_filePath r \<noteq> p \<Longrightarrow> n_filePath r \<noteq> [] \<Longrightarrow> r \<in> set (nodes st)"
proof -
  let ?prev = "case baseline ix p of None \<Rightarrow> default_FileGraph | Some g0 \<Rightarrow> g0"
  have kp: "keyed wn_id (fg_nodes ?prev)"
    using ok by (auto simp: entries_ok_def baseline_def well_formed_graph_def default_FileGraph_def
        split: option.splits if_splits)
  have kg: "keyed wn_id (fg_nodes g)" and own: "own_nodes p (fg_nodes g)"
    using g by (simp_all add: well_formed_graph_def)
  have up: "set (fd_upsert_nodes d) = set (fg_nodes g) - set (fg_nodes ?prev)"
    and del: "set (fd_delete_node_ids d) = wn_id ` (set (fg_nodes ?prev) - set (fg_nodes g))"
    and co: "fd_complete d \<longleftrightarrow> baseline ix p = None"
    by (simp_all add: d diff_file_def Let_def set_changed_against [OF kp] set_changed_against [OF kg])
  have ups: "x \<in> wire_rows (fg_nodes g) \<and> n_filePath x = p" if "x \<in> wire_rows (fd_upsert_nodes d)" for x
    using that own up by (auto simp: wire_rows_def own_nodes_def)
  note origin = apply_file_answer_rows [OF app r]
  show "n_id r \<in> S \<or> r \<in> wire_rows (fg_nodes g)" if rp: "n_filePath r = p"
  proof (cases "r \<in> wire_rows (fd_upsert_nodes d)")
    case False
    with origin rp p have st: "r \<in> set (nodes st)" "n_id r \<notin> set (fd_delete_node_ids d)"
      "fd_complete d \<longrightarrow> path \<noteq> p" by auto
    with spelled co obtain g0 where g0: "baseline ix p = Some g0" by auto
    from fresh g0 st(1) rp have "n_id r \<in> S \<or> r \<in> wire_rows (fg_nodes g0)" by blast
    then show ?thesis
    proof
      assume "r \<in> wire_rows (fg_nodes g0)"
      then obtain n where n: "n \<in> set (fg_nodes g0)" "r = node_row (node_record n)" by (auto simp: wire_rows_def)
      with st(2) del g0 have "n \<in> set (fg_nodes g)" by auto
      with n(2) show ?thesis by (auto simp: wire_rows_def)
    qed simp
  qed (use ups in blast)
  show "r \<in> set (nodes st)" if "n_filePath r \<noteq> p" "n_filePath r \<noteq> []"
    using origin ups that by blast
qed

lemma empty_answer_keeps_rows:
  assumes "d = default_FileChangeDiff\<lparr>fd_affected := a\<rparr>"
    and "apply_file_answer sha missing path d st = (st', Inr ())" and "r \<in> set (nodes st')" and "n_filePath r \<noteq> []"
  shows "r \<in> set (nodes st)"
  using apply_file_answer_rows [OF assms(2,3)] assms(1,4) by (auto simp: default_FileChangeDiff_def wire_rows_def)

lemma default_graph_well_formed [simp]: "well_formed_graph p default_FileGraph"
  by (simp add: well_formed_graph_def default_FileGraph_def own_nodes_def)

lemma rows_freshD:
  "rows_fresh S ix st \<Longrightarrow>
     \<forall>h r. baseline ix p = Some h \<longrightarrow> r \<in> set (nodes st) \<longrightarrow> n_filePath r = p \<longrightarrow>
       n_id r \<in> S \<or> r \<in> wire_rows (fg_nodes h)"
  unfolding rows_fresh_def by blast

lemma baseline_not_Nil: "entries_ok pl ix \<Longrightarrow> baseline ix q = Some g \<Longrightarrow> q \<noteq> []"
  using claims_not_Nil by (fastforce simp: baseline_def entries_ok_def split: option.splits if_splits)

lemma file_changed_keeps_fresh:
  assumes wf: "well_formed_extractor pl" and ok: "entries_ok pl (se_index s)"
    and fresh: "rows_fresh S (se_index s) st"
    and ch: "file_changed_as pl dk s p re = (s', d)"
    and spelled: "path = p \<or> baseline (se_index s) p \<noteq> None"
    and app: "apply_file_answer sha missing path d st = (st', Inr ())"
  shows "entries_ok pl (se_index s') \<and> rows_fresh S (se_index s') st'"
  using ch
proof (cases rule: file_changed_as_cases)
  case same
  note nn = baseline_not_Nil [OF ok]
  have "rows_fresh S (se_index s) st'"
    using fresh nn empty_answer_keeps_rows [OF same(2) app] unfolding rows_fresh_def by blast
  with same ok show ?thesis by simp
next
  case gone
  note k = diff_keeps_fresh [OF ok claims_not_Nil [OF gone(1)] rows_freshD [OF fresh] default_graph_well_formed gone(3) spelled app] and nn = baseline_not_Nil [OF ok]
  have "rows_fresh S (se_index s') st'"
    using fresh k(2) nn unfolding rows_fresh_def gone(2) baseline_simps
    by (metis (no_types, lifting) fun_upd_apply option.distinct(1))
  with gone ok show ?thesis by (simp add: entries_ok_def)
next
  case (extracted project src g)
  note wg = well_formed_extract_caught [OF wf extracted(2)]
  note k = diff_keeps_fresh [OF ok claims_not_Nil [OF extracted(1)] rows_freshD [OF fresh] wg extracted(4) spelled app] and nn = baseline_not_Nil [OF ok]
  have "rows_fresh S (se_index s') st'"
    using fresh k nn unfolding rows_fresh_def extracted(3) baseline_simps
    by (metis (no_types, lifting) fun_upd_apply option.inject)
  with extracted ok wg show ?thesis by (simp add: entries_ok_def)
qed

section \<open>Runs\<close>

lemma files_created_index [simp]: "se_index (files_created pl dk files s) = se_index s"
proof -
  have "se_index (files_created_loop pl dk listed fs applied s) = se_index s" for listed fs applied
    by (induction pl dk listed fs applied s rule: files_created_loop.induct)
      (auto simp: Let_def split: option.splits)
  then show ?thesis by (simp add: files_created_def)
qed

lemma insert_unreported_baseline:
  "si_entry ix p = None \<Longrightarrow> baseline (insert_unreported ix p t g) = baseline ix"
  by (auto simp: baseline_def fun_eq_iff)

lemma hydrate_loop_index:
  assumes wf: "well_formed_extractor pl" and "entries_ok pl (se_index s)"
  shows "entries_ok pl (se_index (fst (hydrate_loop pl dk ps s))) \<and>
    baseline (se_index (fst (hydrate_loop pl dk ps s))) = baseline (se_index s)"
  using assms(2)
proof (induction ps arbitrary: s)
  case (Cons p ps)
  show ?case
  proof (cases "si_entry (se_index s) p \<noteq> None \<or> \<not> claims pl p \<or> dk_read dk p = None")
    case True
    then have "hydrate_loop pl dk (p # ps) s = hydrate_loop pl dk ps s" by auto
    with Cons show ?thesis by simp
  next
    case False
    then obtain src where src: "dk_read dk p = Some src" and new: "si_entry (se_index s) p = None" and c: "claims pl p"
      by auto
    define s2 where "s2 = presence_changed pl (if se_project s = None then load_project dk s else s) p True"
    have ix: "se_index s2 = se_index s" by (simp add: s2_def)
    have step: "hydrate_loop pl dk (p # ps) s = (case se_project s2 of
        None \<Rightarrow> (s2, False)
      | Some project \<Rightarrow> (case extract_caught pl project p src of
          None \<Rightarrow> hydrate_loop pl dk ps s2
        | Some g \<Rightarrow> hydrate_loop pl dk ps (s2\<lparr>se_index := insert_unreported (se_index s2) p src g\<rparr>)))"
      unfolding s2_def by (simp add: new c src Let_def)
    have grown: "entries_ok pl (insert_unreported (se_index s) p src g) \<and>
        baseline (insert_unreported (se_index s) p src g) = baseline (se_index s)"
      if "extract_caught pl project p src = Some g" for project g
      using Cons.prems c well_formed_extract_caught [OF wf that] insert_unreported_baseline [OF new]
      by (auto simp: entries_ok_def)
    show ?thesis unfolding step
      using Cons.IH [of s2] Cons.IH [of "s2\<lparr>se_index := insert_unreported (se_index s2) p src g\<rparr>" for g] Cons.prems grown
      by (auto simp: ix split: option.splits)
  qed
qed simp

lemma hydrate_index:
  assumes "well_formed_extractor pl" and "entries_ok pl (se_index s)"
  shows "entries_ok pl (se_index (fst (hydrate pl dk files s)))"
    and "baseline (se_index (fst (hydrate pl dk files s))) = baseline (se_index s)"
  using hydrate_loop_index [OF assms] assms(2) by (simp_all add: hydrate_def)

lemma semantic_pass_index:
  assumes wf: "well_formed_extractor pl" and ok: "entries_ok pl (se_index s)"
    and "semantic_pass pl dk deadline files linked s = (s', answer)"
  shows "entries_ok pl (se_index s') \<and> baseline (se_index s') = baseline (se_index s)"
proof -
  define s1 where "s1 = (if files = [] \<or> \<not> se_project_hydrated s
      then (fst (hydrate pl dk [] s))\<lparr>se_project_hydrated := snd (hydrate pl dk [] s)\<rparr> else s)"
  define s2 where "s2 = (if files \<noteq> [] then fst (hydrate pl dk files s1) else s1)"
  have 1: "entries_ok pl (se_index s1)" "baseline (se_index s1) = baseline (se_index s)"
    using hydrate_index [OF wf ok] ok by (simp_all add: s1_def)
  have 2: "entries_ok pl (se_index s2)" "baseline (se_index s2) = baseline (se_index s)"
    using hydrate_index [OF wf 1(1)] 1 by (simp_all add: s2_def)
  have "se_index s' = set_linked (se_index s2) linked"
    using assms(3) unfolding s2_def s1_def by (auto simp: semantic_pass_def Let_def case_prod_beta)
  with 2 show ?thesis by (simp add: entries_ok_def)
qed

definition semantic_storage_diff :: "SemanticAnswer \<Rightarrow> Diff" where
  "semantic_storage_diff answer = fst (to_storage_diff (sa_diff answer) default_PathWarnings)"

text \<open>
  The steps that touch the session or the node rows of its files. A \<^verbatim>\<open>fileChanged\<close> names the file as
  it is indexed, or a link whose file has a baseline; linking and retiring only drop node rows; a
  plugin may be restarted at any time. The third component collects the ids that semantic answers
  inserted.
\<close>

inductive sync_step ::
  "('p, 'e) Plugin \<Rightarrow> digest \<Rightarrow> ('p, 'e) Session \<times> store \<times> string set
    \<Rightarrow> ('p, 'e) Session \<times> store \<times> string set \<Rightarrow> bool" for pl sha where
  sync_file_changed:
    "sync_step pl sha (s, st, S) (s', st', S)"
    if "rel_path path = path"
      and "\<And>real. indexed_spelling dk s path = Some real \<Longrightarrow> baseline (se_index s) real \<noteq> None"
      and "handle pl dk s True (FileChangedReq path reextract) = (s', Some (DiffResponse d))"
      and "apply_file_answer sha missing path d st = (st', Inr ())"
| sync_semantic_pass:
    "sync_step pl sha (s, st, S) (s', st', S \<union> (nr_id ` set (upsert_nodes d) - set (stored_node_ids st d)))"
    if "semantic_pass pl dk deadline files linked s = (s', answer)"
      and "d = semantic_storage_diff answer"
      and "apply_semantic_diff sha st d = (st', d', res)"
| sync_message:
    "sync_step pl sha (s, st, S) (s', st, S)"
    if "handle pl dk s has_id req = (s', r)"
      and "\<forall>path re. req \<noteq> FileChangedReq path re"
      and "\<forall>deadline files linked. req \<noteq> SemanticPassReq deadline files linked"
| sync_rows_dropped:
    "sync_step pl sha (s, st, S) (s, st', S)" if "set (nodes st') \<subseteq> set (nodes st)"
| sync_restart:
    "sync_step pl sha (s, st, S) (new_Session dk factory, st, S)"

definition synced :: "('p, 'e) Plugin \<Rightarrow> ('p, 'e) Session \<times> store \<times> string set \<Rightarrow> bool" where
  "synced pl x = (case x of (s, st, S) \<Rightarrow> entries_ok pl (se_index s) \<and> rows_fresh S (se_index s) st)"

lemma synced_new: "synced pl (new_Session dk factory, st, S)"
  by (simp add: synced_def new_Session_def entries_ok_def rows_fresh_def)

lemma fold_replace_untyped_nodes [simp]: "nodes (fold replace_untyped_calls ns st) = nodes st"
  by (induction ns arbitrary: st) (simp_all add: replace_untyped_calls_def)

lemma semantic_diff_rows:
  assumes "apply_semantic_diff sha st d = (st', d', res)" and "r \<in> set (nodes st')"
  shows "r \<in> set (nodes st) \<or> n_filePath r = [] \<or>
    n_id r \<in> nr_id ` set (upsert_nodes d) - set (stored_node_ids st d)"
proof (cases "diff_is_empty d")
  case False
  let ?ins = "d\<lparr>upsert_nodes := filter (\<lambda>n. nr_id n \<notin> set (stored_node_ids st d)) (upsert_nodes d)\<rparr>"
  show ?thesis
  proof (cases "write_diff_unless_empty sha ?ins st")
    case (Inl e)
    with assms False have "st' = st" by (auto simp: apply_semantic_diff_def Let_def savepoint_def)
    with assms(2) show ?thesis by simp
  next
    case (Inr s1)
    with assms False have n: "nodes st' = nodes s1"
      by (auto simp: apply_semantic_diff_def Let_def savepoint_def)
    from Inr have "s1 = st \<or> write_diff sha ?ins st = Inr s1"
      by (auto simp: write_diff_unless_empty_def split: if_splits)
    then show ?thesis
    proof
      assume "write_diff sha ?ins st = Inr s1"
      moreover have "r \<in> set (nodes s1)" using assms(2) n by simp
      ultimately have "r \<in> node_row ` set (upsert_nodes ?ins) \<or> n_filePath r = [] \<or> r \<in> set (nodes st)"
        using write_diff_node_origin by blast
      moreover have "n_id (node_row m) = nr_id m" for m by (simp add: node_row_def)
      ultimately show ?thesis by auto
    qed (use assms(2) n in simp)
  qed
qed (use assms in \<open>simp add: apply_semantic_diff_def\<close>)

lemma message_index:
  assumes "handle pl dk s has_id req = (s', r)"
    and "\<forall>path re. req \<noteq> FileChangedReq path re"
    and "\<forall>deadline files linked. req \<noteq> SemanticPassReq deadline files linked"
  shows "se_index s' = se_index s \<or> se_index s' = si_clear (se_index s)"
  using assms
  by (cases req) (auto simp: handle_def Let_def workspace_changed_def resolution_changed_def split: sum.splits if_splits)

lemma sync_step_synced:
  assumes "sync_step pl sha x y" and "well_formed_extractor pl" and "synced pl x"
  shows "synced pl y"
  using assms
proof (cases rule: sync_step.cases)
  case (sync_file_changed path dk s reextract s' d missing st st' S)
  let ?p = "case indexed_spelling dk s path of Some real \<Rightarrow> real | None \<Rightarrow> path"
  have ch: "file_changed_as pl dk s ?p reextract = (s', d)"
    using sync_file_changed(3,5) by (auto simp: handle_def file_changed_def Let_def split: prod.splits)
  have sp: "path = ?p \<or> baseline (se_index s) ?p \<noteq> None"
    using sync_file_changed(4) by (cases "indexed_spelling dk s path") auto
  show ?thesis
    using file_changed_keeps_fresh [OF assms(2) _ _ ch sp sync_file_changed(6)] assms(3) sync_file_changed(1,2)
    by (auto simp: synced_def)
next
  case (sync_semantic_pass dk deadline files linked s s' answer d st st' d' res S)
  from assms(3) sync_semantic_pass(1) have ok: "entries_ok pl (se_index s)" and fr: "rows_fresh S (se_index s) st"
    by (simp_all add: synced_def)
  note ix = semantic_pass_index [OF assms(2) ok sync_semantic_pass(3)]
  have "rows_fresh (S \<union> (nr_id ` set (upsert_nodes d) - set (stored_node_ids st d))) (se_index s') st'"
    using fr ix semantic_diff_rows [OF sync_semantic_pass(5)] baseline_not_Nil [OF ok]
    unfolding rows_fresh_def by (metis UnCI)
  with ix show ?thesis by (simp add: sync_semantic_pass(2) synced_def)
next
  case (sync_message dk s has_id req s' r st S)
  have "synced pl (s', st, S)" if "se_index s' = si_clear (se_index s)"
    by (simp add: synced_def entries_ok_def rows_fresh_def that)
  with message_index [OF sync_message(3-5)] assms(3) show ?thesis
    by (auto simp: sync_message(1,2) synced_def)
next
  case (sync_rows_dropped st' st s S)
  then show ?thesis using assms(3) by (auto simp: synced_def rows_fresh_def)
next
  case (sync_restart s st S dk factory)
  then show ?thesis by (simp add: synced_new)
qed

lemma run_synced:
  assumes "(sync_step pl sha)\<^sup>*\<^sup>* x y" and "well_formed_extractor pl" and "synced pl x"
  shows "synced pl y"
  using assms by (induction rule: rtranclp_induct) (auto intro: sync_step_synced)

section \<open>Properties\<close>

lemma last_upsert_keyed:
  assumes "keyed nr_id ns"
  shows "last_upsert ns i = Some n \<longleftrightarrow> n \<in> set ns \<and> nr_id n = i"
proof -
  have "map fst (rev (map (\<lambda>n. (nr_id n, n)) ns)) = rev (map nr_id ns)" by (simp add: rev_map comp_def)
  then have "distinct (map fst (rev (map (\<lambda>n. (nr_id n, n)) ns)))" using assms by (simp add: keyed_def)
  then show ?thesis by (auto simp: last_upsert_def)
qed

lemma keyed_changed: "keyed key xs \<Longrightarrow> keyed key (changed_against key other xs)"
  by (simp add: changed_against_def keyed_filter)

text \<open>An answer puts every node of the new extraction into the index, when the baseline was there.\<close>

lemma answer_stores_nodes:
  assumes st: "keyed n_id (nodes st)" and g: "well_formed_graph p g" and g0: "\<And>h. prev = Some h \<Longrightarrow> keyed wn_id (fg_nodes h)"
    and prev: "\<And>h n. prev = Some h \<Longrightarrow> n \<in> set (fg_nodes h) \<Longrightarrow> node_at st (wn_id n) = Some (node_row (node_record n))"
    and d: "d = (diff_file prev g)\<lparr>fd_affected := a\<rparr>"
    and app: "apply_file_answer sha False path d st = (st', Inr ())"
    and n: "n \<in> set (fg_nodes g)" and core: "\<forall>l k. wn_id n \<noteq> container_id sha l k"
  shows "node_at st' (wn_id n) = Some (node_row (node_record n))"
proof -
  let ?h = "case prev of None \<Rightarrow> default_FileGraph | Some h \<Rightarrow> h"
  define sd where "sd = fst (to_storage_diff d default_PathWarnings)"
  define w where "w = widen path (file_scope False sd (fd_complete d)) st sd"
  have kh: "keyed wn_id (fg_nodes ?h)" using g0 by (cases prev) (simp_all add: default_FileGraph_def)
  have kg: "keyed wn_id (fg_nodes g)" using g by (simp add: well_formed_graph_def)
  have up: "set (fd_upsert_nodes d) = set (fg_nodes g) - set (fg_nodes ?h)" "keyed wn_id (fd_upsert_nodes d)"
    and del: "set (fd_delete_node_ids d) = wn_id ` (set (fg_nodes ?h) - set (fg_nodes g))"
    and co: "fd_complete d \<longleftrightarrow> prev = None"
    by (simp_all add: d diff_file_def Let_def set_changed_against [OF kh] set_changed_against [OF kg] keyed_changed [OF kg])
  have wn: "upsert_nodes w = map node_record (fd_upsert_nodes d)" by (simp add: w_def sd_def)
  have "keyed nr_id (upsert_nodes w)" using up(2) by (simp add: wn keyed_def comp_def)
  note lu = last_upsert_keyed [OF this]
  have "apply_diff sha st w = (st', Inr ())" using app by (simp add: apply_file_answer_def w_def sd_def Let_def)
  with apply_diff_nodes [OF st _ core, of w] have at: "node_at st' (wn_id n) = node_map_after w (node_at st) (wn_id n)"
    by simp
  show ?thesis
  proof (cases "n \<in> set (fg_nodes ?h)")
    case False
    with n up have "last_upsert (upsert_nodes w) (wn_id n) = Some (node_record n)"
      unfolding lu by (simp add: wn)
    with at show ?thesis by (simp add: node_map_after_def)
  next
    case True
    then obtain h where h: "prev = Some h" by (cases prev) (auto simp: default_FileGraph_def)
    have other: "m = n" if "m \<in> set (fg_nodes g) \<or> m \<in> set (fg_nodes h)" "wn_id m = wn_id n" for m
      using that n True keyed_inj [OF kg] keyed_inj [OF kh] h by fastforce
    have "last_upsert (upsert_nodes w) (wn_id n) = None"
    proof (rule ccontr)
      assume "last_upsert (upsert_nodes w) (wn_id n) \<noteq> None"
      then obtain m where "m \<in> set (fd_upsert_nodes d)" "wn_id m = wn_id n" using lu by (auto simp: wn)
      with other up True h show False by auto
    qed
    moreover have "w = sd" using co h by (simp add: w_def widen_def file_scope_def)
    moreover have "wn_id n \<notin> set (fd_delete_node_ids d)" using n h by (auto simp: del) (metis other)
    ultimately show ?thesis using at prev [OF h] True h by (simp add: node_map_after_def sd_def)
  qed
qed

definition file_rows :: "store \<Rightarrow> string \<Rightarrow> NodeRow set" where
  "file_rows st p = {r \<in> set (nodes st). n_filePath r = p}"

lemma keyed_node_at: "keyed n_id (nodes st) \<Longrightarrow> r \<in> set (nodes st) \<Longrightarrow> node_at st (n_id r) = Some r"
  unfolding node_at_def using select_by_Some by fastforce


text \<open>
  C9. One \<^verbatim>\<open>fileChanged\<close> round trip of a file that exists carries the new extraction into the index
  unchanged, whether the plugin answers with a complete or an incremental diff: if the file's rows
  were those of the baseline, they are afterwards exactly those of the extraction the session now
  holds as its baseline.
\<close>

theorem file_change_round_trip:
  assumes "well_formed_extractor pl" and "entries_ok pl (se_index s)" and "keyed n_id (nodes st)"
    and "indexed_spelling dk s path = None"
    and "file_changed pl dk s path re = (s', d)"
    and "apply_file_answer sha False path d st = (st', Inr ())"
    and "\<forall>h. baseline (se_index s) path = Some h \<longrightarrow> file_rows st path = wire_rows (fg_nodes h)"
    and "baseline (se_index s') path = Some g"
    and "\<forall>n\<in>set (fg_nodes g). \<forall>l k. wn_id n \<noteq> container_id sha l k"
  shows "file_rows st' path = wire_rows (fg_nodes g)"
proof -
  have ch: "file_changed_as pl dk s path re = (s', d)" using assms(4,5) by (simp add: file_changed_def)
  then show ?thesis
  proof (cases rule: file_changed_as_cases)
    case same
    have "apply_file_answer sha False path d st = (st, Inr ())"
      by (subst same(2)) (simp add: apply_file_answer_def default_FileChangeDiff_def file_scope_def widen_def
          apply_diff_def diff_is_empty_def Let_def)
    with assms(6) have "st' = st" by simp
    with same assms(7,8) show ?thesis by simp
  next
    case gone
    with assms(8) show ?thesis by simp
  next
    case (extracted project src g')
    with assms(8) have g: "g' = g" by simp
    note wf = well_formed_extract_caught [OF assms(1) extracted(2), unfolded g]
    have fresh: "\<forall>h r. baseline (se_index s) path = Some h \<longrightarrow> r \<in> set (nodes st) \<longrightarrow> n_filePath r = path \<longrightarrow>
        n_id r \<in> {} \<or> r \<in> wire_rows (fg_nodes h)"
      using assms(7) by (auto simp: file_rows_def)
    note k = diff_keeps_fresh [OF assms(2) claims_not_Nil [OF extracted(1)] fresh wf extracted(4) [unfolded g] _ assms(6)]
    have "file_rows st' path \<subseteq> wire_rows (fg_nodes g)" using k(1) by (auto simp: file_rows_def)
    moreover have "node_row (node_record n) \<in> file_rows st' path" if n: "n \<in> set (fg_nodes g)" for n
    proof -
      have stored: "node_at st (wn_id m) = Some (node_row (node_record m))"
        if "baseline (se_index s) path = Some h" "m \<in> set (fg_nodes h)" for h m
      proof -
        have "node_row (node_record m) \<in> set (nodes st)"
          using that assms(7) by (auto simp: file_rows_def wire_rows_def)
        from keyed_node_at [OF assms(3) this] show ?thesis by simp
      qed
      have kh: "keyed wn_id (fg_nodes h)" if "baseline (se_index s) path = Some h" for h
        using that assms(2) by (auto simp: entries_ok_def baseline_def well_formed_graph_def split: option.splits if_splits)
      have "node_at st' (wn_id n) = Some (node_row (node_record n))"
        by (rule answer_stores_nodes [OF assms(3) wf kh stored extracted(4) [unfolded g] assms(6) n]) (use n assms(9) in auto)
      then have "node_row (node_record n) \<in> set (nodes st')" by (auto simp: node_at_def select_by_def dest: find_in)
      then show ?thesis using wf n by (auto simp: file_rows_def well_formed_graph_def own_nodes_def)
    qed
    ultimately show ?thesis by (auto simp: wire_rows_def)
  qed
qed

section \<open>Concrete runs\<close>

text \<open>
  An extractor that finds the declarations \<open>a\<close> and \<open>b\<close> in the text \<open>2\<close> and only \<open>a\<close> in any other text.
\<close>

definition sample_wire_node :: "RelPath \<Rightarrow> string \<Rightarrow> WireNode" where
  "sample_wire_node p i =
     \<lparr>wn_id = i, wn_kind = NK_Function, wn_name = i, wn_qualified_name = i, wn_file_path = p,
      wn_range = \<lparr>range_start = \<lparr>line = 0, col = 0\<rparr>, range_end = \<lparr>line = 0, col = 1\<rparr>\<rparr>,
      wn_signature = None, wn_visibility = V_Public, wn_doc_comment = None, wn_language = ''x'',
      wn_native_kind = None, wn_has_syntax_errors = False, wn_declarations = None, wn_container = None,
      wn_container_parent = None, wn_target = None, wn_qualified_path = None, wn_alias_paths = [],
      wn_untyped_calls = [], wn_generated = False\<rparr>"

definition sample_graph :: "RelPath \<Rightarrow> string \<Rightarrow> FileGraph" where
  "sample_graph p src =
     \<lparr>fg_nodes = map (sample_wire_node p) (if src = ''2'' then [''a'', ''b''] else [''a'']), fg_edges = [],
      fg_open_sites = []\<rparr>"

definition sample_extractor :: "unit Extractor" where
  "sample_extractor =
     \<lparr>ex_extract = \<lambda>_ p src. Some (sample_graph p src), ex_presence = \<lambda>pr _ _. pr,
      ex_source_changed = \<lambda>pr _ _. (pr, Some None), ex_facts = \<lambda>_. Some None,
      ex_watch_paths = \<lambda>_. Some [], ex_delta = \<lambda>_ _. Some Unchanged\<rparr>"

definition sample_engine :: "unit EngineOps" where
  "sample_engine =
     \<lparr>en_answer = \<lambda>e _ _. (e, Inr (answer_complete default_FileChangeDiff)),
      en_workspace_changed = \<lambda>e. e, en_prepare = \<lambda>e. e, en_set_deadline = \<lambda>e _. e\<rparr>"

definition sample_plugin :: "(unit, unit) Plugin" where
  "sample_plugin =
     \<lparr>pl_extractor = sample_extractor, pl_engine = sample_engine, pl_extensions = [''.x''], pl_lower = \<lambda>s. s\<rparr>"

text \<open>A disk with the one file \<open>m.x\<close>, also reachable through the link \<open>l.x\<close>.\<close>

definition sample_disk :: "string \<Rightarrow> unit Disk" where
  "sample_disk src =
     \<lparr>dk_load = Inr (), dk_read = \<lambda>p. if p = ''m.x'' \<or> p = ''l.x'' then Some src else None,
      dk_real = \<lambda>p. if p = ''l.x'' then Some ''m.x'' else Some p, dk_walk = [''m.x'']\<rparr>"

lemma sample_plugin_well_formed: "well_formed_extractor sample_plugin"
  by (auto simp: well_formed_extractor_def sample_plugin_def sample_extractor_def well_formed_graph_def
      own_nodes_def keyed_def sample_graph_def sample_wire_node_def ordinals_distinct_def)

definition sample_change ::
  "string \<Rightarrow> string \<Rightarrow> (unit, unit) Session \<times> store \<Rightarrow> (unit, unit) Session \<times> store" where
  "sample_change path src x =
     (let (s', d) = file_changed sample_plugin (sample_disk src) (fst x) path False
      in (s', fst (apply_file_answer rev False path d (snd x))))"

definition sample_started :: "(unit, unit) Session \<times> store" where
  "sample_started = (new_Session (sample_disk ''2'') (Some (Inr ())), empty_store)"

lemma sample_change_step:
  assumes "rel_path path = path"
    and "\<And>real. indexed_spelling (sample_disk src) s path = Some real \<Longrightarrow> baseline (se_index s) real \<noteq> None"
    and "snd (apply_file_answer rev False path (snd (file_changed sample_plugin (sample_disk src) s path False)) st) = Inr ()"
  shows "sync_step sample_plugin rev (s, st, S)
    (fst (sample_change path src (s, st)), snd (sample_change path src (s, st)), S)"
proof -
  obtain s' d where c: "file_changed sample_plugin (sample_disk src) s path False = (s', d)" by fastforce
  obtain st' where a: "apply_file_answer rev False path d st = (st', Inr ())" using assms(3) c by (metis prod.collapse snd_conv)
  have "handle sample_plugin (sample_disk src) s True (FileChangedReq path False) = (s', Some (DiffResponse d))"
    using c assms(1) by (simp add: handle_def)
  from sync_file_changed [OF assms(1,2) this a] c a show ?thesis by (simp add: sample_change_def)
qed

definition sample_once :: "(unit, unit) Session \<times> store" where
  "sample_once = sample_change ''m.x'' ''2'' sample_started"

definition sample_twice :: "(unit, unit) Session \<times> store" where
  "sample_twice = sample_change ''m.x'' ''1'' sample_once"

lemma sample_spelled: "indexed_spelling (sample_disk src) s ''m.x'' = None"
  by (simp add: indexed_spelling_def real_spelling_def sample_disk_def)

lemma sample_run_twice:
  "(sync_step sample_plugin rev)\<^sup>*\<^sup>* (new_Session (sample_disk ''2'') (Some (Inr ())), empty_store, {})
     (fst sample_twice, snd sample_twice, {})"
proof -
  have rp: "rel_path ''m.x'' = ''m.x''" by code_simp
  have a1: "snd (apply_file_answer rev False ''m.x''
      (snd (file_changed sample_plugin (sample_disk ''2'') (fst sample_started) ''m.x'' False)) (snd sample_started)) = Inr ()"
    by code_simp
  have a2: "snd (apply_file_answer rev False ''m.x''
      (snd (file_changed sample_plugin (sample_disk ''1'') (fst sample_once) ''m.x'' False)) (snd sample_once)) = Inr ()"
    by code_simp
  have "sync_step sample_plugin rev (fst sample_started, snd sample_started, {}) (fst sample_once, snd sample_once, {})"
    using sample_change_step [OF rp _ a1] by (simp add: sample_spelled sample_once_def)
  moreover have "sync_step sample_plugin rev (fst sample_once, snd sample_once, {}) (fst sample_twice, snd sample_twice, {})"
    using sample_change_step [OF rp _ a2] by (simp add: sample_spelled sample_twice_def)
  ultimately show ?thesis by (simp add: sample_started_def)
qed


theorem file_change_round_trip_witness:
  "file_rows (snd sample_once) ''m.x'' = wire_rows (fg_nodes (sample_graph ''m.x'' ''2''))"
proof -
  have e: "entries_ok sample_plugin (se_index (fst sample_started))"
    by (simp add: sample_started_def new_Session_def entries_ok_def)
  have k: "keyed n_id (nodes (snd sample_started))" by (simp add: sample_started_def empty_store_def)
  have c: "file_changed sample_plugin (sample_disk ''2'') (fst sample_started) ''m.x'' False =
      (fst sample_once, snd (file_changed sample_plugin (sample_disk ''2'') (fst sample_started) ''m.x'' False))"
    by (simp add: sample_once_def sample_change_def split: prod.splits)
  have "snd (apply_file_answer rev False ''m.x''
      (snd (file_changed sample_plugin (sample_disk ''2'') (fst sample_started) ''m.x'' False)) (snd sample_started)) = Inr ()"
    by code_simp
  then have a: "apply_file_answer rev False ''m.x''
      (snd (file_changed sample_plugin (sample_disk ''2'') (fst sample_started) ''m.x'' False)) (snd sample_started) =
      (snd sample_once, Inr ())"
    by (simp add: sample_once_def sample_change_def case_prod_beta prod_eq_iff)
  have h: "\<forall>h. baseline (se_index (fst sample_started)) ''m.x'' = Some h \<longrightarrow>
      file_rows (snd sample_started) ''m.x'' = wire_rows (fg_nodes h)"
    by (simp add: sample_started_def new_Session_def)
  have b: "baseline (se_index (fst sample_once)) ''m.x'' = Some (sample_graph ''m.x'' ''2'')" by code_simp
  have "[c] \<noteq> container_id rev l k" for c and l k :: string
  proof
    assume "[c] = container_id rev l k"
    then have "length [c] = length (container_id rev l k)" by (rule arg_cong)
    then show False by (simp add: container_id_def hex16_length)
  qed
  then have "\<forall>n\<in>set (fg_nodes (sample_graph ''m.x'' ''2'')). \<forall>l k. wn_id n \<noteq> container_id rev l k"
    by (auto simp: sample_graph_def sample_wire_node_def)
  from file_change_round_trip [OF sample_plugin_well_formed e k sample_spelled c a h b this] show ?thesis .
qed

text \<open>A session that has hydrated the file in a semantic pass, beside the index of an earlier session.\<close>

definition sample_restarted :: "(unit, unit) Session \<times> store" where
  "sample_restarted =
     (fst (semantic_pass sample_plugin (sample_disk ''2'') None [] []
        (new_Session (sample_disk ''2'') (Some (Inr ())))), snd sample_once)"


end
