(* ===== verification/Embed_Text.thy ===== *)
theory Embed_Text
  imports Queries Generated_Header
begin

text \<open>
  \<^verbatim>\<open>core/src/embedding/text.rs\<close>: the text a node is embedded from. A doc comment is cut to its
  summary, its headings and its short paragraphs; generated and name-only nodes have no text.
  Strings are UTF-8 bytes, so a whitespace character of Unicode is one of the byte sequences
  \<open>whitespace_chars\<close>.
\<close>

section \<open>String operations\<close>

definition whitespace_chars :: "string list" where
  "whitespace_chars =
     [[CHR 0x20], [CHR 0x0A], [CHR 0x09], [CHR 0x0D], [CHR 0x0B], [CHR 0x0C],
      [CHR 0xC2, CHR 0x85], [CHR 0xC2, CHR 0xA0], [CHR 0xE1, CHR 0x9A, CHR 0x80],
      [CHR 0xE2, CHR 0x80, CHR 0x80], [CHR 0xE2, CHR 0x80, CHR 0x81], [CHR 0xE2, CHR 0x80, CHR 0x82],
      [CHR 0xE2, CHR 0x80, CHR 0x83], [CHR 0xE2, CHR 0x80, CHR 0x84], [CHR 0xE2, CHR 0x80, CHR 0x85],
      [CHR 0xE2, CHR 0x80, CHR 0x86], [CHR 0xE2, CHR 0x80, CHR 0x87], [CHR 0xE2, CHR 0x80, CHR 0x88],
      [CHR 0xE2, CHR 0x80, CHR 0x89], [CHR 0xE2, CHR 0x80, CHR 0x8A], [CHR 0xE2, CHR 0x80, CHR 0xA8],
      [CHR 0xE2, CHR 0x80, CHR 0xA9], [CHR 0xE2, CHR 0x80, CHR 0xAF], [CHR 0xE2, CHR 0x81, CHR 0x9F],
      [CHR 0xE3, CHR 0x80, CHR 0x80]]"

function drop_chars :: "string list \<Rightarrow> string \<Rightarrow> string" where
  "drop_chars cs s =
     (case find (\<lambda>c. c \<noteq> [] \<and> starts_with s c) cs of
        None \<Rightarrow> s
      | Some c \<Rightarrow> drop_chars cs (drop (length c) s))"
  by pat_completeness auto
termination
  by (relation "measure (length \<circ> snd)") (auto simp: str_simps dest!: find_in)

declare drop_chars.simps [simp del]

definition trim_start :: "string \<Rightarrow> string" where
  "trim_start s = drop_chars whitespace_chars s"

definition trim_end :: "string \<Rightarrow> string" where
  "trim_end s = rev (drop_chars (map rev whitespace_chars) (rev s))"

definition trim :: "string \<Rightarrow> string" where
  "trim s = trim_end (trim_start s)"

definition contains_whitespace :: "string \<Rightarrow> bool" where
  "contains_whitespace s = list_ex (contains_sub s) whitespace_chars"

definition ends_with :: "string \<Rightarrow> string \<Rightarrow> bool" where
  "ends_with s suffix = starts_with (rev s) (rev suffix)"

section \<open>Doc comments\<close>

definition SHORT_PARAGRAPH_CHARS :: nat where
  "SHORT_PARAGRAPH_CHARS = 200"

definition DROPPED_SECTIONS :: "string list" where
  "DROPPED_SECTIONS =
     [''arguments'', ''args'', ''parameters'', ''params'', ''returns'', ''return'', ''errors'',
      ''panics'', ''raises'', ''throws'', ''yields'', ''examples'', ''example'', ''usage'']"

definition heading_level :: "string \<Rightarrow> nat option" where
  "heading_level l =
     (let level = length (takeWhile (\<lambda>b. b = CHR ''#'') l); rest = drop level l
      in if 1 \<le> level \<and> level \<le> 6 \<and> starts_with rest '' '' \<and> trim rest \<noteq> [] then Some level else None)"

definition heading_text :: "string \<Rightarrow> string" where
  "heading_text l = trim (dropWhile (\<lambda>b. b = CHR ''#'') l)"

definition is_dropped_name :: "string \<Rightarrow> bool" where
  "is_dropped_name name \<longleftrightarrow>
     to_ascii_lowercase (trim (trim_end_matches (\<lambda>b. b = CHR '':'') (trim name))) \<in> set DROPPED_SECTIONS"

definition is_label_line :: "string \<Rightarrow> bool" where
  "is_label_line l \<longleftrightarrow> ends_with (trim l) '':'' \<and> is_dropped_name (trim l)"

definition is_list_item :: "string \<Rightarrow> bool" where
  "is_list_item l \<longleftrightarrow>
     (let t = trim_start l in
      starts_with t ''- '' \<or> starts_with t ''* '' \<or> starts_with t ''+ '' \<or>
      (let digits = length (takeWhile is_ascii_digit t)
       in digits > 0 \<and> (starts_with (drop digits t) ''. '' \<or> starts_with (drop digits t) '') '')))"

definition is_code :: "string list \<Rightarrow> bool" where
  "is_code block \<longleftrightarrow>
     starts_with (trim_start (block ! 0)) ''>>>'' \<or>
     (\<not> is_list_item (block ! 0) \<and>
      list_all (\<lambda>l. starts_with l [CHR 0x09] \<or> starts_with l ''    '') (filter (\<lambda>l. trim l \<noteq> []) block))"

definition is_tag_line :: "string \<Rightarrow> bool" where
  "is_tag_line l =
     (case trim_start l of
        [] \<Rightarrow> False
      | c # rest \<Rightarrow>
          if c = CHR ''@'' then (case rest of [] \<Rightarrow> False | d # _ \<Rightarrow> is_ascii_alphabetic d)
          else if c = CHR '':''
          then (let name = length (takeWhile is_ascii_alphabetic rest)
                in name > 0 \<and> contains_sub (drop name rest) '':'')
          else False)"

definition strip_either :: "string \<Rightarrow> string \<Rightarrow> string \<Rightarrow> string" where
  "strip_either a b t =
     (case strip_prefix a t of
        Some r \<Rightarrow> r
      | None \<Rightarrow> (case strip_prefix b t of Some r \<Rightarrow> r | None \<Rightarrow> t))"

definition strip_angles :: "string \<Rightarrow> string" where
  "strip_angles t =
     (case strip_prefix ''<'' t of
        None \<Rightarrow> t
      | Some s \<Rightarrow> if ends_with s ''>'' then butlast s else t)"

definition is_bare_url :: "string \<Rightarrow> bool" where
  "is_bare_url t \<longleftrightarrow>
     (starts_with t ''https://'' \<or> starts_with t ''http://'') \<and> \<not> contains_whitespace t"

definition is_link_only :: "string \<Rightarrow> bool" where
  "is_link_only l =
     (let t = trim l;
          url = is_bare_url (strip_angles (trim (strip_either ''See:'' ''See '' t)))
      in if starts_with t ''[''
         then (case match_indices t '']:'' of
                 at # _ \<Rightarrow> (let target = trim (drop (at + 2) t)
                            in at > 1 \<and> target \<noteq> [] \<and> \<not> contains_whitespace target)
               | [] \<Rightarrow> url)
         else url)"

definition fence_marker :: "string \<Rightarrow> string option" where
  "fence_marker trimmed = find (\<lambda>m. starts_with trimmed m) [''```'', ''~~~'']"

definition flush :: "'a list \<Rightarrow> 'a list list" where
  "flush current = (if current = [] then [] else [current])"

fun paragraphs_loop :: "string list \<Rightarrow> string list \<Rightarrow> string option \<Rightarrow> string list list" where
  "paragraphs_loop [] current fence = flush current"
| "paragraphs_loop (l # ls) current (Some marker) =
     paragraphs_loop ls current (if starts_with (trim_start l) marker then None else Some marker)"
| "paragraphs_loop (l # ls) current None =
     (case fence_marker (trim_start l) of
        Some marker \<Rightarrow> flush current @ paragraphs_loop ls [] (Some marker)
      | None \<Rightarrow>
          if heading_level l \<noteq> None then flush current @ [l] # paragraphs_loop ls [] None
          else if trim l = [] then flush current @ paragraphs_loop ls [] None
          else paragraphs_loop ls (current @ [l]) None)"

definition paragraphs :: "string \<Rightarrow> string list list" where
  "paragraphs doc = paragraphs_loop (lines_of doc) [] None"

definition prose :: "string list \<Rightarrow> string" where
  "prose block =
     trim (join_with [CHR 0x0A] (filter (\<lambda>l. \<not> is_link_only l) (takeWhile (\<lambda>l. \<not> is_tag_line l) block)))"

fun structured_loop :: "string list list \<Rightarrow> bool \<Rightarrow> nat option \<Rightarrow> string list" where
  "structured_loop [] have_summary skipping = []"
| "structured_loop (block # blocks) have_summary skipping =
     (case heading_level (block ! 0) of
        Some level \<Rightarrow>
          if (case skipping of None \<Rightarrow> False | Some skip \<Rightarrow> level > skip)
          then structured_loop blocks have_summary skipping
          else if is_dropped_name (heading_text (block ! 0))
          then structured_loop blocks have_summary (Some level)
          else trim (block ! 0) # structured_loop blocks have_summary None
      | None \<Rightarrow>
          if skipping \<noteq> None \<or> is_label_line (block ! 0) \<or> is_code block
          then structured_loop blocks have_summary skipping
          else let t = prose block in
               if t = [] then structured_loop blocks have_summary skipping
               else if \<not> have_summary \<or> char_count t \<le> SHORT_PARAGRAPH_CHARS
               then t # structured_loop blocks True skipping
               else structured_loop blocks True skipping)"

definition structured_doc :: "string \<Rightarrow> string" where
  "structured_doc doc =
     join_with [CHR 0x0A, CHR 0x0A] (structured_loop (paragraphs (trim doc)) False None)"

section \<open>What a node is embedded from\<close>

definition non_blank :: "string option \<Rightarrow> string option" where
  "non_blank t = (case t of None \<Rightarrow> None | Some s \<Rightarrow> if trim s = [] then None else Some (trim s))"

definition full_text :: "string option \<Rightarrow> string option \<Rightarrow> string option" where
  "full_text doc_comment signature =
     (case (non_blank doc_comment, non_blank signature) of
        (Some doc, Some sig) \<Rightarrow> Some (doc @ [CHR 0x0A, CHR 0x0A] @ sig)
      | (Some doc, None) \<Rightarrow> Some doc
      | (None, Some sig) \<Rightarrow> Some sig
      | (None, None) \<Rightarrow> None)"

definition text_to_embed :: "string option \<Rightarrow> string option \<Rightarrow> string option" where
  "text_to_embed doc_comment signature =
     (case full_text (map_option structured_doc doc_comment) signature of
        Some t \<Rightarrow> Some t
      | None \<Rightarrow> full_text doc_comment signature)"

record EmbedInput =
  ei_kind :: string
  ei_name :: string
  ei_qualified_name :: string
  ei_file_path :: string
  ei_doc :: "string option"
  ei_signature :: "string option"
  ei_generated :: bool

definition NOISE_RULE_VERSION :: string where
  "NOISE_RULE_VERSION = ''1''"

definition SIGNATURE_KEYWORDS :: "string list" where
  "SIGNATURE_KEYWORDS =
     [''pub'', ''crate'', ''super'', ''in'', ''fn'', ''mod'', ''const'', ''static'', ''struct'',
      ''enum'', ''func'', ''def'', ''async'', ''let'', ''export'', ''self'', ''mut'', ''var'',
      ''type'', ''impl'', ''unsafe'', ''extern'']"

definition word_start :: "char \<Rightarrow> bool" where
  "word_start c \<longleftrightarrow> is_ascii_alphabetic c \<or> c = CHR ''_''"

definition word_byte :: "char \<Rightarrow> bool" where
  "word_byte c \<longleftrightarrow> is_ascii_alphanumeric c \<or> c = CHR ''_''"

function count_identifiers :: "string \<Rightarrow> nat \<Rightarrow> nat" where
  "count_identifiers [] seen = seen"
| "count_identifiers (b # bs) seen =
     (if 2 \<le> seen then seen
      else if word_start b
      then (let word = to_ascii_lowercase (b # takeWhile word_byte bs)
            in count_identifiers (dropWhile word_byte bs)
                 (if word \<in> set SIGNATURE_KEYWORDS then seen else seen + 1))
      else count_identifiers bs seen)"
  by pat_completeness auto
termination
  by (relation "measure (length \<circ> fst)") (auto simp: le_imp_less_Suc length_dropWhile_le)

definition signature_identifiers :: "string \<Rightarrow> nat" where
  "signature_identifiers signature = count_identifiers signature 0"

text \<open>\<^verbatim>\<open>rsplit_once('/')\<close>: the part before the last slash and the part after it.\<close>

definition rsplit_slash :: "string \<Rightarrow> string \<times> string" where
  "rsplit_slash path =
     (if CHR ''/'' \<in> set path
      then (let parts = split_on (CHR ''/'') path in (join_with ''/'' (butlast parts), last parts))
      else ([], path))"

definition is_test_path :: "string \<Rightarrow> bool" where
  "is_test_path path \<longleftrightarrow>
     (let (dirs, file) = rsplit_slash path in
      list_ex (\<lambda>dir. dir \<in> {''test'', ''tests'', ''__tests__'', ''testdata''}) (split_on (CHR ''/'') dirs) \<or>
      ends_with file ''_test.go'' \<or> ends_with file ''_test.rs'' \<or> ends_with file ''_tests.rs'' \<or>
      (starts_with file ''test_'' \<and> ends_with file ''.py'') \<or>
      list_ex (\<lambda>ext. ends_with file (''.test.'' @ ext) \<or> ends_with file (''.spec.'' @ ext))
        [''js'', ''jsx'', ''ts'', ''tsx''])"

definition is_test :: "EmbedInput \<Rightarrow> bool" where
  "is_test i \<longleftrightarrow>
     is_test_path (ei_file_path i) \<or> starts_with (ei_name i) ''test'' \<or> starts_with (ei_name i) ''Test'' \<or>
     contains_sub (ei_qualified_name i) ''::tests::'' \<or> starts_with (ei_qualified_name i) ''tests::''"

definition is_noise :: "EmbedInput \<Rightarrow> bool" where
  "is_noise i =
     (if (case ei_doc i of None \<Rightarrow> False | Some doc \<Rightarrow> trim doc \<noteq> []) then False
      else (case ei_signature i of
              None \<Rightarrow> False
            | Some signature \<Rightarrow>
                if trim signature = [] then False
                else if signature_identifiers signature > 1 then False
                else ei_kind i = ''Module'' \<or> is_test i))"

definition node_text :: "EmbedInput \<Rightarrow> string option" where
  "node_text i =
     (if ei_generated i \<or> is_noise i then None else text_to_embed (ei_doc i) (ei_signature i))"

datatype EmbedTier = Public | Private | Test

definition EmbedTier_as_str :: "EmbedTier \<Rightarrow> string" where
  "EmbedTier_as_str t = (case t of Public \<Rightarrow> ''public'' | Private \<Rightarrow> ''private'' | Test \<Rightarrow> ''test'')"

definition embed_tier :: "EmbedInput \<Rightarrow> string \<Rightarrow> EmbedTier" where
  "embed_tier i visibility =
     (if is_test i then Test else if visibility = ''public'' then Public else Private)"

section \<open>When a node has a text\<close>

lemma drop_chars_Nil [simp]: "drop_chars cs [] = []"
proof -
  have "find (\<lambda>c. c \<noteq> [] \<and> starts_with [] c) cs = None" by (auto simp: find_None_iff str_simps)
  then show ?thesis by (simp add: drop_chars.simps)
qed

lemma trim_Nil [simp]: "trim [] = []"
  by (simp add: trim_def trim_start_def trim_end_def)

lemma structured_doc_blank: "trim doc = [] \<Longrightarrow> structured_doc doc = []"
  by (simp add: structured_doc_def paragraphs_def lines_of_def flush_def)

lemma full_text_None: "full_text doc signature = None \<longleftrightarrow> non_blank doc = None \<and> non_blank signature = None"
  by (simp add: full_text_def split: option.split)

text \<open>
  A node that is neither generated nor noise has a text exactly when its doc comment or its
  signature is not blank, even when the comment is all code and trims to nothing.
\<close>

lemma text_to_embed_None:
  "text_to_embed doc signature = None \<longleftrightarrow> non_blank doc = None \<and> non_blank signature = None"
  by (auto simp: text_to_embed_def full_text_None non_blank_def structured_doc_blank split: option.splits if_splits)

end
