(* ===== verification/Ledger.thy ===== *)
theory Ledger
  imports Store
begin

text \<open>
  \<^verbatim>\<open>core/src/storage/schema.rs\<close>: the bookkeeping tables beside the graph. \<open>ledger\<close> holds them, one
  row list per table; \<open>meta\<close> is \<open>None\<close> while the table does not exist and \<open>Some None\<close> while it has
  no row. \<^verbatim>\<open>CURRENT_TIMESTAMP\<close> and \<^verbatim>\<open>strftime(..., 'now')\<close> are the argument \<open>now\<close>. A statement that
  fails (a full disk, a locked file) is not modelled, so the savepoints of \<^verbatim>\<open>in_savepoint\<close> always
  release; the failures the code decides itself are values of \<open>ledger_error\<close>. Reads that first ask
  \<^verbatim>\<open>sqlite_master\<close> whether their table exists take the answer as an argument.
\<close>

section \<open>Tables\<close>

record LanguageStateRow =
  ls_language :: string
  ls_bulkIndexedAt :: "string option"
  ls_semanticPassAt :: "string option"
  ls_pluginFingerprint :: "string option"
  ls_semanticPassError :: "string option"

record LanguageOutcomeRow =
  lo_language :: string
  lo_outcome :: string
  lo_files :: "int option"
  lo_error :: "string option"
  lo_recordedAt :: string

record LanguageRetryRow =
  lr_language :: string
  lr_retries :: int
  lr_lastRetryAt :: string

record MetaRow =
  m_schema_version :: string
  m_indexer_version :: string
  m_embedding_model :: "string option"
  m_lastUsed :: string
  m_bulkIndexedAt :: "string option"
  m_semanticPassAt :: "string option"

record PendingReindexRow =
  pr_language :: string
  pr_trigger :: string
  pr_startedAt :: string

record ReextractOwedRow =
  ro_language :: string
  ro_filePath :: string
  ro_trigger :: string

record SemanticOwedRow =
  so_language :: string
  so_filePath :: string
  so_attempts :: int

record SemanticResidualRow =
  sr_language :: string
  sr_since :: string
  sr_reason :: string

record SeedOriginRow =
  sd_sourceRoot :: string
  sd_sourceBulkIndexedAt :: string
  sd_seededAt :: string
  sd_reconciledAt :: "string option"

text \<open>
  Rows of two columns are pairs in column order: \<open>semantic_pending\<close> is (language, since), the
  pending and gap files are (language, filePath), the facts (language, facts) and the watch paths
  (path, language). The noise purge is (ruleVersion, purgedAt).
\<close>

record ledger =
  meta :: "MetaRow option option"
  language_state :: "LanguageStateRow list"
  language_outcome :: "LanguageOutcomeRow list"
  language_retry :: "LanguageRetryRow list"
  pending_reindex :: "PendingReindexRow list"
  reextract_owed_files :: "ReextractOwedRow list"
  semantic_pending :: "(string \<times> string) list"
  semantic_pending_files :: "(string \<times> string) list"
  semantic_owed_files :: "SemanticOwedRow list"
  resolution_facts :: "(string \<times> string) list"
  resolution_watch_paths :: "(string \<times> string) list"
  semantic_residual :: "SemanticResidualRow list"
  semantic_gap_files :: "(string \<times> string) list"
  seed_origin :: "SeedOriginRow option"
  embedding_noise_purge :: "(string \<times> string) option"

datatype ledger_error = UnreadableIndex | UnknownOutcome string string | NoSeedSource

text \<open>The key of a table keyed by (language, filePath), and the update clauses.\<close>

definition ro_key :: "ReextractOwedRow \<Rightarrow> string \<times> string" where
  "ro_key r = (ro_language r, ro_filePath r)"

definition so_key :: "SemanticOwedRow \<Rightarrow> string \<times> string" where
  "so_key r = (so_language r, so_filePath r)"

definition take_new :: "'r \<Rightarrow> 'r \<Rightarrow> 'r" where
  "take_new old new = new"

section \<open>Versions\<close>

definition CURRENT_SCHEMA_VERSION :: string where
  "CURRENT_SCHEMA_VERSION = ''17''"

definition empty_ledger :: ledger where
  "empty_ledger =
     \<lparr>meta = None, language_state = [], language_outcome = [], language_retry = [],
      pending_reindex = [], reextract_owed_files = [], semantic_pending = [],
      semantic_pending_files = [], semantic_owed_files = [], resolution_facts = [],
      resolution_watch_paths = [], semantic_residual = [], semantic_gap_files = [],
      seed_origin = None, embedding_noise_purge = None\<rparr>"

text \<open>
  The DDL only creates what is missing; a missing table of this record other than \<open>meta\<close> is the
  empty list already.
\<close>

definition apply_ddl :: "ledger \<Rightarrow> ledger" where
  "apply_ddl l = l\<lparr>meta := (case meta l of None \<Rightarrow> Some None | Some m \<Rightarrow> Some m)\<rparr>"

definition record_version :: "string \<Rightarrow> string \<Rightarrow> ledger \<Rightarrow> ledger" where
  "record_version now indexer_version l =
     l\<lparr>meta := Some (Some \<lparr>m_schema_version = CURRENT_SCHEMA_VERSION,
        m_indexer_version = indexer_version, m_embedding_model = None, m_lastUsed = now,
        m_bulkIndexedAt = None, m_semanticPassAt = None\<rparr>)\<rparr>"

text \<open>\<^verbatim>\<open>wipe\<close> drops every table it names, and it names all but \<^verbatim>\<open>reextract_owed_files\<close>.\<close>

definition wipe :: "store \<times> ledger \<Rightarrow> store \<times> ledger" where
  "wipe db = (empty_store, empty_ledger\<lparr>reextract_owed_files := reextract_owed_files (snd db)\<rparr>)"

definition reset :: "string \<Rightarrow> string \<Rightarrow> store \<times> ledger \<Rightarrow> store \<times> ledger" where
  "reset now indexer_version db =
     (let (st, l) = wipe db in (st, record_version now indexer_version (apply_ddl l)))"

text \<open>
  \<open>ddl_ok\<close> is whether the DDL runs on a file whose \<^verbatim>\<open>schema_version\<close> could not be read: it does on a
  fresh file, and not on one of another program.
\<close>

definition ensure_current ::
  "bool \<Rightarrow> string \<Rightarrow> string \<Rightarrow> store \<times> ledger \<Rightarrow> (ledger_error + bool) \<times> store \<times> ledger" where
  "ensure_current ddl_ok now indexer_version db =
     (let (st, l) = db in
      case meta l of
        None \<Rightarrow>
          (if ddl_ok then (Inr True, st, record_version now indexer_version (apply_ddl l))
           else (Inl UnreadableIndex, db))
      | Some None \<Rightarrow> (Inr True, st, record_version now indexer_version l)
      | Some (Some m) \<Rightarrow>
          if m_schema_version m \<noteq> CURRENT_SCHEMA_VERSION
          then (Inr True, reset now indexer_version db)
          else let l1 = apply_ddl l
               in if m_indexer_version m \<noteq> indexer_version
                  then (Inr True, reset now indexer_version (st, l1))
                  else (Inr False, st, l1))"

definition stored_generation :: "ledger \<Rightarrow> (string \<times> string) option" where
  "stored_generation l =
     (case meta l of Some (Some m) \<Rightarrow> Some (m_schema_version m, m_indexer_version m) | _ \<Rightarrow> None)"

definition update_meta :: "(MetaRow \<Rightarrow> MetaRow) \<Rightarrow> ledger \<Rightarrow> ledger" where
  "update_meta f l = l\<lparr>meta := map_option (map_option f) (meta l)\<rparr>"

definition set_embedding_model :: "string \<Rightarrow> ledger \<Rightarrow> ledger" where
  "set_embedding_model model l = update_meta (\<lambda>m. m\<lparr>m_embedding_model := Some model\<rparr>) l"

definition noise_purge_rule :: "ledger \<Rightarrow> string option" where
  "noise_purge_rule l = map_option fst (embedding_noise_purge l)"

definition record_noise_purge :: "string \<Rightarrow> string \<Rightarrow> ledger \<Rightarrow> ledger" where
  "record_noise_purge now rule l = l\<lparr>embedding_noise_purge := Some (rule, now)\<rparr>"

section \<open>Seeded indexes\<close>

definition record_seed_origin :: "string \<Rightarrow> string \<Rightarrow> ledger \<Rightarrow> ledger_error + ledger" where
  "record_seed_origin now source_root l0 =
     (let l = apply_ddl l0 in
      case meta l of
        Some (Some m) \<Rightarrow>
          (case m_bulkIndexedAt m of
             None \<Rightarrow> Inl NoSeedSource
           | Some at \<Rightarrow>
               Inr (l\<lparr>seed_origin := Some \<lparr>sd_sourceRoot = source_root, sd_sourceBulkIndexedAt = at,
                 sd_seededAt = now, sd_reconciledAt = None\<rparr>\<rparr>))
      | _ \<Rightarrow> Inl NoSeedSource)"

definition seed_pending :: "ledger \<Rightarrow> bool" where
  "seed_pending l \<longleftrightarrow> (case seed_origin l of None \<Rightarrow> False | Some s \<Rightarrow> sd_reconciledAt s = None)"

definition record_seed_reconciled :: "string \<Rightarrow> ledger \<Rightarrow> ledger" where
  "record_seed_reconciled now l =
     l\<lparr>seed_origin := map_option (\<lambda>s. s\<lparr>sd_reconciledAt := Some now\<rparr>) (seed_origin l)\<rparr>"

definition seed_source_root :: "ledger \<Rightarrow> string option" where
  "seed_source_root l = map_option sd_sourceRoot (seed_origin l)"

section \<open>Per-language state and the project roll-ups\<close>

definition bulk_index_completed :: "ledger \<Rightarrow> bool" where
  "bulk_index_completed l \<longleftrightarrow>
     (case meta l of Some (Some m) \<Rightarrow> m_bulkIndexedAt m \<noteq> None | _ \<Rightarrow> False)"

definition semantic_pass_completed :: "ledger \<Rightarrow> bool" where
  "semantic_pass_completed l \<longleftrightarrow>
     (case meta l of Some (Some m) \<Rightarrow> m_semanticPassAt m \<noteq> None | _ \<Rightarrow> False)"

definition present_languages :: "store \<Rightarrow> string list" where
  "present_languages st = remdups (map n_language (filter (\<lambda>n. n_kind n = ''File'') (nodes st)))"

definition state_of :: "ledger \<Rightarrow> string \<Rightarrow> LanguageStateRow option" where
  "state_of l language = select_by ls_language language (language_state l)"

definition language_semantic_pass_done :: "ledger \<Rightarrow> string \<Rightarrow> bool" where
  "language_semantic_pass_done l language \<longleftrightarrow>
     (case state_of l language of None \<Rightarrow> False | Some r \<Rightarrow> ls_semanticPassAt r \<noteq> None)"

definition present_languages_with_semantic_state :: "store \<Rightarrow> ledger \<Rightarrow> (string \<times> bool) list" where
  "present_languages_with_semantic_state st l =
     map (\<lambda>language. (language, language_semantic_pass_done l language)) (present_languages st)"

text \<open>The column is a parameter of the statement, as it is of the function.\<close>

definition every_present_language_has ::
  "store \<Rightarrow> ledger \<Rightarrow> (LanguageStateRow \<Rightarrow> string option) \<Rightarrow> bool" where
  "every_present_language_has st l column \<longleftrightarrow>
     list_all (\<lambda>language. case state_of l language of None \<Rightarrow> False | Some r \<Rightarrow> column r \<noteq> None)
       (present_languages st)"

definition blank_state :: "string \<Rightarrow> LanguageStateRow" where
  "blank_state language = \<lparr>ls_language = language, ls_bulkIndexedAt = None, ls_semanticPassAt = None,
     ls_pluginFingerprint = None, ls_semanticPassError = None\<rparr>"

definition merge_bulk_indexed :: "LanguageStateRow \<Rightarrow> LanguageStateRow \<Rightarrow> LanguageStateRow" where
  "merge_bulk_indexed old new =
     old\<lparr>ls_bulkIndexedAt := ls_bulkIndexedAt new,
       ls_pluginFingerprint :=
         (case ls_pluginFingerprint new of None \<Rightarrow> ls_pluginFingerprint old | Some f \<Rightarrow> Some f)\<rparr>"

definition merge_semantic_pass :: "LanguageStateRow \<Rightarrow> LanguageStateRow \<Rightarrow> LanguageStateRow" where
  "merge_semantic_pass old new =
     old\<lparr>ls_semanticPassAt := ls_semanticPassAt new, ls_semanticPassError := None\<rparr>"

definition merge_semantic_error :: "LanguageStateRow \<Rightarrow> LanguageStateRow \<Rightarrow> LanguageStateRow" where
  "merge_semantic_error old new = old\<lparr>ls_semanticPassError := ls_semanticPassError new\<rparr>"

definition record_language_bulk_indexed ::
  "string \<Rightarrow> string \<Rightarrow> string option \<Rightarrow> ledger \<Rightarrow> ledger" where
  "record_language_bulk_indexed now language plugin_fingerprint l =
     l\<lparr>language_state := upsert_by ls_language merge_bulk_indexed
        ((blank_state language)\<lparr>ls_bulkIndexedAt := Some now, ls_pluginFingerprint := plugin_fingerprint\<rparr>)
        (language_state l)\<rparr>"

definition record_bulk_index :: "string \<Rightarrow> store \<Rightarrow> ledger \<Rightarrow> ledger" where
  "record_bulk_index now st l =
     (if every_present_language_has st l ls_bulkIndexedAt
      then update_meta (\<lambda>m. m\<lparr>m_bulkIndexedAt := Some now\<rparr>) l
      else update_meta (\<lambda>m. m\<lparr>m_bulkIndexedAt := None\<rparr>) l)"

definition owed_semantic_pass_languages :: "store \<Rightarrow> ledger \<Rightarrow> string set \<Rightarrow> string list" where
  "owed_semantic_pass_languages st l semantic_pass_languages =
     sort (filter (\<lambda>language. language \<in> semantic_pass_languages \<and>
                     \<not> (case state_of l language of None \<Rightarrow> False | Some r \<Rightarrow> ls_semanticPassAt r \<noteq> None))
             (present_languages st))"

definition every_present_semantic_language_has_passed :: "store \<Rightarrow> ledger \<Rightarrow> string set \<Rightarrow> bool" where
  "every_present_semantic_language_has_passed st l semantic_pass_languages \<longleftrightarrow>
     owed_semantic_pass_languages st l semantic_pass_languages = []"

definition reconcile_semantic_pass_rollup ::
  "string \<Rightarrow> store \<Rightarrow> string set \<Rightarrow> ledger \<Rightarrow> ledger" where
  "reconcile_semantic_pass_rollup now st semantic_pass_languages l =
     (if every_present_semantic_language_has_passed st l semantic_pass_languages
      then update_meta (\<lambda>m. m\<lparr>m_semanticPassAt := Some now\<rparr>) l
      else update_meta (\<lambda>m. m\<lparr>m_semanticPassAt := None\<rparr>) l)"

section \<open>Outcomes of the walk and retries\<close>

datatype LanguageOutcome = Indexed nat | PluginAbsent "nat option" | Failed string

definition i64_of_usize :: "nat \<Rightarrow> int" where
  "i64_of_usize n = (if int n \<le> 2 ^ 63 - 1 then int n else 2 ^ 63 - 1)"

definition usize_of_i64 :: "int \<Rightarrow> nat" where
  "usize_of_i64 n = (if 0 \<le> n then nat n else 0)"

definition u32_or :: "int \<Rightarrow> int \<Rightarrow> int" where
  "u32_or other n = (if 0 \<le> n \<and> n \<le> 2 ^ 32 - 1 then n else other)"

fun outcome_columns :: "LanguageOutcome \<Rightarrow> string \<times> int option \<times> string option" where
  "outcome_columns (Indexed files) = (''indexed'', None, None)"
| "outcome_columns (PluginAbsent files) = (''plugin_absent'', map_option i64_of_usize files, None)"
| "outcome_columns (Failed error) = (''failed'', None, Some error)"

definition outcome_row :: "string \<Rightarrow> string \<times> LanguageOutcome \<Rightarrow> LanguageOutcomeRow" where
  "outcome_row now entry =
     (let (kind, files, error) = outcome_columns (snd entry)
      in \<lparr>lo_language = fst entry, lo_outcome = kind, lo_files = files, lo_error = error,
          lo_recordedAt = now\<rparr>)"

text \<open>The map of outcomes is a list of entries in key order, without repetition.\<close>

definition record_language_outcomes ::
  "string \<Rightarrow> (string \<times> LanguageOutcome) list \<Rightarrow> ledger \<Rightarrow> ledger" where
  "record_language_outcomes now outcomes l =
     l\<lparr>language_outcome := map (outcome_row now) outcomes, language_retry := []\<rparr>"

definition live_files :: "store \<Rightarrow> string \<Rightarrow> nat" where
  "live_files st language =
     length (filter (\<lambda>n. n_kind n = ''File'' \<and> n_language n = language) (nodes st))"

definition read_outcome :: "store \<Rightarrow> LanguageOutcomeRow \<Rightarrow> ledger_error + (string \<times> LanguageOutcome)" where
  "read_outcome st r =
     (if lo_outcome r = ''indexed'' then Inr (lo_language r, Indexed (live_files st (lo_language r)))
      else if lo_outcome r = ''plugin_absent''
      then Inr (lo_language r, PluginAbsent (map_option usize_of_i64 (lo_files r)))
      else if lo_outcome r = ''failed''
      then Inr (lo_language r, Failed (case lo_error r of None \<Rightarrow> [] | Some e \<Rightarrow> e))
      else Inl (UnknownOutcome (lo_outcome r) (lo_language r)))"

fun read_outcomes ::
  "store \<Rightarrow> LanguageOutcomeRow list \<Rightarrow> ledger_error + (string \<times> LanguageOutcome) list" where
  "read_outcomes st [] = Inr []"
| "read_outcomes st (r # rs) =
     (case read_outcome st r of
        Inl e \<Rightarrow> Inl e
      | Inr o1 \<Rightarrow> (case read_outcomes st rs of Inl e \<Rightarrow> Inl e | Inr os \<Rightarrow> Inr (o1 # os)))"

definition language_outcomes :: "store \<Rightarrow> ledger \<Rightarrow> ledger_error + (string \<times> LanguageOutcome) list" where
  "language_outcomes st l = read_outcomes st (sort_key lo_language (language_outcome l))"

definition MAX_LANGUAGE_RETRIES :: int where
  "MAX_LANGUAGE_RETRIES = 2"

definition merge_retry :: "LanguageRetryRow \<Rightarrow> LanguageRetryRow \<Rightarrow> LanguageRetryRow" where
  "merge_retry old new = old\<lparr>lr_retries := lr_retries old + 1, lr_lastRetryAt := lr_lastRetryAt new\<rparr>"

definition retries_stored :: "ledger \<Rightarrow> string \<Rightarrow> int" where
  "retries_stored l language =
     (case select_by lr_language language (language_retry l) of None \<Rightarrow> 0 | Some r \<Rightarrow> lr_retries r)"

definition begin_language_retry :: "string \<Rightarrow> string \<Rightarrow> ledger \<Rightarrow> int \<times> ledger" where
  "begin_language_retry now language l =
     (let l' = l\<lparr>language_retry := upsert_by lr_language merge_retry
           \<lparr>lr_language = language, lr_retries = 1, lr_lastRetryAt = now\<rparr> (language_retry l)\<rparr>
      in (u32_or (2 ^ 32 - 1) (retries_stored l' language), l'))"

definition record_language_retry_failed :: "string \<Rightarrow> string \<Rightarrow> string \<Rightarrow> ledger \<Rightarrow> ledger" where
  "record_language_retry_failed now language error l =
     l\<lparr>language_outcome := map (\<lambda>r. if lo_language r = language \<and> lo_outcome r = ''failed''
          then r\<lparr>lo_error := Some error, lo_recordedAt := now\<rparr> else r) (language_outcome l)\<rparr>"

definition record_language_retry_succeeded :: "string \<Rightarrow> string \<Rightarrow> ledger \<Rightarrow> ledger" where
  "record_language_retry_succeeded now language l =
     l\<lparr>language_outcome := map (\<lambda>r. if lo_language r = language
          then r\<lparr>lo_outcome := ''indexed'', lo_files := None, lo_error := None, lo_recordedAt := now\<rparr> else r)
          (language_outcome l),
       language_retry := delete_by lr_language language (language_retry l)\<rparr>"

definition language_retries :: "ledger \<Rightarrow> string \<Rightarrow> int option" where
  "language_retries l language =
     map_option (\<lambda>r. u32_or 0 (lr_retries r)) (select_by lr_language language (language_retry l))"

definition is_failed :: "LanguageOutcome \<Rightarrow> bool" where
  "is_failed out \<longleftrightarrow> (case out of Failed _ \<Rightarrow> True | _ \<Rightarrow> False)"

definition languages_owed_a_retry ::
  "store \<Rightarrow> ledger \<Rightarrow> string list \<Rightarrow> ledger_error + string list" where
  "languages_owed_a_retry st l discovered =
     (case language_outcomes st l of
        Inl e \<Rightarrow> Inl e
      | Inr outcomes \<Rightarrow>
          Inr (sort (map fst (filter (\<lambda>(language, out). is_failed out \<and> language \<in> set discovered \<and>
                 (case language_retries l language of None \<Rightarrow> 0 | Some n \<Rightarrow> n) < MAX_LANGUAGE_RETRIES)
                 outcomes))))"

section \<open>Reindexes, re-extracts and resolution facts\<close>

definition mark_pending_reindex :: "string \<Rightarrow> string \<Rightarrow> string \<Rightarrow> ledger \<Rightarrow> ledger" where
  "mark_pending_reindex now language changed l =
     l\<lparr>pending_reindex := upsert_by pr_language take_new
        \<lparr>pr_language = language, pr_trigger = changed, pr_startedAt = now\<rparr> (pending_reindex l)\<rparr>"

definition pending_reindexes :: "bool \<Rightarrow> ledger \<Rightarrow> (string \<times> string) list" where
  "pending_reindexes exists l =
     (if exists then map (\<lambda>r. (pr_language r, pr_trigger r)) (sort_key pr_language (pending_reindex l))
      else [])"

definition resolution_facts_of :: "ledger \<Rightarrow> string \<Rightarrow> string option" where
  "resolution_facts_of l language = map_option snd (select_by fst language (resolution_facts l))"

definition set_resolution_facts :: "string \<Rightarrow> string option \<Rightarrow> string list \<Rightarrow> ledger \<Rightarrow> ledger" where
  "set_resolution_facts language facts watch l =
     (let l1 = l\<lparr>resolution_watch_paths :=
            filter (\<lambda>w. snd w \<noteq> language) (resolution_watch_paths l)\<rparr> in
      case facts of
        None \<Rightarrow> l1\<lparr>resolution_facts := delete_by fst language (resolution_facts l1)\<rparr>
      | Some f \<Rightarrow>
          l1\<lparr>resolution_facts := upsert_by fst take_new (language, f) (resolution_facts l1),
             resolution_watch_paths :=
               fold (\<lambda>path. insert_ignore_by (\<lambda>w. w) (path, language)) watch
                 (resolution_watch_paths l1)\<rparr>)"

definition watch_path_languages :: "ledger \<Rightarrow> string \<Rightarrow> string list" where
  "watch_path_languages l path = sort (map snd (filter (\<lambda>w. fst w = path) (resolution_watch_paths l)))"

definition watch_paths :: "ledger \<Rightarrow> string \<Rightarrow> string list" where
  "watch_paths l language = sort (map fst (filter (\<lambda>w. snd w = language) (resolution_watch_paths l)))"

definition owe_reextracts :: "string \<Rightarrow> string \<Rightarrow> string list \<Rightarrow> ledger \<Rightarrow> ledger" where
  "owe_reextracts language changed file_paths l =
     l\<lparr>reextract_owed_files :=
        fold (\<lambda>path. insert_ignore_by ro_key
                \<lparr>ro_language = language, ro_filePath = path, ro_trigger = changed\<rparr>)
          file_paths (reextract_owed_files l)\<rparr>"

text \<open>The fold over the ordered rows: a row of the last group's language joins it.\<close>

fun group_owed ::
  "ReextractOwedRow list \<Rightarrow> (string \<times> string \<times> string list) list \<Rightarrow> (string \<times> string \<times> string list) list" where
  "group_owed [] owed = owed"
| "group_owed (r # rs) owed =
     group_owed rs
       (case rev owed of
          (language, changed, files) # before \<Rightarrow>
            if language = ro_language r
            then rev before @ [(language, ro_trigger r, files @ [ro_filePath r])]
            else owed @ [(ro_language r, ro_trigger r, [ro_filePath r])]
        | [] \<Rightarrow> [(ro_language r, ro_trigger r, [ro_filePath r])])"

definition owed_reextracts :: "bool \<Rightarrow> ledger \<Rightarrow> (string \<times> string \<times> string list) list" where
  "owed_reextracts exists l =
     (if exists then group_owed (sort_key ro_key (reextract_owed_files l)) [] else [])"

definition settle_owed_reextracts :: "string \<Rightarrow> string list \<Rightarrow> ledger \<Rightarrow> ledger" where
  "settle_owed_reextracts language file_paths l =
     l\<lparr>reextract_owed_files :=
        fold (\<lambda>path. delete_by ro_key (language, path)) file_paths (reextract_owed_files l)\<rparr>"

definition clear_owed_reextracts :: "string \<Rightarrow> ledger \<Rightarrow> ledger" where
  "clear_owed_reextracts language l =
     l\<lparr>reextract_owed_files := filter (\<lambda>r. ro_language r \<noteq> language) (reextract_owed_files l)\<rparr>"

end
