(* ===== verification/Embed_Store.thy ===== *)
theory Embed_Store
  imports Embed_Text Ledger "HOL-Library.Word"
begin

text \<open>
  Embeddings: \<^verbatim>\<open>core/src/storage/vectors.rs\<close> (the stored form of a vector), \<^verbatim>\<open>core/src/embedding/cache.rs\<close>
  (the cache of vectors by text hash) and \<^verbatim>\<open>core/src/embedding/pipeline.rs\<close> (\<open>compute\<close> outside the store's
  lock, \<open>store_batch\<close> under it). A 32-bit float is its bits. The model, the digest, whether the model's
  files load and how the cache file answers are fields of \<open>embed_env\<close>.
\<close>

section \<open>Vectors\<close>

definition EMBEDDING_DIM :: nat where
  "EMBEDDING_DIM = 768"

type_synonym f32 = "32 word"

definition to_le_bytes :: "f32 \<Rightarrow> string" where
  "to_le_bytes w =
     map char_of [unat w mod 256, unat w div 256 mod 256, unat w div 65536 mod 256, unat w div 16777216 mod 256]"

definition from_le_bytes :: "char \<Rightarrow> char \<Rightarrow> char \<Rightarrow> char \<Rightarrow> f32" where
  "from_le_bytes a b c d =
     word_of_nat (of_char a + 256 * of_char b + 65536 * of_char c + 16777216 * of_char d)"

definition pack :: "f32 list \<Rightarrow> string" where
  "pack v = concat (map to_le_bytes v)"

fun chunks_exact_4 :: "string \<Rightarrow> f32 list" where
  "chunks_exact_4 (a # b # c # d # rest) = from_le_bytes a b c d # chunks_exact_4 rest"
| "chunks_exact_4 _ = []"

definition decode_vector :: "string \<Rightarrow> f32 list option" where
  "decode_vector blob = (if length blob \<noteq> EMBEDDING_DIM * 4 then None else Some (chunks_exact_4 blob))"

definition merge_vector :: "VectorRow \<Rightarrow> VectorRow \<Rightarrow> VectorRow" where
  "merge_vector old new = new"

definition insert_vector :: "string \<Rightarrow> f32 list \<Rightarrow> string \<Rightarrow> store \<Rightarrow> store" where
  "insert_vector node_id embedding version st =
     st\<lparr>vectors := upsert_by v_nodeId merge_vector
        \<lparr>v_nodeId = node_id, v_embedding = pack embedding, v_embeddingVersion = version\<rparr> (vectors st)\<rparr>"

definition delete_vector :: "string \<Rightarrow> store \<Rightarrow> store" where
  "delete_vector node_id st = st\<lparr>vectors := delete_by v_nodeId node_id (vectors st)\<rparr>"

section \<open>The cache\<close>

record ModelRow =
  mo_id :: int
  mo_fingerprint :: string
  mo_last_used :: int

record EntryRow =
  en_model_id :: int
  en_text_hash :: string
  en_vector :: string
  en_last_used :: int

record EmbeddingCache =
  models :: "ModelRow list"
  entries :: "EntryRow list"

definition entry_key :: "EntryRow \<Rightarrow> int \<times> string" where
  "entry_key e = (en_model_id e, en_text_hash e)"

definition MODEL_RETENTION_DAYS :: int where
  "MODEL_RETENTION_DAYS = 30"

text \<open>The rowid of a fresh row: one above the greatest in use.\<close>

definition next_model_id :: "ModelRow list \<Rightarrow> int" where
  "next_model_id rows = (if rows = [] then 1 else Max (set (map mo_id rows)) + 1)"

definition model_id :: "string \<Rightarrow> int \<Rightarrow> EmbeddingCache \<Rightarrow> int option \<times> EmbeddingCache" where
  "model_id fingerprint today c =
     (let rows = insert_ignore_by mo_fingerprint
            \<lparr>mo_id = next_model_id (models c), mo_fingerprint = fingerprint, mo_last_used = today\<rparr> (models c);
          rows' = map (\<lambda>m. if mo_fingerprint m = fingerprint \<and> mo_last_used m \<noteq> today
                    then m\<lparr>mo_last_used := today\<rparr> else m) rows
      in (map_option mo_id (select_by mo_fingerprint fingerprint rows'), c\<lparr>models := rows'\<rparr>))"

definition found_entry :: "int \<Rightarrow> EmbeddingCache \<Rightarrow> string \<Rightarrow> EntryRow option" where
  "found_entry model c key = select_by entry_key (model, key) (entries c)"

definition touch :: "int \<Rightarrow> string list \<Rightarrow> int \<Rightarrow> EmbeddingCache \<Rightarrow> EmbeddingCache" where
  "touch model keys today c =
     c\<lparr>entries := map (\<lambda>e. if en_model_id e = model \<and> en_text_hash e \<in> set keys
        then e\<lparr>en_last_used := today\<rparr> else e) (entries c)\<rparr>"

text \<open>\<open>touched\<close> is whether the best-effort update of the use times went through.\<close>

definition lookup ::
  "bool \<Rightarrow> int \<Rightarrow> string list \<Rightarrow> int \<Rightarrow> EmbeddingCache \<Rightarrow> f32 list option list \<times> EmbeddingCache" where
  "lookup touched model keys today c =
     (let stale = filter (\<lambda>key. case found_entry model c key of
            None \<Rightarrow> False | Some e \<Rightarrow> en_last_used e \<noteq> today) keys
      in (map (\<lambda>key. Option.bind (found_entry model c key) (\<lambda>e. decode_vector (en_vector e))) keys,
          if stale \<noteq> [] \<and> touched then touch model stale today c else c))"

definition use_model :: "int \<Rightarrow> int \<Rightarrow> EmbeddingCache \<Rightarrow> EmbeddingCache" where
  "use_model model today c =
     c\<lparr>models := map (\<lambda>m. if mo_id m = model \<and> mo_last_used m \<noteq> today
        then m\<lparr>mo_last_used := today\<rparr> else m) (models c)\<rparr>"

definition insert_entries ::
  "int \<Rightarrow> (string \<times> f32 list) list \<Rightarrow> int \<Rightarrow> EmbeddingCache \<Rightarrow> nat \<times> EmbeddingCache" where
  "insert_entries model new today c =
     (let rows = fold (\<lambda>(key, vector). insert_ignore_by entry_key
            \<lparr>en_model_id = model, en_text_hash = key, en_vector = pack vector, en_last_used = today\<rparr>)
            (filter (\<lambda>(_, vector). length vector = EMBEDDING_DIM) new) (entries c)
      in (length rows - length (entries c), use_model model today (c\<lparr>entries := rows\<rparr>)))"

text \<open>
  The pages in use are SQLite's, and how many entries they stand for is floating-point arithmetic:
  \<open>evict\<close> is the number of entries to evict when the file is above its limit, \<open>None\<close> when it is not.
\<close>

definition gc_now :: "int \<Rightarrow> nat option \<Rightarrow> int \<Rightarrow> EmbeddingCache \<Rightarrow> nat \<times> nat \<times> EmbeddingCache" where
  "gc_now current_model evict today c =
     (let kept = filter (\<lambda>m. \<not> (mo_last_used m < today - MODEL_RETENTION_DAYS \<and> mo_id m \<noteq> current_model)) (models c);
          dropped = length (models c) - length kept;
          es = (if dropped > 0 then filter (\<lambda>e. en_model_id e \<in> set (map mo_id kept)) (entries c) else entries c);
          es' = (case evict of
                   None \<Rightarrow> es
                 | Some n \<Rightarrow> (let victims = set (map entry_key (take n (sort_key en_last_used es)))
                              in filter (\<lambda>e. entry_key e \<notin> victims) es))
      in (dropped, length es - length es', c\<lparr>models := kept, entries := es'\<rparr>))"

section \<open>The pipeline\<close>

datatype model_state = NotLoaded | Unavailable | Available

datatype cache_slot = Unopened | Active int EmbeddingCache | Off

text \<open>How an operation on the cache file failed; a corrupt file is replaced by an empty one, or not.\<close>

datatype cache_failure = Busy | Corrupt "(int \<times> EmbeddingCache) option" | OtherFailure

record embed_env =
  ev_sha :: digest
  ev_embed_batch :: "string list \<Rightarrow> f32 list option list"
  ev_loads :: bool
  ev_opened :: cache_slot
  ev_lookup_failure :: "cache_failure option"
  ev_touched :: bool
  ev_insert_failure :: "cache_failure option"
  ev_today :: int

record pipeline =
  pl_version :: string
  pl_model :: model_state
  pl_cache :: cache_slot

record EmbedStats =
  es_texts :: nat
  es_hits :: nat
  es_embedded :: nat
  es_cache_errors :: nat
  es_inserted :: nat

record ComputedEmbedding =
  ce_node_id :: string
  ce_embedding :: "f32 list"
  ce_text :: string

record ComputedBatch =
  cb_embeddings :: "ComputedEmbedding list"
  cb_dropped :: "string list"

definition embed_input :: "NodeRecord \<Rightarrow> EmbedInput" where
  "embed_input n =
     \<lparr>ei_kind = nr_kind n, ei_name = nr_name n, ei_qualified_name = nr_qualified_name n,
      ei_file_path = nr_file_path n, ei_doc = nr_doc_comment n, ei_signature = nr_signature n,
      ei_generated = nr_generated n\<rparr>"

definition row_input :: "NodeRow \<Rightarrow> EmbedInput" where
  "row_input r =
     \<lparr>ei_kind = n_kind r, ei_name = n_name r, ei_qualified_name = n_qualifiedName r,
      ei_file_path = n_filePath r, ei_doc = n_docComment r, ei_signature = n_signature r,
      ei_generated = n_generated r\<rparr>"

definition current_embeddable_text :: "store \<Rightarrow> string \<Rightarrow> string option" where
  "current_embeddable_text st node_id =
     Option.bind (select_by n_id node_id (nodes st)) (\<lambda>r. node_text (row_input r))"

definition recover :: "cache_failure \<Rightarrow> cache_slot \<Rightarrow> cache_slot" where
  "recover failure slot =
     (case (failure, slot) of
        (Busy, _) \<Rightarrow> slot
      | (Corrupt (Some (model, c)), Active _ _) \<Rightarrow> Active model c
      | (_, Active _ _) \<Rightarrow> Off
      | (_, _) \<Rightarrow> Off)"

definition open_if_unopened :: "embed_env \<Rightarrow> pipeline \<Rightarrow> pipeline" where
  "open_if_unopened env p = (if pl_cache p = Unopened then p\<lparr>pl_cache := ev_opened env\<rparr> else p)"

definition load_model :: "embed_env \<Rightarrow> pipeline \<Rightarrow> bool \<times> pipeline" where
  "load_model env p =
     (case pl_model p of
        NotLoaded \<Rightarrow>
          (if ev_loads env then (True, p\<lparr>pl_model := Available\<rparr>) else (False, p\<lparr>pl_model := Unavailable\<rparr>))
      | Unavailable \<Rightarrow> (False, p)
      | Available \<Rightarrow> (True, p))"

definition cache_lookup ::
  "embed_env \<Rightarrow> string list \<Rightarrow> pipeline \<Rightarrow> EmbedStats \<Rightarrow>
     f32 list option list option \<times> pipeline \<times> EmbedStats" where
  "cache_lookup env keys p0 stats =
     (let p = open_if_unopened env p0 in
      case pl_cache p of
        Active model c \<Rightarrow>
          (case ev_lookup_failure env of
             None \<Rightarrow>
               (let (found, c') = lookup (ev_touched env) model keys (ev_today env) c
                in (Some found, p\<lparr>pl_cache := Active model c'\<rparr>, stats))
           | Some failure \<Rightarrow>
               (Some (map (\<lambda>_. None) keys), p\<lparr>pl_cache := recover failure (pl_cache p)\<rparr>,
                stats\<lparr>es_cache_errors := es_cache_errors stats + 1\<rparr>))
      | _ \<Rightarrow> (None, p, stats))"

definition cache_insert ::
  "embed_env \<Rightarrow> (string \<times> f32 list) list \<Rightarrow> pipeline \<Rightarrow> EmbedStats \<Rightarrow> pipeline \<times> EmbedStats" where
  "cache_insert env new p stats =
     (case pl_cache p of
        Active model c \<Rightarrow>
          (case ev_insert_failure env of
             None \<Rightarrow>
               (let (inserted, c') = insert_entries model new (ev_today env) c
                in (p\<lparr>pl_cache := Active model c'\<rparr>, stats\<lparr>es_inserted := es_inserted stats + inserted\<rparr>))
           | Some failure \<Rightarrow>
               (p\<lparr>pl_cache := recover failure (pl_cache p)\<rparr>,
                stats\<lparr>es_cache_errors := es_cache_errors stats + 1\<rparr>))
      | _ \<Rightarrow> (p, stats))"

definition pending_texts :: "NodeRecord list \<Rightarrow> (string \<times> string) list" where
  "pending_texts ns =
     List.map_filter (\<lambda>n. if ei_generated (embed_input n) \<or> is_noise (embed_input n) then None
        else map_option (\<lambda>t. (nr_id n, t)) (node_text (embed_input n))) ns"

definition dropped_ids :: "NodeRecord list \<Rightarrow> string list" where
  "dropped_ids ns = map nr_id (filter (\<lambda>n. ei_generated (embed_input n) \<or> is_noise (embed_input n)) ns)"

text \<open>
  The last loop: a hit is taken as it is, a miss takes the next result of the model's batch (none is
  left when the model answered short), a failed result is skipped.
\<close>

fun assemble ::
  "((string \<times> string) \<times> f32 list option) list \<Rightarrow> f32 list option list \<Rightarrow>
     (bool \<times> ComputedEmbedding) list" where
  "assemble [] results = []"
| "assemble (((node_id, t), Some v) # rest) results =
     (False, \<lparr>ce_node_id = node_id, ce_embedding = v, ce_text = t\<rparr>) # assemble rest results"
| "assemble (((node_id, t), None) # rest) [] = assemble rest []"
| "assemble (((node_id, t), None) # rest) (None # results) = assemble rest results"
| "assemble (((node_id, t), None) # rest) (Some v # results) =
     (True, \<lparr>ce_node_id = node_id, ce_embedding = v, ce_text = t\<rparr>) # assemble rest results"

definition embed_pending ::
  "embed_env \<Rightarrow> (string \<times> string) list \<Rightarrow> f32 list option list option \<Rightarrow> pipeline \<Rightarrow> EmbedStats \<Rightarrow>
     ComputedEmbedding list \<times> pipeline \<times> EmbedStats" where
  "embed_pending env pending cached p2 stats1 =
     (let stats2 = stats1\<lparr>es_texts := es_texts stats1 + length pending\<rparr>;
          hits = (case cached of None \<Rightarrow> map (\<lambda>_. None) pending | Some found \<Rightarrow> found);
          misses = map (\<lambda>(e, _). snd e) (filter (\<lambda>(_, hit). hit = None) (zip pending hits));
          (loaded, p3) = (if misses = [] then (False, p2) else load_model env p2);
          results = (if loaded then ev_embed_batch env misses else []);
          computed = assemble (zip pending hits) results;
          fresh = map (\<lambda>(_, e). (ev_sha env (ce_text e), ce_embedding e)) (filter fst computed);
          stats3 = stats2\<lparr>es_hits := es_hits stats2 + length (filter (\<lambda>c. \<not> fst c) computed),
            es_embedded := es_embedded stats2 + length (filter fst computed)\<rparr>
      in (map snd computed,
          if cached \<noteq> None \<and> fresh \<noteq> [] then cache_insert env fresh p3 stats3 else (p3, stats3)))"

definition compute ::
  "embed_env \<Rightarrow> NodeRecord list \<Rightarrow> pipeline \<Rightarrow> EmbedStats \<Rightarrow> ComputedBatch \<times> pipeline \<times> EmbedStats" where
  "compute env upserts p0 stats0 =
     (let dropped = dropped_ids upserts;
          pending = pending_texts upserts;
          none = \<lparr>cb_embeddings = [], cb_dropped = dropped\<rparr>
      in if pending = [] \<or> pl_model p0 = Unavailable then (none, p0, stats0)
         else
           let keys = map (\<lambda>(_, t). ev_sha env t) pending;
               (cached, p1, stats1) = cache_lookup env keys p0 stats0;
               (ready, p2) = (if cached = None then load_model env p1 else (True, p1))
           in if \<not> ready then (none, p2, stats1)
              else let (computed, p4, stats4) = embed_pending env pending cached p2 stats1
                   in (\<lparr>cb_embeddings = computed, cb_dropped = dropped\<rparr>, p4, stats4))"

definition drop_filtered :: "string \<Rightarrow> store \<Rightarrow> store" where
  "drop_filtered node_id st =
     (case current_embeddable_text st node_id of Some _ \<Rightarrow> st | None \<Rightarrow> delete_vector node_id st)"

definition store_one :: "string \<Rightarrow> ComputedEmbedding \<Rightarrow> store \<Rightarrow> store" where
  "store_one version e st =
     (if current_embeddable_text st (ce_node_id e) = Some (ce_text e)
      then insert_vector (ce_node_id e) (ce_embedding e) version st else st)"

definition store_batch :: "pipeline \<Rightarrow> ComputedBatch \<Rightarrow> store \<times> ledger \<Rightarrow> store \<times> ledger" where
  "store_batch p batch db =
     (let st1 = fold drop_filtered (cb_dropped batch) (fst db)
      in if cb_embeddings batch = [] then (st1, snd db)
         else (fold (store_one (pl_version p)) (cb_embeddings batch) st1,
               set_embedding_model (pl_version p) (snd db)))"

definition apply_embeddings ::
  "embed_env \<Rightarrow> NodeRecord list \<Rightarrow> pipeline \<Rightarrow> store \<times> ledger \<Rightarrow> pipeline \<times> store \<times> ledger" where
  "apply_embeddings env upserts p db =
     (let (batch, p', stats) = compute env upserts p
            \<lparr>es_texts = 0, es_hits = 0, es_embedded = 0, es_cache_errors = 0, es_inserted = 0\<rparr>
      in (p', store_batch p' batch db))"

section \<open>The stored form of a vector\<close>

lemma to_from_le_bytes: "to_le_bytes w = [a, b, c, d] \<Longrightarrow> from_le_bytes a b c d = w"
proof -
  assume "to_le_bytes w = [a, b, c, d]"
  then have ds: "a = char_of (unat w mod 256)" "b = char_of (unat w div 256 mod 256)"
    "c = char_of (unat w div 65536 mod 256)" "d = char_of (unat w div 16777216 mod 256)"
    by (auto simp: to_le_bytes_def)
  have digits: "n mod 256 + 256 * (n div 256 mod 256) + 65536 * (n div 65536 mod 256)
      + 16777216 * (n div 16777216 mod 256) = n" if "n < 2 ^ 32" for n :: nat
  proof -
    define q where "q = n div 256"
    define q2 where "q2 = q div 256"
    define q3 where "q3 = q2 div 256"
    have "n = 256 * q + n mod 256" "q = 256 * q2 + q mod 256" "q2 = 256 * q3 + q2 mod 256"
      by (simp_all add: q_def q2_def q3_def)
    moreover have ds: "n div 256 = q" "n div 65536 = q2" "n div 16777216 = q3" "q3 < 256"
      using that by (simp_all add: q_def q2_def q3_def div_mult2_eq [symmetric])
    then have "q3 mod 256 = q3" by simp
    ultimately have "n mod 256 + 256 * (q mod 256) + 65536 * (q2 mod 256) + 16777216 * (q3 mod 256) = n"
      by linarith
    then show ?thesis unfolding ds .
  qed
  have "unat w < 2 ^ 32" using unsigned_less [of w] by simp
  from digits [OF this] have "of_char a + 256 * of_char b + 65536 * of_char c + 16777216 * of_char d = unat w"
    unfolding ds by (simp only: of_char_of mod_mod_trivial)
  then have "from_le_bytes a b c d = word_of_nat (unat w)" unfolding from_le_bytes_def by (simp only:)
  then show ?thesis by simp
qed

lemma chunks_pack: "chunks_exact_4 (pack v) = v"
proof (induction v)
  case (Cons w v)
  obtain a b c d where abcd: "to_le_bytes w = [a, b, c, d]" by (simp add: to_le_bytes_def)
  with Cons.IH to_from_le_bytes [OF abcd] show ?case by (simp add: pack_def)
qed (simp add: pack_def)

lemma length_pack: "length (pack v) = 4 * length v"
  by (induction v) (auto simp: pack_def to_le_bytes_def)

lemma decode_pack: "decode_vector (pack v) = (if length v = EMBEDDING_DIM then Some v else None)"
  by (simp add: decode_vector_def length_pack chunks_pack)

text \<open>
  The stored form of a vector loses nothing: for any list of 32-bit floats, bit patterns that are
  not numbers included, packing and decoding gives the list back when it has the model's dimension,
  and a blob of any other length is refused.
\<close>

theorem vector_round_trip:
  "decode_vector (pack v) = (if length v = EMBEDDING_DIM then Some v else None)"
  by (rule decode_pack)

section \<open>The cache changes nothing but the cost\<close>

lemma lookup_length: "length (fst (lookup touched model keys today c)) = length keys"
  by (simp add: lookup_def Let_def)

definition cache_agrees :: "embed_env \<Rightarrow> (string \<Rightarrow> f32 list option) \<Rightarrow> pipeline \<Rightarrow> string set \<Rightarrow> bool" where
  "cache_agrees env embed1 p texts \<longleftrightarrow>
     (case pl_cache (open_if_unopened env p) of
        Active model c \<Rightarrow>
          (\<forall>t\<in>texts. \<forall>e v. found_entry model c (ev_sha env t) = Some e \<longrightarrow>
             decode_vector (en_vector e) = Some v \<longrightarrow> embed1 t = Some v)
      | _ \<Rightarrow> True)"

text \<open>Hits in step with the texts: one per text, and each the model's own answer.\<close>

definition hits_agree :: "(string \<Rightarrow> f32 list option) \<Rightarrow> (string \<times> string) list \<Rightarrow> f32 list option list \<Rightarrow> bool" where
  "hits_agree embed1 pending hits \<longleftrightarrow>
     list_all2 (\<lambda>(_, t) hit. hit = None \<or> hit = embed1 t) pending hits"

lemma cache_lookup_agrees:
  assumes "cache_agrees env embed1 p (snd ` set pending)"
    and "cache_lookup env (map (\<lambda>(_, t). ev_sha env t) pending) p stats = (cached, p', stats')"
  shows "hits_agree embed1 pending (case cached of None \<Rightarrow> map (\<lambda>_. None) pending | Some found \<Rightarrow> found)"
proof (cases "pl_cache (open_if_unopened env p)")
  case (Active model c)
  show ?thesis
  proof (cases "ev_lookup_failure env")
    case None
    have "Option.bind (found_entry model c (ev_sha env t)) (\<lambda>e. decode_vector (en_vector e)) \<in> {None, embed1 t}"
      if "(i, t) \<in> set pending" for i t
    proof (cases "found_entry model c (ev_sha env t)")
      case (Some e)
      then show ?thesis using assms(1) that Active
        by (cases "decode_vector (en_vector e)") (force simp: cache_agrees_def)+
    qed simp
    then have "\<forall>e\<in>set pending. Option.bind (found_entry model c (ev_sha env (snd e))) (\<lambda>e. decode_vector (en_vector e))
        \<in> {None, embed1 (snd e)}" by force
    then show ?thesis using assms(2) Active None
      by (auto simp: cache_lookup_def lookup_def Let_def hits_agree_def list_all2_map2 case_prod_beta
          intro!: list.rel_refl_strong)
  next
    case (Some failure)
    with assms(2) Active show ?thesis
      by (auto simp: cache_lookup_def hits_agree_def list_all2_map2 case_prod_beta intro!: list.rel_refl_strong)
  qed
qed (use assms(2) in \<open>auto simp: cache_lookup_def hits_agree_def list_all2_map2 intro!: list.rel_refl_strong\<close>)

text \<open>What \<open>compute\<close> would return if there were no cache.\<close>

definition embedded_texts ::
  "(string \<Rightarrow> f32 list option) \<Rightarrow> (string \<times> string) list \<Rightarrow> ComputedEmbedding list" where
  "embedded_texts embed1 pending =
     List.map_filter (\<lambda>(i, t). map_option (\<lambda>v. \<lparr>ce_node_id = i, ce_embedding = v, ce_text = t\<rparr>) (embed1 t)) pending"

lemma assemble_all:
  assumes "hits_agree embed1 pending hits"
    and "results = map embed1 (map (\<lambda>(e, _). snd e) (filter (\<lambda>(_, hit). hit = None) (zip pending hits)))"
  shows "map snd (assemble (zip pending hits) results) = embedded_texts embed1 pending"
  using assms unfolding hits_agree_def
proof (induction arbitrary: results rule: list_all2_induct)
  case (Cons x xs hit hits)
  obtain i t where x: "x = (i, t)" by fastforce
  show ?case
  proof (cases hit)
    case None
    with Cons x show ?thesis by (cases "embed1 t") (simp_all add: embedded_texts_def List.map_filter_simps)
  next
    case (Some v)
    with Cons x show ?thesis by (auto simp: embedded_texts_def List.map_filter_simps)
  qed
qed (simp add: embedded_texts_def List.map_filter_simps)

lemma assemble_sound:
  assumes "hits_agree embed1 pending hits"
    and "results = [] \<or> results = map embed1 (map (\<lambda>(e, _). snd e) (filter (\<lambda>(_, hit). hit = None) (zip pending hits)))"
    and "c \<in> snd ` set (assemble (zip pending hits) results)"
  shows "embed1 (ce_text c) = Some (ce_embedding c) \<and> (ce_node_id c, ce_text c) \<in> set pending"
  using assms unfolding hits_agree_def
proof (induction arbitrary: results rule: list_all2_induct)
  case (Cons x xs hit hits)
  obtain i t where x: "x = (i, t)" by fastforce
  show ?case
  proof (cases hit)
    case None
    show ?thesis
    proof (cases "results = []")
      case True
      with Cons.prems x None have "c \<in> snd ` set (assemble (zip xs hits) [])" by simp
      from Cons.IH [OF _ this] show ?thesis by simp
    next
      case False
      let ?rest = "map embed1 (map (\<lambda>(e, _). snd e) (filter (\<lambda>(_, hit). hit = None) (zip xs hits)))"
      from False Cons.prems(1) x None have results: "results = embed1 t # ?rest" by simp
      show ?thesis
      proof (cases "c \<in> snd ` set (assemble (zip xs hits) ?rest)")
        case True
        from Cons.IH [OF _ True] show ?thesis by simp
      next
        case False
        with results Cons.prems(2) x None show ?thesis by (cases "embed1 t") auto
      qed
    qed
  next
    case (Some v)
    show ?thesis
    proof (cases "c \<in> snd ` set (assemble (zip xs hits) results)")
      case True
      from Cons.IH [OF _ True] Cons.prems(1) Some show ?thesis by auto
    next
      case False
      with Cons.prems(2) Cons.hyps x Some show ?thesis by auto
    qed
  qed
qed simp

lemma load_model_props:
  assumes "load_model env p = (ready, p')"
  shows "pl_version p' = pl_version p" "pl_model p \<noteq> Unavailable \<Longrightarrow> ev_loads env \<Longrightarrow> ready \<and> pl_model p' \<noteq> Unavailable"
  using assms by (auto simp: load_model_def split: model_state.splits if_splits)

lemma cache_insert_version: "pl_version (fst (cache_insert env new p stats)) = pl_version p"
  by (simp add: cache_insert_def case_prod_beta split: cache_slot.split option.split)

lemma cache_lookup_props:
  assumes "cache_lookup env keys p stats = (cached, p', stats')"
  shows "pl_model p' = pl_model p \<and> pl_version p' = pl_version p"
proof -
  have "pl_model (open_if_unopened env p) = pl_model p" "pl_version (open_if_unopened env p) = pl_version p"
    by (simp_all add: open_if_unopened_def)
  with assms show ?thesis
    by (auto simp: cache_lookup_def Let_def case_prod_beta split: cache_slot.splits option.splits)
qed

lemma embed_pending_spec:
  assumes "\<forall>ts. ev_embed_batch env ts = map embed1 ts"
    and agree: "hits_agree embed1 pending (case cached of None \<Rightarrow> map (\<lambda>_. None) pending | Some found \<Rightarrow> found)"
    and run: "embed_pending env pending cached p stats = (computed, p', stats')"
  shows "(ev_loads env \<and> pl_model p \<noteq> Unavailable \<longrightarrow> computed = embedded_texts embed1 pending) \<and>
    (\<forall>c\<in>set computed. embed1 (ce_text c) = Some (ce_embedding c) \<and> (ce_node_id c, ce_text c) \<in> set pending) \<and>
    pl_version p' = pl_version p"
proof -
  define hits where "hits = (case cached of None \<Rightarrow> map (\<lambda>_. None) pending | Some found \<Rightarrow> found)"
  define misses where "misses = map (\<lambda>(e, _). snd e) (filter (\<lambda>(_, hit). hit = None) (zip pending hits))"
  obtain loaded p3 where l: "(if misses = [] then (False, p) else load_model env p) = (loaded, p3)" by fastforce
  define results where "results = (if loaded then ev_embed_batch env misses else [])"
  note hs = agree [folded hits_def]
  obtain fresh stats3 where "embed_pending env pending cached p stats =
      (map snd (assemble (zip pending hits) results),
       if cached \<noteq> None \<and> fresh \<noteq> [] then cache_insert env fresh p3 stats3 else (p3, stats3))"
    by (rule that) (simp only: embed_pending_def Let_def hits_def [symmetric] misses_def [symmetric] l
        prod.case results_def [symmetric])
  with run have c: "computed = map snd (assemble (zip pending hits) results)"
    and rest: "(p', stats') = (if cached \<noteq> None \<and> fresh \<noteq> [] then cache_insert env fresh p3 stats3 else (p3, stats3))"
    by simp_all
  have v: "pl_version p' = pl_version p3"
    using arg_cong [where f = "\<lambda>x. pl_version (fst x)", OF rest] cache_insert_version by (simp split: if_splits)
  have v3: "pl_version p3 = pl_version p" using l load_model_props(1) by (auto split: if_splits)
  have either: "results = [] \<or> results = map embed1 misses" using assms(1) by (simp add: results_def)
  have "results = map embed1 misses" if "ev_loads env" "pl_model p \<noteq> Unavailable"
    using that l load_model_props(2) assms(1) by (cases "misses = []") (auto simp: results_def)
  then have "computed = embedded_texts embed1 pending" if "ev_loads env" "pl_model p \<noteq> Unavailable"
    using assemble_all [OF hs] that c unfolding misses_def by simp
  moreover have "embed1 (ce_text e) = Some (ce_embedding e) \<and> (ce_node_id e, ce_text e) \<in> set pending"
    if "e \<in> set computed" for e
    using assemble_sound [OF hs either [unfolded misses_def], of e] that by (simp add: c)
  ultimately show ?thesis using v v3 by simp
qed

lemma compute_spec:
  assumes "\<forall>ts. ev_embed_batch env ts = map embed1 ts" "cache_agrees env embed1 p (snd ` set (pending_texts upserts))"
    and "compute env upserts p stats = (batch, p', stats')"
  shows "(ev_loads env \<and> pl_model p \<noteq> Unavailable \<longrightarrow>
      cb_embeddings batch = embedded_texts embed1 (pending_texts upserts)) \<and>
    (\<forall>c\<in>set (cb_embeddings batch).
       embed1 (ce_text c) = Some (ce_embedding c) \<and> (ce_node_id c, ce_text c) \<in> set (pending_texts upserts)) \<and>
    cb_dropped batch = dropped_ids upserts \<and> pl_version p' = pl_version p"
proof (cases "pending_texts upserts = [] \<or> pl_model p = Unavailable")
  case True
  then show ?thesis using assms(3)
    by (auto simp: compute_def Let_def embedded_texts_def List.map_filter_simps)
next
  case False
  let ?pending = "pending_texts upserts"
  obtain cached p1 stats1 where lk: "cache_lookup env (map (\<lambda>(_, t). ev_sha env t) ?pending) p stats = (cached, p1, stats1)"
    using prod_cases3 by blast
  obtain ready p2 where r: "(if cached = None then load_model env p1 else (True, p1)) = (ready, p2)" by fastforce
  note models = cache_lookup_props [OF lk]
  have p2: "pl_version p2 = pl_version p" using r models load_model_props(1) by (auto split: if_splits)
  have ready: "ready \<and> pl_model p2 \<noteq> Unavailable" if "ev_loads env"
    using r False models load_model_props(2) [of env p1 ready p2] that by (auto split: if_splits)
  show ?thesis
  proof (cases ready)
    case nr: False
    with assms(3) False have "cb_embeddings batch = []" "cb_dropped batch = dropped_ids upserts" "p' = p2"
      by (auto simp: compute_def Let_def lk r)
    with ready nr p2 show ?thesis by auto
  next
    case True
    obtain computed p4 stats4 where e: "embed_pending env ?pending cached p2 stats1 = (computed, p4, stats4)"
      using prod_cases3 by blast
    with assms(3) True False have "cb_embeddings batch = computed" "cb_dropped batch = dropped_ids upserts" "p' = p4"
      by (auto simp: compute_def Let_def lk r)
    with embed_pending_spec [OF assms(1) cache_lookup_agrees [OF assms(2) lk] e] ready p2 show ?thesis by simp
  qed
qed


section \<open>A vector is never stored for a text the node no longer has\<close>

interpretation vector_table: keyed_table v_nodeId merge_vector
  by unfold_locales (simp add: merge_vector_def)

lemma store_nodes [simp]:
  "nodes (fold drop_filtered ids st) = nodes st" "nodes (fold (store_one version) es st) = nodes st"
proof -
  have drop: "nodes (drop_filtered i st) = nodes st" for i st
    by (simp add: drop_filtered_def delete_vector_def split: option.split)
  have one: "nodes (store_one version e st) = nodes st" for e st
    by (simp add: store_one_def insert_vector_def)
  show "nodes (fold drop_filtered ids st) = nodes st"
    by (induction ids arbitrary: st) (simp_all add: drop)
  show "nodes (fold (store_one version) es st) = nodes st"
    by (induction es arbitrary: st) (simp_all add: one)
qed

lemma current_text_cong: "nodes st = nodes st' \<Longrightarrow> current_embeddable_text st i = current_embeddable_text st' i"
  by (simp add: current_embeddable_text_def)

lemma dropped_vectors: "set (vectors (fold drop_filtered ids st)) \<subseteq> set (vectors st)"
proof (induction ids arbitrary: st)
  case (Cons i ids)
  have "set (vectors (drop_filtered i st)) \<subseteq> set (vectors st)"
    by (auto simp: drop_filtered_def delete_vector_def delete_by_def split: option.splits)
  with Cons.IH [of "drop_filtered i st"] show ?case by auto
qed simp

lemma stored_vectors:
  assumes "r \<in> set (vectors (fold (store_one version) es st))"
  shows "r \<in> set (vectors st) \<or> (\<exists>e\<in>set es. current_embeddable_text st (ce_node_id e) = Some (ce_text e) \<and>
    r = \<lparr>v_nodeId = ce_node_id e, v_embedding = pack (ce_embedding e), v_embeddingVersion = version\<rparr>)"
  using assms
proof (induction es arbitrary: st)
  case (Cons e es)
  have nodes: "nodes (store_one version e st) = nodes st"
    using store_nodes(2) [where es = "[e]" and version = version and st = st] by simp
  have "r \<in> set (vectors (store_one version e st)) \<or> (\<exists>e\<in>set es. current_embeddable_text st (ce_node_id e) = Some (ce_text e) \<and>
      r = \<lparr>v_nodeId = ce_node_id e, v_embedding = pack (ce_embedding e), v_embeddingVersion = version\<rparr>)"
    using Cons.IH [of "store_one version e st"] Cons.prems current_text_cong [OF nodes] by simp
  then show ?case
    by (auto simp: store_one_def insert_vector_def vector_table.upsert_set merge_vector_def split: if_splits)
qed simp

text \<open>
  C40. A vector never describes a text its node no longer has: a batch is computed from one diff without
  the store's lock, anything may be written before the batch is stored, and every vector row the
  storing adds or changes still belongs to a node of the store as it is then, and is the model's
  embedding of the text that node has then, under the current model version.
\<close>

theorem stored_vector_is_current:
  assumes "\<forall>ts. ev_embed_batch env ts = map embed1 ts"
    and "cache_agrees env embed1 p (snd ` set (pending_texts upserts))"
    and "compute env upserts p stats = (batch, p', stats')"
    and "r \<in> set (vectors (fst (store_batch p' batch (st, l))))" and "r \<notin> set (vectors st)"
  shows "\<exists>n\<in>set (nodes st). n_id n = v_nodeId r \<and> v_embeddingVersion r = pl_version p \<and>
    (\<exists>t v. node_text (row_input n) = Some t \<and> embed1 t = Some v \<and> v_embedding r = pack v)"
proof -
  let ?st1 = "fold drop_filtered (cb_dropped batch) st"
  note spec = compute_spec [OF assms(1-3)]
  have "r \<notin> set (vectors ?st1)" using assms(5) dropped_vectors by blast
  then have "\<exists>e\<in>set (cb_embeddings batch). current_embeddable_text ?st1 (ce_node_id e) = Some (ce_text e) \<and>
      r = \<lparr>v_nodeId = ce_node_id e, v_embedding = pack (ce_embedding e), v_embeddingVersion = pl_version p'\<rparr>"
    using assms(4) stored_vectors [of r "pl_version p'" "cb_embeddings batch" ?st1]
    by (auto simp: store_batch_def Let_def split: if_splits)
  then obtain e where e: "e \<in> set (cb_embeddings batch)" "current_embeddable_text st (ce_node_id e) = Some (ce_text e)"
    "r = \<lparr>v_nodeId = ce_node_id e, v_embedding = pack (ce_embedding e), v_embeddingVersion = pl_version p'\<rparr>"
    using current_text_cong [OF store_nodes(1)] by metis
  then obtain n where n: "select_by n_id (ce_node_id e) (nodes st) = Some n" "node_text (row_input n) = Some (ce_text e)"
    by (auto simp: current_embeddable_text_def bind_eq_Some_conv)
  then have "n \<in> set (nodes st)" "n_id n = ce_node_id e" using find_in by (fastforce simp: select_by_def)+
  with n e spec show ?thesis by auto
qed

section \<open>Witnesses\<close>

definition sample_vector :: "f32 list" where
  "sample_vector = replicate EMBEDDING_DIM 7"

definition sample_env :: "(string \<Rightarrow> f32 list option) \<Rightarrow> embed_env" where
  "sample_env model =
     \<lparr>ev_sha = rev, ev_embed_batch = map model, ev_loads = True, ev_opened = Off, ev_lookup_failure = None,
      ev_touched = True, ev_insert_failure = None, ev_today = 100\<rparr>"

definition sample_pipeline :: "cache_slot \<Rightarrow> pipeline" where
  "sample_pipeline slot = \<lparr>pl_version = ''v'', pl_model = NotLoaded, pl_cache = slot\<rparr>"

definition sample_cache :: EmbeddingCache where
  "sample_cache =
     \<lparr>models = [], entries = [\<lparr>en_model_id = 1, en_text_hash = ''b a'', en_vector = pack sample_vector, en_last_used = 9\<rparr>]\<rparr>"

definition zero_stats :: EmbedStats where
  "zero_stats = \<lparr>es_texts = 0, es_hits = 0, es_embedded = 0, es_cache_errors = 0, es_inserted = 0\<rparr>"

definition sample_upsert :: NodeRecord where
  "sample_upsert =
     \<lparr>nr_id = ''n'', nr_kind = ''Function'', nr_name = ''a'', nr_qualified_name = ''a'', nr_file_path = ''a'',
      nr_start_line = 0, nr_start_col = 0, nr_end_line = 0, nr_end_col = 0, nr_signature = Some ''a b'',
      nr_exported = False, nr_visibility = ''private'', nr_visibility_container = None, nr_container = None,
      nr_container_parent = None, nr_target = None, nr_doc_comment = None, nr_language = ''x'',
      nr_native_kind = None, nr_has_syntax_errors = False, nr_generated = False, nr_declarations = [],
      nr_qualified_path = None, nr_alias_paths = [], nr_untyped_calls = []\<rparr>"

lemma sample_pending: "pending_texts [sample_upsert] = [(''n'', ''a b'')]"
  by code_simp


definition sample_db :: "store \<times> ledger" where
  "sample_db = (empty_store\<lparr>nodes := [node_row sample_upsert]\<rparr>, empty_ledger)"

definition sample_computed :: "ComputedBatch \<times> pipeline \<times> EmbedStats" where
  "sample_computed = compute (sample_env (\<lambda>t. Some [of_nat (length t)])) [sample_upsert] (sample_pipeline Off) zero_stats"

theorem stored_vector_is_current_witness:
  "map v_nodeId (vectors (fst (store_batch (fst (snd sample_computed)) (fst sample_computed) sample_db))) = [''n''] \<and>
   (\<exists>n\<in>set (nodes (fst sample_db)). n_id n = ''n'' \<and> (\<exists>t v. node_text (row_input n) = Some t \<and> v = [3]))"
proof -
  let ?db = "store_batch (fst (snd sample_computed)) (fst sample_computed) sample_db"
  let ?r = "\<lparr>v_nodeId = ''n'', v_embedding = pack [3], v_embeddingVersion = ''v''\<rparr>"
  have agrees: "cache_agrees (sample_env (\<lambda>t. Some [of_nat (length t)])) (\<lambda>t. Some [of_nat (length t)])
      (sample_pipeline Off) (snd ` set (pending_texts [sample_upsert]))"
    by (simp add: cache_agrees_def open_if_unopened_def sample_pipeline_def)
  have c: "compute (sample_env (\<lambda>t. Some [of_nat (length t)])) [sample_upsert] (sample_pipeline Off) zero_stats =
      (fst sample_computed, fst (snd sample_computed), snd (snd sample_computed))"
    by (simp add: sample_computed_def)
  have nt: "node_text (row_input (node_row sample_upsert)) = Some ''a b''" "dropped_ids [sample_upsert] = []"
    "n_id (node_row sample_upsert) = ''n''"
    by code_simp+
  have batch: "cb_embeddings (fst sample_computed) = [\<lparr>ce_node_id = ''n'', ce_embedding = [3], ce_text = ''a b''\<rparr>]"
    "cb_dropped (fst sample_computed) = []" "pl_version (fst (snd sample_computed)) = ''v''"
    using compute_spec [OF _ agrees c] nt(2)
    by (simp_all add: sample_env_def sample_pipeline_def sample_pending embedded_texts_def List.map_filter_simps)
  have vs: "vectors (fst ?db) = [?r]"
    by (simp add: store_batch_def batch sample_db_def store_one_def current_embeddable_text_def select_by_def nt
        insert_vector_def upsert_by_def empty_store_def)
  have "\<exists>n\<in>set (nodes (fst sample_db)). n_id n = v_nodeId ?r \<and> v_embeddingVersion ?r = pl_version (sample_pipeline Off) \<and>
      (\<exists>t v. node_text (row_input n) = Some t \<and> Some [of_nat (length t)] = Some v \<and> v_embedding ?r = pack v)"
    by (rule stored_vector_is_current [OF _ agrees c, of _ _ "snd sample_db"])
      (simp add: sample_env_def, simp add: vs, simp add: sample_db_def empty_store_def)
  with vs show ?thesis by auto
qed

end
