(* ===== verification/Semantic_Ledger.thy ===== *)
theory Semantic_Ledger
  imports Ledger
begin

text \<open>
  \<^verbatim>\<open>core/src/storage/schema.rs\<close>, the rows about semantic passes: which languages and files wait for
  a pass (\<open>semantic_pending\<close>, \<open>semantic_pending_files\<close>), which files a pass left unanswered and how
  often (\<open>semantic_owed_files\<close>), which were given up (\<open>semantic_gap_files\<close>) and which languages ask only
  their owed files at the next start (\<open>semantic_residual\<close>). The theory shows that the rows stay
  consistent under every statement that writes them.
\<close>

section \<open>Operations\<close>

definition MAX_OWED_ATTEMPTS :: int where
  "MAX_OWED_ATTEMPTS = 3"

definition clear_semantic_pending_language :: "string \<Rightarrow> ledger \<Rightarrow> ledger" where
  "clear_semantic_pending_language language l =
     l\<lparr>semantic_pending := delete_by fst language (semantic_pending l)\<rparr>"

definition clear_semantic_pending :: "string \<Rightarrow> ledger \<Rightarrow> ledger" where
  "clear_semantic_pending language l =
     (let l1 = clear_semantic_pending_language language l
      in l1\<lparr>semantic_pending_files := filter (\<lambda>f. fst f \<noteq> language) (semantic_pending_files l1)\<rparr>)"

definition semantic_pending_since :: "ledger \<Rightarrow> string \<Rightarrow> string option" where
  "semantic_pending_since l language = map_option snd (select_by fst language (semantic_pending l))"

fun chunks_of :: "nat \<Rightarrow> 'a list \<Rightarrow> 'a list list" where
  "chunks_of n xs = (if n = 0 \<or> xs = [] then [] else take n xs # chunks_of n (drop n xs))"

definition semantic_pending_files_among :: "ledger \<Rightarrow> string \<Rightarrow> string list \<Rightarrow> string list" where
  "semantic_pending_files_among l language file_paths =
     concat (map (\<lambda>chunk. map snd (filter (\<lambda>f. fst f = language \<and> snd f \<in> set chunk)
                            (semantic_pending_files l)))
               (chunks_of 500 file_paths))"

definition record_semantic_pending_files :: "string \<Rightarrow> string list \<Rightarrow> ledger \<Rightarrow> ledger" where
  "record_semantic_pending_files language file_paths l =
     l\<lparr>semantic_pending_files :=
        fold (\<lambda>path. insert_ignore_by (\<lambda>f. f) (language, path)) file_paths (semantic_pending_files l)\<rparr>"

definition clear_semantic_pending_files :: "string list \<Rightarrow> ledger \<Rightarrow> nat \<times> ledger" where
  "clear_semantic_pending_files file_paths l =
     (let rest = fold (\<lambda>path. delete_by snd path) file_paths (semantic_pending_files l)
      in (length (semantic_pending_files l) - length rest, l\<lparr>semantic_pending_files := rest\<rparr>))"

definition owed_files :: "ledger \<Rightarrow> string \<Rightarrow> string list" where
  "owed_files l language =
     sort (map so_filePath (filter (\<lambda>r. so_language r = language) (semantic_owed_files l)))"

text \<open>\<^verbatim>\<open>saturating_add\<close> on a 64-bit integer.\<close>

definition saturating_succ :: "int \<Rightarrow> int" where
  "saturating_succ n = (if n = 2 ^ 63 - 1 then n else n + 1)"

definition settle_file :: "string \<Rightarrow> string \<Rightarrow> ledger \<Rightarrow> ledger" where
  "settle_file language path l =
     l\<lparr>semantic_owed_files := delete_by so_key (language, path) (semantic_owed_files l),
       semantic_gap_files := delete_by (\<lambda>f. f) (language, path) (semantic_gap_files l)\<rparr>"

definition attempts_after :: "string \<Rightarrow> string list \<Rightarrow> string \<Rightarrow> ledger \<Rightarrow> int" where
  "attempts_after language requested path l =
     (if path \<in> set requested then 1
      else saturating_succ
             (case select_by so_key (language, path) (semantic_owed_files l) of
                None \<Rightarrow> 0 | Some r \<Rightarrow> so_attempts r))"

definition merge_attempts :: "SemanticOwedRow \<Rightarrow> SemanticOwedRow \<Rightarrow> SemanticOwedRow" where
  "merge_attempts old new = old\<lparr>so_attempts := so_attempts new\<rparr>"

definition owe_file :: "string \<Rightarrow> string list \<Rightarrow> string \<Rightarrow> ledger \<Rightarrow> ledger" where
  "owe_file language requested path l =
     (let attempts = attempts_after language requested path l in
      if MAX_OWED_ATTEMPTS \<le> attempts
      then l\<lparr>semantic_owed_files := delete_by so_key (language, path) (semantic_owed_files l),
             semantic_gap_files := insert_ignore_by (\<lambda>f. f) (language, path) (semantic_gap_files l)\<rparr>
      else l\<lparr>semantic_owed_files := upsert_by so_key merge_attempts
               \<lparr>so_language = language, so_filePath = path, so_attempts = attempts\<rparr>
               (semantic_owed_files l),
             semantic_gap_files := delete_by (\<lambda>f. f) (language, path) (semantic_gap_files l)\<rparr>)"

definition settle_owed_files ::
  "string \<Rightarrow> string list \<Rightarrow> string list \<Rightarrow> string list \<Rightarrow> ledger \<Rightarrow> ledger" where
  "settle_owed_files language requested settled unfinished l =
     fold (owe_file language requested) unfinished (fold (settle_file language) settled l)"

definition clear_owed_files :: "string \<Rightarrow> ledger \<Rightarrow> ledger" where
  "clear_owed_files language l =
     l\<lparr>semantic_owed_files := filter (\<lambda>r. so_language r \<noteq> language) (semantic_owed_files l)\<rparr>"

definition clear_gone_file_semantic_rows :: "string \<Rightarrow> ledger \<Rightarrow> ledger" where
  "clear_gone_file_semantic_rows file_path l =
     l\<lparr>semantic_owed_files := filter (\<lambda>r. so_filePath r \<noteq> file_path) (semantic_owed_files l),
       semantic_gap_files := filter (\<lambda>f. snd f \<noteq> file_path) (semantic_gap_files l)\<rparr>"

definition clear_residual :: "string \<Rightarrow> ledger \<Rightarrow> ledger" where
  "clear_residual language l =
     l\<lparr>semantic_residual := delete_by sr_language language (semantic_residual l)\<rparr>"

definition clear_gap_files :: "string \<Rightarrow> ledger \<Rightarrow> ledger" where
  "clear_gap_files language l =
     l\<lparr>semantic_gap_files := filter (\<lambda>f. fst f \<noteq> language) (semantic_gap_files l)\<rparr>"

definition clear_semantic_leftovers :: "string \<Rightarrow> ledger \<Rightarrow> ledger" where
  "clear_semantic_leftovers language l =
     clear_gap_files language (clear_residual language (clear_owed_files language l))"

definition mark_semantic_pass :: "string \<Rightarrow> string \<Rightarrow> ledger \<Rightarrow> ledger" where
  "mark_semantic_pass now language l =
     l\<lparr>language_state := upsert_by ls_language merge_semantic_pass
        ((blank_state language)\<lparr>ls_semanticPassAt := Some now\<rparr>) (language_state l)\<rparr>"

definition record_language_semantic_pass :: "string \<Rightarrow> string \<Rightarrow> ledger \<Rightarrow> ledger" where
  "record_language_semantic_pass now language l =
     clear_semantic_leftovers language (clear_semantic_pending language (mark_semantic_pass now language l))"

definition record_language_semantic_pass_settled :: "string \<Rightarrow> string \<Rightarrow> ledger \<Rightarrow> ledger" where
  "record_language_semantic_pass_settled now language l =
     clear_residual language (clear_owed_files language
       (clear_semantic_pending language (mark_semantic_pass now language l)))"

definition merge_residual :: "SemanticResidualRow \<Rightarrow> SemanticResidualRow \<Rightarrow> SemanticResidualRow" where
  "merge_residual old new = old\<lparr>sr_since := sr_since new, sr_reason := sr_reason new\<rparr>"

definition record_language_semantic_residual ::
  "string \<Rightarrow> string \<Rightarrow> string list \<Rightarrow> string \<Rightarrow> ledger \<Rightarrow> nat \<times> ledger" where
  "record_language_semantic_residual now language unfinished reason l =
     (let settled = filter (\<lambda>path. path \<notin> set unfinished) (owed_files l language);
          l1 = settle_owed_files language [] settled unfinished (clear_gap_files language l);
          l2 = l1\<lparr>semantic_residual := upsert_by sr_language merge_residual
                 \<lparr>sr_language = language, sr_since = now, sr_reason = reason\<rparr> (semantic_residual l1)\<rparr>;
          l3 = l2\<lparr>language_state := map (\<lambda>r. if ls_language r = language
                 then r\<lparr>ls_semanticPassError := None\<rparr> else r) (language_state l2)\<rparr>;
          l4 = clear_semantic_pending_language language l3
      in (length (owed_files l4 language), l4))"

definition semantic_residual_files :: "ledger \<Rightarrow> string \<Rightarrow> string list option" where
  "semantic_residual_files l language =
     (case select_by sr_language language (semantic_residual l) of
        None \<Rightarrow> None | Some _ \<Rightarrow> Some (owed_files l language))"

definition semantic_residual_reason :: "ledger \<Rightarrow> string \<Rightarrow> string option" where
  "semantic_residual_reason l language =
     map_option sr_reason (select_by sr_language language (semantic_residual l))"

record SemanticLeftover =
  lf_language :: string
  lf_residual_files :: "nat option"
  lf_never_answered :: nat

definition semantic_leftovers :: "bool \<Rightarrow> ledger \<Rightarrow> SemanticLeftover list" where
  "semantic_leftovers exists l =
     (if exists
      then map (\<lambda>language.
             \<lparr>lf_language = language,
              lf_residual_files =
                (if language \<in> set (map sr_language (semantic_residual l))
                 then Some (length (filter (\<lambda>r. so_language r = language) (semantic_owed_files l)))
                 else None),
              lf_never_answered = length (filter (\<lambda>f. fst f = language) (semantic_gap_files l))\<rparr>)
             (btree_set (map sr_language (semantic_residual l) @ map fst (semantic_gap_files l)))
      else [])"

definition record_language_semantic_pass_failure :: "string \<Rightarrow> string \<Rightarrow> ledger \<Rightarrow> ledger" where
  "record_language_semantic_pass_failure language reason l =
     clear_semantic_pending_language language
       (l\<lparr>language_state := upsert_by ls_language merge_semantic_error
          ((blank_state language)\<lparr>ls_semanticPassError := Some reason\<rparr>) (language_state l)\<rparr>)"

definition clear_stale_one :: "string set \<Rightarrow> string \<Rightarrow> nat \<times> ledger \<Rightarrow> nat \<times> ledger" where
  "clear_stale_one semantic_pass_languages language state =
     (let (cleared, l) = state in
      if language \<notin> semantic_pass_languages then (cleared + 1, clear_semantic_pending language l)
      else if language_semantic_pass_done l language \<and> semantic_pending_since l language \<noteq> None
      then (cleared + 1, clear_semantic_pending_language language l)
      else state)"

definition clear_stale_semantic_pending :: "string set \<Rightarrow> ledger \<Rightarrow> nat \<times> ledger" where
  "clear_stale_semantic_pending semantic_pass_languages l =
     fold (clear_stale_one semantic_pass_languages)
       (btree_set (map fst (semantic_pending l) @ map fst (semantic_pending_files l))) (0, l)"

text \<open>The entries of the map, in key order.\<close>

definition owed_semantic_pending_files :: "ledger \<Rightarrow> (string \<times> string list) list" where
  "owed_semantic_pending_files l =
     (let rows = filter (\<lambda>f. language_semantic_pass_done l (fst f) \<and> semantic_pending_since l (fst f) = None)
                   (semantic_pending_files l)
      in map (\<lambda>language. (language, sort (map snd (filter (\<lambda>f. fst f = language) rows))))
           (btree_set (map fst rows)))"

definition semantic_pending_list :: "bool \<Rightarrow> ledger \<Rightarrow> (string \<times> string \<times> nat) list" where
  "semantic_pending_list exists l =
     (if exists
      then map (\<lambda>p. (fst p, snd p, length (filter (\<lambda>f. fst f = fst p) (semantic_pending_files l))))
             (sort_key fst (semantic_pending l))
      else [])"

definition semantic_stale_files :: "bool \<Rightarrow> ledger \<Rightarrow> (string \<times> nat) list" where
  "semantic_stale_files exists l =
     (if exists
      then let rows = filter (\<lambda>f. semantic_pending_since l (fst f) = None) (semantic_pending_files l)
           in map (\<lambda>language. (language, length (filter (\<lambda>f. fst f = language) rows)))
                (btree_set (map fst rows))
      else [])"

definition semantic_pass_failures :: "ledger \<Rightarrow> (string \<times> string) list" where
  "semantic_pass_failures l =
     concat (map (\<lambda>r. case ls_semanticPassError r of None \<Rightarrow> [] | Some e \<Rightarrow> [(ls_language r, e)])
       (sort_key ls_language (language_state l)))"

definition record_semantic_pass :: "string \<Rightarrow> store \<Rightarrow> string \<Rightarrow> string set \<Rightarrow> ledger \<Rightarrow> ledger" where
  "record_semantic_pass now st language semantic_pass_languages l =
     reconcile_semantic_pass_rollup now st semantic_pass_languages
       (record_language_semantic_pass now language l)"

section \<open>Consistency\<close>

interpretation bulk_state_table: keyed_table ls_language merge_bulk_indexed
  by unfold_locales (simp add: merge_bulk_indexed_def)

interpretation pass_state_table: keyed_table ls_language merge_semantic_pass
  by unfold_locales (simp add: merge_semantic_pass_def)

interpretation error_state_table: keyed_table ls_language merge_semantic_error
  by unfold_locales (simp add: merge_semantic_error_def)

interpretation retry_table: keyed_table lr_language merge_retry
  by unfold_locales (simp add: merge_retry_def)

interpretation reindex_table: keyed_table pr_language take_new
  by unfold_locales (simp add: take_new_def)

interpretation facts_table: keyed_table "fst :: string \<times> string \<Rightarrow> string" take_new
  by unfold_locales (simp add: take_new_def)

interpretation owed_table: keyed_table so_key merge_attempts
  by unfold_locales (simp add: merge_attempts_def so_key_def)

interpretation residual_table: keyed_table sr_language merge_residual
  by unfold_locales (simp add: merge_residual_def)

lemmas keyed_upserts [simp] =
  bulk_state_table.keyed_upsert pass_state_table.keyed_upsert error_state_table.keyed_upsert
  retry_table.keyed_upsert reindex_table.keyed_upsert facts_table.keyed_upsert
  owed_table.keyed_upsert residual_table.keyed_upsert

lemma keyed_fold [simp]:
  "keyed key rows \<Longrightarrow> keyed key (fold (\<lambda>x. insert_ignore_by key (f x)) xs rows)"
  "keyed key rows \<Longrightarrow> keyed key (fold (\<lambda>x. delete_by key (g x)) xs rows)"
  by (induction xs arbitrary: rows) auto

lemma fold_delete_by: "fold (\<lambda>x. delete_by key (g x)) xs rows = filter (\<lambda>r. key r \<notin> g ` set xs) rows"
  by (induction xs arbitrary: rows) (auto simp: delete_by_def intro: filter_cong)

text \<open>
  What holds of the rows between any two statements: every primary key is unique, a file is owed
  or given up and not both, an owed file has between one and two attempts behind it, and watch
  paths are only stored for a language whose facts are.
\<close>

definition owed_ok :: "SemanticOwedRow list \<Rightarrow> (string \<times> string) list \<Rightarrow> bool" where
  "owed_ok owed gap \<longleftrightarrow>
     keyed so_key owed \<and> distinct gap \<and> so_key ` set owed \<inter> set gap = {} \<and>
     (\<forall>r\<in>set owed. 1 \<le> so_attempts r \<and> so_attempts r < MAX_OWED_ATTEMPTS)"

definition facts_ok :: "(string \<times> string) list \<Rightarrow> (string \<times> string) list \<Rightarrow> bool" where
  "facts_ok facts watch \<longleftrightarrow> keyed fst facts \<and> distinct watch \<and> snd ` set watch \<subseteq> fst ` set facts"

definition ledger_ok :: "ledger \<Rightarrow> bool" where
  "ledger_ok l \<longleftrightarrow>
     keyed ls_language (language_state l) \<and> keyed lo_language (language_outcome l) \<and>
     keyed lr_language (language_retry l) \<and> keyed pr_language (pending_reindex l) \<and>
     keyed ro_key (reextract_owed_files l) \<and> keyed fst (semantic_pending l) \<and>
     keyed (\<lambda>f. f) (semantic_pending_files l) \<and> keyed sr_language (semantic_residual l) \<and>
     owed_ok (semantic_owed_files l) (semantic_gap_files l) \<and>
     facts_ok (resolution_facts l) (resolution_watch_paths l)"

lemma ledger_ok_meta [simp]:
  "ledger_ok (l\<lparr>meta := m\<rparr>) = ledger_ok l" "ledger_ok (l\<lparr>seed_origin := s\<rparr>) = ledger_ok l"
  "ledger_ok (l\<lparr>embedding_noise_purge := e\<rparr>) = ledger_ok l"
  by (simp_all add: ledger_ok_def)

lemma owed_ok_filter [simp]: "owed_ok owed gap \<Longrightarrow> owed_ok (filter P owed) (filter Q gap)"
  by (auto simp: owed_ok_def keyed_filter)

lemma owed_ok_filter_one [simp]:
  "owed_ok owed gap \<Longrightarrow> owed_ok (filter P owed) gap" "owed_ok owed gap \<Longrightarrow> owed_ok owed (filter Q gap)"
  by (auto simp: owed_ok_def keyed_filter)

lemma attempts_positive: "owed_ok (semantic_owed_files l) gap \<Longrightarrow> 1 \<le> attempts_after language requested path l"
proof -
  assume ok: "owed_ok (semantic_owed_files l) gap"
  have "1 \<le> so_attempts r" if "select_by so_key (language, path) (semantic_owed_files l) = Some r" for r
    using that ok by (auto simp: select_by_def owed_ok_def dest: find_in)
  then show ?thesis
    by (fastforce simp: attempts_after_def saturating_succ_def split: option.split)
qed

lemma owe_file_ok:
  assumes "owed_ok (semantic_owed_files l) (semantic_gap_files l)"
  shows "owed_ok (semantic_owed_files (owe_file language requested path l))
           (semantic_gap_files (owe_file language requested path l))"
proof (cases "MAX_OWED_ATTEMPTS \<le> attempts_after language requested path l")
  case True
  with assms show ?thesis
    by (auto simp: owe_file_def owed_ok_def table_simps insert_ignore_by_def keyed_filter)
next
  case False
  have "1 \<le> attempts_after language requested path l" using assms by (rule attempts_positive)
  with False assms show ?thesis
    by (auto simp: owe_file_def owed_ok_def table_simps owed_table.upsert_set merge_attempts_def
        so_key_def delete_by_def split: if_splits)
qed

lemma settle_file_ok [simp]:
  "owed_ok (semantic_owed_files l) (semantic_gap_files l) \<Longrightarrow>
     owed_ok (semantic_owed_files (settle_file language path l)) (semantic_gap_files (settle_file language path l))"
  by (simp add: settle_file_def delete_by_def)

text \<open>Of the other tables, the loop over owed files changes nothing.\<close>

definition same_but_owed :: "ledger \<Rightarrow> ledger \<Rightarrow> bool" where
  "same_but_owed l l' \<longleftrightarrow>
     l' = l\<lparr>semantic_owed_files := semantic_owed_files l', semantic_gap_files := semantic_gap_files l'\<rparr>"

lemma same_but_owed_step [simp]:
  "same_but_owed l (owe_file language requested path l)" "same_but_owed l (settle_file language path l)"
  by (simp_all add: same_but_owed_def owe_file_def settle_file_def Let_def)

lemma same_but_owed_trans: "same_but_owed l l' \<Longrightarrow> same_but_owed l' l'' \<Longrightarrow> same_but_owed l l''"
  unfolding same_but_owed_def by (metis (no_types, lifting) ledger.surjective ledger.update_convs(9,13))

lemma fold_same_but_owed: "(\<And>x l. same_but_owed l (f x l)) \<Longrightarrow> same_but_owed l (fold f xs l)"
proof (induction xs arbitrary: l)
  case Nil
  show ?case by (simp add: same_but_owed_def)
next
  case (Cons x xs)
  show ?case using same_but_owed_trans [OF Cons.prems(1) [where x = x] Cons.IH [OF Cons.prems(1)]] by simp
qed

lemma settle_owed_files_same: "same_but_owed l (settle_owed_files language requested settled unfinished l)"
  unfolding settle_owed_files_def
  by (rule same_but_owed_trans [OF fold_same_but_owed fold_same_but_owed]) simp_all

lemma settle_owed_files_ok:
  assumes "owed_ok (semantic_owed_files l) (semantic_gap_files l)"
  shows "owed_ok (semantic_owed_files (settle_owed_files language requested settled unfinished l))
    (semantic_gap_files (settle_owed_files language requested settled unfinished l))"
  unfolding settle_owed_files_def
  by (rule fold_invariant_set [where I = "\<lambda>l. owed_ok (semantic_owed_files l) (semantic_gap_files l)"],
      rule fold_invariant_set [where I = "\<lambda>l. owed_ok (semantic_owed_files l) (semantic_gap_files l)"])
    (simp_all add: assms owe_file_ok)

end
