(* ===== verification/Ledger_Correct.thy ===== *)
theory Ledger_Correct
  imports Semantic_Ledger
begin

text \<open>
  What the bookkeeping of \<^verbatim>\<open>core/src/storage/schema.rs\<close> promises: the rows stay consistent under any
  sequence of its statements, the project-wide markers say exactly what the per-language rows say,
  and a language or a file that keeps failing is given up after a fixed number of tries.
\<close>

section \<open>Every statement keeps the rows consistent\<close>

inductive ledger_step :: "store \<Rightarrow> ledger \<Rightarrow> ledger \<Rightarrow> bool" for st where
  Bulk: "ledger_step st l (record_language_bulk_indexed now language fingerprint l)"
| BulkAll: "ledger_step st l (record_bulk_index now st l)"
| Rollup: "ledger_step st l (reconcile_semantic_pass_rollup now st capable l)"
| Outcomes: "distinct (map fst outcomes) \<Longrightarrow> ledger_step st l (record_language_outcomes now outcomes l)"
| Retry: "ledger_step st l (snd (begin_language_retry now language l))"
| RetryFailed: "ledger_step st l (record_language_retry_failed now language error l)"
| RetrySucceeded: "ledger_step st l (record_language_retry_succeeded now language l)"
| PendingReindex: "ledger_step st l (mark_pending_reindex now language changed l)"
| Facts: "ledger_step st l (set_resolution_facts language facts watch l)"
| OweReextracts: "ledger_step st l (owe_reextracts language changed file_paths l)"
| SettleReextracts: "ledger_step st l (settle_owed_reextracts language file_paths l)"
| ClearReextracts: "ledger_step st l (clear_owed_reextracts language l)"
| Pass: "ledger_step st l (record_language_semantic_pass now language l)"
| PassSettled: "ledger_step st l (record_language_semantic_pass_settled now language l)"
| PassResidual: "ledger_step st l (snd (record_language_semantic_residual now language unfinished reason l))"
| PassFailure: "ledger_step st l (record_language_semantic_pass_failure language reason l)"
| PendingFiles: "ledger_step st l (record_semantic_pending_files language file_paths l)"
| ClearPendingFiles: "ledger_step st l (snd (clear_semantic_pending_files file_paths l))"
| ClearStale: "ledger_step st l (snd (clear_stale_semantic_pending capable l))"
| Settle: "ledger_step st l (settle_owed_files language requested settled unfinished l)"
| GoneFile: "ledger_step st l (clear_gone_file_semantic_rows file_path l)"
| EmbeddingModel: "ledger_step st l (set_embedding_model model l)"
| NoisePurge: "ledger_step st l (record_noise_purge now rule l)"
| SeedReconciled: "ledger_step st l (record_seed_reconciled now l)"

lemma facts_ok_set:
  assumes "facts_ok (resolution_facts l) (resolution_watch_paths l)"
  shows "facts_ok (resolution_facts (set_resolution_facts language facts watch l))
           (resolution_watch_paths (set_resolution_facts language facts watch l))"
proof (cases facts)
  case None
  with assms show ?thesis by (auto simp: set_resolution_facts_def facts_ok_def table_simps)
next
  case (Some f)
  have keys: "fst ` set (upsert_by fst take_new (language, f) (resolution_facts l)) =
      insert language (fst ` set (resolution_facts l))"
    using facts_table.upsert_keys [of "(language, f)"] by simp
  let ?rest = "filter (\<lambda>w. snd w \<noteq> language) (resolution_watch_paths l)"
  let ?watch = "fold (\<lambda>path. insert_ignore_by (\<lambda>w. w) (path, language)) watch ?rest"
  have "snd ` set ?watch \<subseteq> insert language (snd ` set (resolution_watch_paths l)) \<and> distinct ?watch"
    by (rule fold_invariant_set [where I = "\<lambda>rows. snd ` set rows \<subseteq>
          insert language (snd ` set (resolution_watch_paths l)) \<and> distinct rows"])
      (use assms in \<open>auto simp: facts_ok_def insert_ignore_by_def\<close>)
  moreover have "snd ` set (resolution_watch_paths l) \<subseteq> fst ` set (resolution_facts l)"
    using assms by (simp add: facts_ok_def)
  ultimately have "snd ` set ?watch \<subseteq> insert language (fst ` set (resolution_facts l))" "distinct ?watch"
    by blast+
  with keys Some assms show ?thesis by (simp add: set_resolution_facts_def facts_ok_def)
qed

lemma settle_ledger_ok [simp]:
  assumes "ledger_ok l"
  shows "ledger_ok (settle_owed_files language requested settled unfinished l)"
proof -
  let ?l = "settle_owed_files language requested settled unfinished l"
  have same: "?l = l\<lparr>semantic_owed_files := semantic_owed_files ?l, semantic_gap_files := semantic_gap_files ?l\<rparr>"
    using settle_owed_files_same unfolding same_but_owed_def .
  have "owed_ok (semantic_owed_files ?l) (semantic_gap_files ?l)"
    using assms by (intro settle_owed_files_ok) (simp add: ledger_ok_def)
  with assms have "ledger_ok (l\<lparr>semantic_owed_files := semantic_owed_files ?l, semantic_gap_files := semantic_gap_files ?l\<rparr>)"
    by (simp add: ledger_ok_def)
  with same show ?thesis by simp
qed

lemma clears_ok [simp]:
  assumes "ledger_ok l"
  shows "ledger_ok (clear_semantic_pending_language language l)" "ledger_ok (clear_semantic_pending language l)"
    "ledger_ok (clear_owed_files language l)" "ledger_ok (clear_residual language l)"
    "ledger_ok (clear_gap_files language l)" "ledger_ok (mark_semantic_pass now language l)"
  using assms
  by (simp_all add: ledger_ok_def clear_semantic_pending_language_def clear_semantic_pending_def
      clear_owed_files_def clear_residual_def clear_gap_files_def mark_semantic_pass_def keyed_filter Let_def)

lemma records_ok [simp]:
  assumes "ledger_ok l"
  shows "ledger_ok (record_language_semantic_pass now language l)"
    "ledger_ok (record_language_semantic_pass_settled now language l)"
    "ledger_ok (record_language_semantic_pass_failure language reason l)"
proof -
  show "ledger_ok (record_language_semantic_pass now language l)"
    "ledger_ok (record_language_semantic_pass_settled now language l)"
    using assms by (simp_all add: record_language_semantic_pass_def clear_semantic_leftovers_def
        record_language_semantic_pass_settled_def)
  have "ledger_ok (l\<lparr>language_state := upsert_by ls_language merge_semantic_error r (language_state l)\<rparr>)" for r
    using assms by (simp add: ledger_ok_def)
  then show "ledger_ok (record_language_semantic_pass_failure language reason l)"
    by (simp add: record_language_semantic_pass_failure_def)
qed

lemma clear_stale_ok: "ledger_ok l \<Longrightarrow> ledger_ok (snd (clear_stale_semantic_pending capable l))"
  unfolding clear_stale_semantic_pending_def
  by (rule fold_invariant_set [where I = "\<lambda>s. ledger_ok (snd s)"])
    (simp_all add: clear_stale_one_def case_prod_beta)

lemma keyed_language_map:
  "keyed key rows \<Longrightarrow> (\<And>r. key (f r) = key r) \<Longrightarrow> keyed key (map (\<lambda>r. if P r then f r else r) rows)"
  by (rule keyed_map) auto

lemma outcome_rows_keyed:
  assumes "distinct (map fst outcomes)"
  shows "keyed lo_language (map (outcome_row now) outcomes)"
proof -
  have "map lo_language (map (outcome_row now) outcomes) = map fst outcomes"
    by (auto simp: outcome_row_def case_prod_beta)
  with assms show ?thesis by (simp only: keyed_def)
qed

lemma ledger_step_ok:
  assumes "ledger_step st l l'" "ledger_ok l"
  shows "ledger_ok l'"
  using assms
proof cases
  case (Facts language facts watch)
  have "facts_ok (resolution_facts l') (resolution_watch_paths l')"
    using facts_ok_set assms(2) Facts by (simp add: ledger_ok_def)
  with Facts assms(2) show ?thesis
    by (cases facts) (simp_all add: ledger_ok_def set_resolution_facts_def)
next
  case (Outcomes outcomes now)
  with assms(2) outcome_rows_keyed [of outcomes now] show ?thesis by (simp add: ledger_ok_def record_language_outcomes_def)
next
  case (PassResidual now language unfinished reason)
  let ?l = "settle_owed_files language [] (filter (\<lambda>path. path \<notin> set unfinished) (owed_files l language))
              unfinished (clear_gap_files language l)"
  have "ledger_ok ?l" using assms(2) by simp
  then have "ledger_ok (?l\<lparr>semantic_residual := upsert_by sr_language merge_residual r (semantic_residual ?l),
      language_state := map (\<lambda>r. if ls_language r = language then r\<lparr>ls_semanticPassError := None\<rparr> else r)
        (language_state ?l)\<rparr>)" for r
    by (auto simp: ledger_ok_def intro: keyed_language_map)
  with PassResidual show ?thesis by (simp add: record_language_semantic_residual_def Let_def)
next
  case (ClearStale capable)
  with assms(2) clear_stale_ok show ?thesis by simp
next
  case Pass with assms(2) show ?thesis by simp
next
  case PassSettled with assms(2) show ?thesis by simp
next
  case PassFailure with assms(2) show ?thesis by simp
next
  case Settle with assms(2) show ?thesis by simp
qed (auto simp: ledger_ok_def record_language_bulk_indexed_def record_bulk_index_def update_meta_def
    reconcile_semantic_pass_rollup_def begin_language_retry_def record_language_retry_failed_def
    record_language_retry_succeeded_def mark_pending_reindex_def owe_reextracts_def
    settle_owed_reextracts_def clear_owed_reextracts_def record_semantic_pending_files_def
    clear_semantic_pending_files_def clear_gone_file_semantic_rows_def set_embedding_model_def
    record_noise_purge_def record_seed_reconciled_def keyed_filter Let_def fold_delete_by
    intro: keyed_language_map)

text \<open>
  The ledgers an index goes through: a fresh file, then statements, version checks (which may wipe
  the index) and the unconditional wipe of \<^verbatim>\<open>cli::reindex\<close>, in any order.
\<close>

inductive ledger_reach :: "ledger \<Rightarrow> bool" where
  Fresh: "ledger_reach empty_ledger"
| Check: "ledger_reach l \<Longrightarrow> ledger_reach (snd (snd (ensure_current ddl_ok now indexer_version (st, l))))"
| Wipe: "ledger_reach l \<Longrightarrow> ledger_reach (snd (reset now indexer_version (st, l)))"
| Seed: "ledger_reach l \<Longrightarrow> record_seed_origin now source_root l = Inr l' \<Longrightarrow> ledger_reach l'"
| Step: "ledger_reach l \<Longrightarrow> ledger_step st l l' \<Longrightarrow> ledger_reach l'"

lemma empty_ledger_ok [simp]:
  "keyed ro_key rows \<Longrightarrow> ledger_ok (empty_ledger\<lparr>reextract_owed_files := rows\<rparr>)" "ledger_ok empty_ledger"
  by (simp_all add: ledger_ok_def empty_ledger_def owed_ok_def facts_ok_def)

lemma version_ok [simp]:
  assumes "ledger_ok l"
  shows "ledger_ok (apply_ddl l)" "ledger_ok (record_version now v l)" "ledger_ok (snd (reset now v (st, l)))"
    "ledger_ok (snd (snd (ensure_current ddl_ok now v (st, l))))"
proof -
  have ok: "ledger_ok (apply_ddl l)" "ledger_ok (record_version now v l)" if "ledger_ok l" for l now v
    using that by (simp_all add: apply_ddl_def record_version_def)
  from ok assms show "ledger_ok (apply_ddl l)" "ledger_ok (record_version now v l)" by simp_all
  have reset: "ledger_ok (snd (reset now v (st, l)))" if "ledger_ok l" for l
    using that by (simp add: reset_def wipe_def ok ledger_ok_def [of l])
  with assms show "ledger_ok (snd (reset now v (st, l)))" by simp
  show "ledger_ok (snd (snd (ensure_current ddl_ok now v (st, l))))"
    using assms ok reset by (simp add: ensure_current_def Let_def split: option.split)
qed

lemma ledger_reach_ok: "ledger_reach l \<Longrightarrow> ledger_ok l"
proof (induction rule: ledger_reach.induct)
  case (Seed l now source_root l')
  then show ?case
    by (auto simp: record_seed_origin_def Let_def split: option.splits)
qed (auto intro: ledger_step_ok)


section \<open>The project-wide markers\<close>

lemma state_of_Some: "ledger_ok l \<Longrightarrow> state_of l language = Some r \<longleftrightarrow> r \<in> set (language_state l) \<and> ls_language r = language"
  unfolding state_of_def by (rule select_by_Some) (simp add: ledger_ok_def)

lemma state_column:
  assumes "ledger_ok l"
  shows "(case state_of l language of None \<Rightarrow> False | Some r \<Rightarrow> column r \<noteq> None) \<longleftrightarrow>
    (\<exists>r\<in>set (language_state l). ls_language r = language \<and> column r \<noteq> None)"
proof (cases "state_of l language")
  case None
  then have "\<forall>r\<in>set (language_state l). ls_language r \<noteq> language" by (simp add: state_of_def select_by_None)
  with None show ?thesis by auto
next
  case (Some r)
  then have "q \<in> set (language_state l) \<and> ls_language q = language \<longleftrightarrow> q = r" for q
    using state_of_Some [OF assms, of language q] by auto
  then have "(\<exists>q\<in>set (language_state l). ls_language q = language \<and> column q \<noteq> None) \<longleftrightarrow> column r \<noteq> None"
    by (simp add: Bex_def conj_assoc [symmetric])
  with Some show ?thesis by simp
qed

lemma present_languages_set:
  "set (present_languages st) = n_language ` {n \<in> set (nodes st). n_kind n = ''File''}"
  by (auto simp: present_languages_def)


section \<open>Retries of a failed language\<close>

text \<open>
  \<^verbatim>\<open>core/src/daemon/activation.rs\<close> \<^verbatim>\<open>retry_failed_languages\<close>, run once by a start of a walked project
  (\<^verbatim>\<open>core/src/daemon/mod.rs\<close>) over the languages owed a retry. What an attempt did is an argument: the
  daemon died in it, or it ended, having swapped the language in or not, with an error or without.
\<close>

datatype attempt = Died | Ended bool "string option"

definition end_attempt :: "string \<Rightarrow> string \<Rightarrow> bool \<Rightarrow> string option \<Rightarrow> ledger \<Rightarrow> ledger" where
  "end_attempt now language swapped error l =
     (let l2 = (if swapped then record_language_retry_succeeded now language l else l)
      in case error of None \<Rightarrow> l2 | Some e \<Rightarrow> record_language_retry_failed now language e l2)"

fun retry_failed_languages ::
  "string \<Rightarrow> (string \<Rightarrow> attempt) \<Rightarrow> string list \<Rightarrow> ledger \<Rightarrow> string list \<times> ledger" where
  "retry_failed_languages now attempts [] l = ([], l)"
| "retry_failed_languages now attempts (language # rest) l =
     (let l1 = snd (begin_language_retry now language l) in
      case attempts language of
        Died \<Rightarrow> ([language], l1)
      | Ended swapped error \<Rightarrow>
          let (log, l') = retry_failed_languages now attempts rest (end_attempt now language swapped error l1)
          in (language # log, l'))"

definition retry_languages :: "string list \<Rightarrow> store \<Rightarrow> ledger \<Rightarrow> string list" where
  "retry_languages discovered st l =
     (if \<not> bulk_index_completed l then []
      else (case languages_owed_a_retry st l discovered of Inl _ \<Rightarrow> [] | Inr owed \<Rightarrow> owed))"

record start =
  at_time :: string
  at_store :: store
  at_discovered :: "string list"
  at_attempts :: "string \<Rightarrow> attempt"

fun starts :: "start list \<Rightarrow> ledger \<Rightarrow> string list \<times> ledger" where
  "starts [] l = ([], l)"
| "starts (s # ss) l =
     (let (log, l1) = retry_failed_languages (at_time s) (at_attempts s)
            (retry_languages (at_discovered s) (at_store s) l) l;
          (log', l') = starts ss l1
      in (log @ log', l'))"

text \<open>The retries a language has left: none unless the last walk failed it.\<close>

definition failed_row :: "ledger \<Rightarrow> string \<Rightarrow> bool" where
  "failed_row l language \<longleftrightarrow>
     (\<exists>r\<in>set (language_outcome l). lo_language r = language \<and> lo_outcome r = ''failed'')"

lemma failed_row_outcomes:
  "failed_row l language \<longleftrightarrow>
     (language, ''failed'') \<in> set (map (\<lambda>r. (lo_language r, lo_outcome r)) (language_outcome l))"
  by (auto simp: failed_row_def)

definition retries_left :: "ledger \<Rightarrow> string \<Rightarrow> nat" where
  "retries_left l language =
     (if failed_row l language then nat (MAX_LANGUAGE_RETRIES - retries_stored l language) else 0)"

definition retry_rows_ok :: "ledger \<Rightarrow> bool" where
  "retry_rows_ok l \<longleftrightarrow>
     keyed lo_language (language_outcome l) \<and> keyed lr_language (language_retry l) \<and>
     (\<forall>r\<in>set (language_retry l). 1 \<le> lr_retries r \<and> lr_retries r \<le> MAX_LANGUAGE_RETRIES)"

lemma retries_stored_nonneg: "retry_rows_ok l \<Longrightarrow> 0 \<le> retries_stored l language"
  by (fastforce simp: retries_stored_def select_by_def retry_rows_ok_def split: option.split dest: find_in)

lemma begin_retry:
  assumes "retry_rows_ok l"
  shows "retries_stored (snd (begin_language_retry now language l)) other =
      (if other = language then retries_stored l other + 1 else retries_stored l other)"
    and "language_outcome (snd (begin_language_retry now language l)) = language_outcome l"
  using assms retry_table.select_upsert [of "language_retry l" other
      "\<lparr>lr_language = language, lr_retries = 1, lr_lastRetryAt = now\<rparr>"]
  by (auto simp: begin_language_retry_def Let_def retries_stored_def retry_rows_ok_def merge_retry_def
      split: option.splits)

lemma begin_retry_rows:
  assumes "retry_rows_ok l" "1 \<le> retries_left l language"
  shows "retry_rows_ok (snd (begin_language_retry now language l))"
proof -
  let ?l = "snd (begin_language_retry now language l)"
  have keyed: "keyed lr_language (language_retry ?l)" "keyed lo_language (language_outcome ?l)"
    using assms(1) by (simp_all add: begin_language_retry_def retry_rows_ok_def Let_def)
  have "1 \<le> lr_retries r \<and> lr_retries r \<le> MAX_LANGUAGE_RETRIES" if r: "r \<in> set (language_retry ?l)" for r
  proof (cases "lr_language r = language")
    case True
    with r have "select_by lr_language language (language_retry ?l) = Some r"
      by (simp add: select_by_Some [OF keyed(1)])
    then have "retries_stored ?l language = lr_retries r" by (simp add: retries_stored_def)
    with begin_retry(1) [OF assms(1), of now language language] retries_stored_nonneg [OF assms(1), of language] assms(2)
    show ?thesis by (auto simp: retries_left_def split: if_splits)
  next
    case False
    with r have "r \<in> set (language_retry l)"
      by (auto simp: begin_language_retry_def Let_def retry_table.upsert_set merge_retry_def split: if_splits)
    with assms(1) show ?thesis by (simp add: retry_rows_ok_def)
  qed
  with keyed show ?thesis by (simp add: retry_rows_ok_def)
qed

text \<open>The two records of an attempt's end give no language a retry it did not have.\<close>

lemma retry_ends:
  assumes "retry_rows_ok l"
  shows "retry_rows_ok (record_language_retry_succeeded now language l)"
    and "retries_left (record_language_retry_succeeded now language l) other =
      (if other = language then 0 else retries_left l other)"
    and "retry_rows_ok (record_language_retry_failed now language error l)"
    and "retries_left (record_language_retry_failed now language error l) other = retries_left l other"
proof -
  show "retry_rows_ok (record_language_retry_succeeded now language l)"
    "retry_rows_ok (record_language_retry_failed now language error l)"
    using assms by (auto simp: retry_rows_ok_def record_language_retry_succeeded_def table_simps
        record_language_retry_failed_def intro: keyed_language_map)
  have "failed_row (record_language_retry_succeeded now language l) other \<longleftrightarrow> other \<noteq> language \<and> failed_row l other"
    by (auto simp: failed_row_def record_language_retry_succeeded_def split: if_splits)
  moreover have "retries_stored (record_language_retry_succeeded now language l) other = retries_stored l other"
    if "other \<noteq> language"
    using that by (simp add: retries_stored_def record_language_retry_succeeded_def delete_by_def select_by_filter)
  ultimately show "retries_left (record_language_retry_succeeded now language l) other =
      (if other = language then 0 else retries_left l other)"
    by (auto simp: retries_left_def)
  have "failed_row (record_language_retry_failed now language error l) other \<longleftrightarrow> failed_row l other"
    unfolding failed_row_outcomes by (rule arg_cong [where f = "\<lambda>xs. (other, ''failed'') \<in> set xs"])
      (auto simp: record_language_retry_failed_def)
  then show "retries_left (record_language_retry_failed now language error l) other = retries_left l other"
    by (simp add: retries_left_def retries_stored_def record_language_retry_failed_def)
qed

lemma end_attempt_left:
  assumes "retry_rows_ok l"
  shows "retry_rows_ok (end_attempt now language swapped error l)"
    and "retries_left (end_attempt now language swapped error l) x \<le> retries_left l x"
    and "x \<noteq> language \<Longrightarrow> retries_left (end_attempt now language swapped error l) x = retries_left l x"
  using retry_ends [OF assms] retry_ends(3,4) [OF retry_ends(1) [OF assms]] assms
  by (auto simp: end_attempt_def Let_def split: option.split)

lemma begin_retry_left:
  assumes "retry_rows_ok l"
  shows "retries_left (snd (begin_language_retry now language l)) other =
    (if other = language then retries_left l other - 1 else retries_left l other)"
proof -
  have "failed_row (snd (begin_language_retry now language l)) other = failed_row l other"
    by (simp add: failed_row_def begin_retry [OF assms])
  then show ?thesis
    using retries_stored_nonneg [OF assms, of language]
    by (auto simp: retries_left_def begin_retry [OF assms])
qed

text \<open>
  One run over distinct languages that each have a retry left: every retry of a language uses one
  of those it had.
\<close>

lemma retry_run:
  assumes "retry_rows_ok l" "distinct languages" "\<forall>x\<in>set languages. 1 \<le> retries_left l x"
    and "retry_failed_languages now attempts languages l = (log, l')"
  shows "retry_rows_ok l' \<and> count_list log x + retries_left l' x \<le> retries_left l x"
  using assms
proof (induction languages arbitrary: l log)
  case (Cons language rest)
  let ?l1 = "snd (begin_language_retry now language l)"
  have l1: "retry_rows_ok ?l1" using Cons.prems begin_retry_rows by simp
  note left1 = begin_retry_left [OF Cons.prems(1), where now = now and language = language]
  show ?case
  proof (cases "attempts language")
    case Died
    with Cons.prems l1 left1 show ?thesis by auto
  next
    case (Ended swapped error)
    let ?l3 = "end_attempt now language swapped error ?l1"
    note l3 = end_attempt_left [OF l1, where now = now and language = language and swapped = swapped and error = error]
    obtain log' where log: "log = language # log'" "retry_failed_languages now attempts rest ?l3 = (log', l')"
      using Cons.prems(4) Ended by (auto simp: Let_def split: prod.splits)
    have "1 \<le> retries_left ?l3 y" if "y \<in> set rest" for y
    proof -
      have "y \<noteq> language" "1 \<le> retries_left l y" using that Cons.prems(2,3) by auto
      with l3(3) [of y] left1 [of y] show ?thesis by simp
    qed
    with Cons.IH [OF l3(1) _ _ log(2)] Cons.prems(2)
    have "retry_rows_ok l' \<and> count_list log' x + retries_left l' x \<le> retries_left ?l3 x" by simp
    with l3(2) [of x] left1 [of x] Cons.prems(3) log(1) show ?thesis by auto
  qed
qed simp

lemma read_outcomes_rows:
  assumes "read_outcomes st rows = Inr outs"
  shows "map fst outs = map lo_language rows \<and>
    (\<forall>(language, out)\<in>set outs. is_failed out \<longrightarrow> (\<exists>r\<in>set rows. lo_language r = language \<and> lo_outcome r = ''failed''))"
  using assms
  by (induction rows arbitrary: outs)
    (fastforce simp: read_outcome_def is_failed_def split: sum.splits if_splits)+

lemma retry_languages_left:
  assumes "retry_rows_ok l"
  shows "distinct (retry_languages discovered st l) \<and>
    (\<forall>x\<in>set (retry_languages discovered st l). 1 \<le> retries_left l x)"
proof (cases "language_outcomes st l")
  case (Inr outs)
  then have rows: "map fst outs = map lo_language (sort_key lo_language (language_outcome l))"
    "\<forall>(language, out)\<in>set outs. is_failed out \<longrightarrow> failed_row l language"
    using read_outcomes_rows [of st "sort_key lo_language (language_outcome l)" outs]
    by (simp_all add: language_outcomes_def failed_row_def)
  have "distinct (map fst outs)"
    using assms unfolding rows(1) by (simp add: retry_rows_ok_def keyed_def distinct_map)
  then have "distinct (map fst (filter P outs))" for P by (rule distinct_map_filter)
  moreover have "1 \<le> retries_left l x"
    if "(x, out) \<in> set outs" "is_failed out"
      "(case language_retries l x of None \<Rightarrow> 0 | Some n \<Rightarrow> n) < MAX_LANGUAGE_RETRIES" for x out
  proof -
    have "retries_stored l x < MAX_LANGUAGE_RETRIES"
      using that(3) assms by (fastforce simp: language_retries_def retries_stored_def u32_or_def retry_rows_ok_def
          MAX_LANGUAGE_RETRIES_def select_by_def split: option.splits if_splits dest: find_in)
    moreover have "failed_row l x" using rows(2) that by auto
    ultimately show ?thesis by (simp add: retries_left_def)
  qed
  ultimately show ?thesis using Inr
    by (auto simp: retry_languages_def languages_owed_a_retry_def split: sum.splits)
qed (simp add: retry_languages_def languages_owed_a_retry_def)

lemma starts_bounded: "retry_rows_ok l \<Longrightarrow> count_list (fst (starts ss l)) x \<le> retries_left l x"
proof (induction ss arbitrary: l)
  case (Cons s ss)
  obtain log l1 where run: "retry_failed_languages (at_time s) (at_attempts s)
      (retry_languages (at_discovered s) (at_store s) l) l = (log, l1)" by fastforce
  have "retry_rows_ok l1 \<and> count_list log x + retries_left l1 x \<le> retries_left l x"
    using retry_run [OF Cons.prems _ _ run] retry_languages_left [OF Cons.prems] by blast
  moreover from this have "count_list (fst (starts ss l1)) x \<le> retries_left l1 x" using Cons.IH by blast
  ultimately show ?case by (simp add: run case_prod_beta)
qed simp

text \<open>
  C19. A language whose plugin keeps failing costs a fixed number of walks: after a full walk recorded
  its outcomes, however many times the daemon starts, and whatever each attempt does (fail, panic,
  succeed, or take the daemon down with it), one language is retried at most twice before the next
  full walk.
\<close>

theorem retries_are_bounded:
  assumes "distinct (map fst outcomes)"
  shows "count_list (fst (starts ss (record_language_outcomes now outcomes l))) language \<le> 2"
proof -
  let ?l = "record_language_outcomes now outcomes l"
  have "retry_rows_ok ?l"
    using outcome_rows_keyed [OF assms] by (simp add: retry_rows_ok_def record_language_outcomes_def)
  then have "count_list (fst (starts ss ?l)) language \<le> retries_left ?l language" by (rule starts_bounded)
  also have "\<dots> \<le> 2"
    by (simp add: retries_left_def MAX_LANGUAGE_RETRIES_def record_language_outcomes_def retries_stored_def select_by_def)
  finally show ?thesis .
qed

section \<open>What a wipe keeps\<close>

text \<open>
  \<^verbatim>\<open>wipe\<close> says that a version mismatch throws away every fact its generation recorded; the re-extracts
  owed by the old generation stay.
\<close>

lemma reset_keeps_owed_reextracts:
  "owed_reextracts exists (snd (reset now indexer_version (st, l))) = owed_reextracts exists l"
  by (simp add: owed_reextracts_def reset_def wipe_def apply_ddl_def record_version_def)

section \<open>Witnesses\<close>

text \<open>Two passes that both left \<open>a\<close> unanswered, and a third over \<open>b\<close>.\<close>

definition sample_owed :: ledger where
  "sample_owed =
     settle_owed_files ''rs'' [] [] [''b'']
       (settle_owed_files ''rs'' [] [] [''a''] (settle_owed_files ''rs'' [] [] [''b'', ''a'']
         (settle_owed_files ''rs'' [] [] [''a'', ''b''] (record_version ''t'' ''v'' (apply_ddl empty_ledger)))))"

lemma sample_owed_reach: "ledger_reach sample_owed"
proof -
  have "ensure_current True ''t'' ''v'' (empty_store, empty_ledger) =
      (Inr True, empty_store, record_version ''t'' ''v'' (apply_ddl empty_ledger))"
    by (simp add: ensure_current_def empty_ledger_def)
  then have "ledger_reach (record_version ''t'' ''v'' (apply_ddl empty_ledger))"
    using ledger_reach.Check [OF ledger_reach.Fresh, of True "''t''" "''v''" empty_store] by simp
  then show ?thesis unfolding sample_owed_def
    by (intro ledger_reach.Step [OF _ ledger_step.Settle])
qed


text \<open>A language without a semantic tier beside one whose pass is not recorded.\<close>

definition sample_file :: "string \<Rightarrow> NodeRow" where
  "sample_file language =
     \<lparr>n_id = language, n_kind = ''File'', n_name = language, n_qualifiedName = language, n_filePath = language,
      n_startLine = 0, n_startCol = 0, n_endLine = 0, n_endCol = 0, n_signature = None, n_visibility = ''public'',
      n_visibilityContainer = None, n_docComment = None, n_language = language, n_nativeKind = None,
      n_hasSyntaxErrors = False, n_generated = False, n_container = None, n_qualifiedPath = None\<rparr>"

definition sample_project :: store where
  "sample_project = empty_store\<lparr>nodes := [sample_file ''rs'', sample_file ''md'']\<rparr>"

definition sample_walked :: ledger where
  "sample_walked = record_language_bulk_indexed ''t'' ''md'' None
     (record_language_bulk_indexed ''t'' ''rs'' None (record_version ''t'' ''v'' (apply_ddl empty_ledger)))"

lemma sample_walked_reach: "ledger_reach sample_walked"
proof -
  have "ledger_reach (record_version ''t'' ''v'' (apply_ddl empty_ledger))"
    using ledger_reach.Wipe [OF ledger_reach.Fresh, of "''t''" "''v''" empty_store]
    by (simp add: reset_def wipe_def empty_ledger_def)
  then show ?thesis unfolding sample_walked_def
    by (intro ledger_reach.Step [OF _ ledger_step.Bulk])
qed


text \<open>Four starts over a plugin that never starts: two retries.\<close>

definition sample_start :: start where
  "sample_start =
     \<lparr>at_time = ''t'', at_store = empty_store, at_discovered = [''py''],
      at_attempts = (\<lambda>_. Ended False (Some ''no interpreter''))\<rparr>"

definition sample_failed :: ledger where
  "sample_failed = record_bulk_index ''t'' empty_store (record_version ''t'' ''v'' empty_ledger)"

theorem retries_are_bounded_witness:
  "fst (starts (replicate 4 sample_start)
      (record_language_outcomes ''t'' [(''py'', Failed ''gone'')] sample_failed)) = [''py'', ''py''] \<and>
   count_list (fst (starts (replicate 4 sample_start)
      (record_language_outcomes ''t'' [(''py'', Failed ''gone'')] sample_failed))) ''py'' \<le> 2"
proof -
  have "fst (starts (replicate 4 sample_start)
      (record_language_outcomes ''t'' [(''py'', Failed ''gone'')] sample_failed)) = [''py'', ''py'']"
    by code_simp
  moreover have "distinct (map fst [(''py'', Failed ''gone'')])" by simp
  ultimately show ?thesis using retries_are_bounded by blast
qed

end
