(* ===== verification/Language_Swap.thy ===== *)
theory Language_Swap
  imports Embed_Store Ledger_Correct Symbol_Links
begin

text \<open>
  \<^verbatim>\<open>core/src/storage/language_swap.rs\<close>: the reindex of one language walks into a staging index, \<open>plan\<close>
  compares it with the live one, and \<open>swap\<close> applies the difference to the live index in one
  transaction. \<open>main\<close> is the staging index, \<open>live\<close> the index being served; attaching the files and
  their URIs are left out. \<^verbatim>\<open>EXCEPT\<close> compares whole rows, so a row of one side is in the difference
  when the other side does not hold it.
\<close>

section \<open>The plan\<close>

definition all_node_ids :: "store \<Rightarrow> string list" where
  "all_node_ids st = map n_id (nodes st)"

definition all_edge_ids :: "store \<Rightarrow> string list" where
  "all_edge_ids st = map e_id (edges st)"

definition live_of :: "string \<Rightarrow> store \<Rightarrow> NodeRow list" where
  "live_of language live = filter (\<lambda>n. n_language n = language) (nodes live)"

definition plan_keep_nodes :: "string \<Rightarrow> bool \<Rightarrow> store \<Rightarrow> store \<Rightarrow> string list" where
  "plan_keep_nodes language keep main live =
     (if keep
      then map n_id (filter (\<lambda>n. n_kind n = ''Module'' \<and> n_nativeKind n = Some PENDING_SYMBOL_NATIVE_KIND \<and>
             n_id n \<notin> set (all_node_ids main)) (live_of language live))
      else [])"

definition plan_delete_nodes :: "string \<Rightarrow> string list \<Rightarrow> store \<Rightarrow> store \<Rightarrow> string list" where
  "plan_delete_nodes language kept main live =
     map n_id (filter (\<lambda>n. n_id n \<notin> set (all_node_ids main) \<and> n_id n \<notin> set kept) (live_of language live))"

text \<open>The two statements about one child table: its rows that one side holds and the other lacks.\<close>

definition child_diff :: "('r \<Rightarrow> string) \<Rightarrow> string list \<Rightarrow> 'r list \<Rightarrow> 'r list \<Rightarrow> string list" where
  "child_diff node_of staged_ids staged_rows live_rows =
     (let mine = filter (\<lambda>r. node_of r \<in> set staged_ids) live_rows
      in map node_of (filter (\<lambda>r. r \<notin> set mine) staged_rows @ filter (\<lambda>r. r \<notin> set staged_rows) mine))"

definition plan_upsert_nodes :: "string \<Rightarrow> store \<Rightarrow> store \<Rightarrow> string list" where
  "plan_upsert_nodes language main live =
     remdups
       (map n_id (filter (\<lambda>n. n_language n = language \<and> n \<notin> set (live_of language live)) (nodes main)) @
        child_diff fst (all_node_ids main) (declarations main) (declarations live) @
        child_diff t_nodeId (all_node_ids main) (placeholder_targets main) (placeholder_targets live) @
        child_diff fst (all_node_ids main) (placeholder_also_scopes main) (placeholder_also_scopes live) @
        child_diff snd (all_node_ids main) (qualified_suffixes main) (qualified_suffixes live) @
        child_diff snd (all_node_ids main) (untyped_calls main) (untyped_calls live))"

definition plan_unchanged_nodes :: "string \<Rightarrow> string list \<Rightarrow> store \<Rightarrow> store \<Rightarrow> string list" where
  "plan_unchanged_nodes language upserts main live =
     map n_id (filter (\<lambda>s. n_id s \<in> set (map n_id (live_of language live)) \<and> n_id s \<notin> set upserts \<and>
       n_nativeKind s \<noteq> Some CONTAINER_NATIVE_KIND) (nodes main))"

definition survives :: "string \<Rightarrow> string list \<Rightarrow> store \<Rightarrow> store \<Rightarrow> string \<Rightarrow> bool" where
  "survives language kept main live x \<longleftrightarrow>
     x \<in> set (all_node_ids main) \<or> x \<in> set kept \<or>
     list_ex (\<lambda>n. n_id n = x \<and> n_language n \<noteq> language) (nodes live)"

definition dropped :: "string \<Rightarrow> string list \<Rightarrow> string list \<Rightarrow> store \<Rightarrow> store \<Rightarrow> EdgeRow \<Rightarrow> bool" where
  "dropped language kept unchanged main live e \<longleftrightarrow>
     \<not> survives language kept main live (e_toId e) \<or>
     (e_source e = ''syntactic'' \<and> e_fromId e \<in> set unchanged \<and> e_id e \<notin> set (all_edge_ids main))"

definition plan_delete_edges ::
  "string \<Rightarrow> string list \<Rightarrow> string list \<Rightarrow> store \<Rightarrow> store \<Rightarrow> string list" where
  "plan_delete_edges language kept unchanged main live =
     (let mine = map n_id (live_of language live)
      in map e_id (filter (\<lambda>e. (e_fromId e \<in> set mine \<or> e_toId e \<in> set mine) \<and>
           (if e_fromId e \<in> set unchanged \<or> e_fromId e \<in> set kept
            then dropped language kept unchanged main live e
            else e_id e \<notin> set (all_edge_ids main))) (edges live)))"

definition plan_upsert_edges ::
  "string \<Rightarrow> string list \<Rightarrow> string list \<Rightarrow> store \<Rightarrow> store \<Rightarrow> string list" where
  "plan_upsert_edges language kept unchanged main live =
     map e_id (filter (\<lambda>s.
         s \<notin> set (filter (\<lambda>e. e_id e \<in> set (all_edge_ids main)) (edges live)) \<and>
         (e_fromId s \<notin> set unchanged \<or>
          list_ex (\<lambda>t. e_id t = e_id s \<and> e_source t = ''syntactic'') (edges live) \<or>
          (list_ex (\<lambda>d. e_fromId d = e_fromId s \<and> e_kind d = e_kind s \<and>
             dropped language kept unchanged main live d) (edges live) \<and>
           \<not> list_ex (\<lambda>l. e_id l = e_id s \<and> survives language kept main live (e_toId l)) (edges live))))
       (edges main))"

definition plan_pending_files ::
  "string list \<Rightarrow> string list \<Rightarrow> string list \<Rightarrow> store \<Rightarrow> store \<Rightarrow> string list" where
  "plan_pending_files changed_nodes new_edges gone_edges main live =
     remdups (map n_filePath (filter (\<lambda>n.
         (n_id n \<in> set changed_nodes \<or>
          n_id n \<in> set (map e_fromId (filter (\<lambda>e. e_id e \<in> set new_edges) (edges main))) \<or>
          n_id n \<in> set (map e_fromId (filter (\<lambda>e. e_id e \<in> set gone_edges) (edges live)))) \<and>
         n_filePath n \<in> set (map n_filePath (filter (\<lambda>f. n_kind f = ''File'') (nodes main)))) (nodes main)))"

definition plan_delete_containers :: "string \<Rightarrow> store \<Rightarrow> store \<Rightarrow> string list" where
  "plan_delete_containers language main live =
     map c_nodeId (filter (\<lambda>c. c_language c = language \<and> c_nodeId c \<notin> set (map c_nodeId (containers main)))
       (containers live))"

definition plan_upsert_containers :: "string \<Rightarrow> store \<Rightarrow> store \<Rightarrow> string list" where
  "plan_upsert_containers language main live =
     map c_nodeId (filter (\<lambda>c. c_language c = language \<and>
       c \<notin> set (filter (\<lambda>d. c_language d = language) (containers live))) (containers main))"

text \<open>The row of one planned upsert: its text before and after, and what its vector was made by.\<close>

definition side_text :: "NodeRow option \<Rightarrow> string option" where
  "side_text row =
     node_text (case row of
        None \<Rightarrow> \<lparr>ei_kind = [], ei_name = [], ei_qualified_name = [], ei_file_path = [], ei_doc = None,
          ei_signature = None, ei_generated = False\<rparr>
      | Some r \<Rightarrow> row_input r)"

definition text_changed :: "store \<Rightarrow> NodeRow \<Rightarrow> bool" where
  "text_changed live staged \<longleftrightarrow>
     (let l = select_by n_id (n_id staged) (nodes live);
          version = map_option v_embeddingVersion (select_by v_nodeId (n_id staged) (vectors live))
      in l \<noteq> None \<and>
         (side_text l \<noteq> side_text (Some staged) \<or> (side_text (Some staged) = None \<and> version \<noteq> None)))"

definition owed_embedding :: "string \<Rightarrow> store \<Rightarrow> NodeRow \<Rightarrow> bool" where
  "owed_embedding embedding_version live staged \<longleftrightarrow>
     select_by n_id (n_id staged) (nodes live) = None \<or> text_changed live staged \<or>
     map_option v_embeddingVersion (select_by v_nodeId (n_id staged) (vectors live)) \<noteq> Some embedding_version"

definition to_embed_record :: "NodeRow \<Rightarrow> NodeRecord" where
  "to_embed_record r =
     (new_NodeRecord (n_id r) (n_kind r) (n_name r) (n_qualifiedName r) (n_filePath r) [])
       \<lparr>nr_doc_comment := n_docComment r, nr_signature := n_signature r\<rparr>"

definition plan_embeddings :: "string \<Rightarrow> string list \<Rightarrow> store \<Rightarrow> store \<Rightarrow> string list \<times> NodeRecord list" where
  "plan_embeddings embedding_version upserts main live =
     (let staged = List.map_filter (\<lambda>i. select_by n_id i (nodes main)) upserts
      in (map n_id (filter (text_changed live) staged),
          map to_embed_record (filter (\<lambda>s. side_text (Some s) \<noteq> None \<and> owed_embedding embedding_version live s) staged)))"

record Plan =
  p_keep_nodes :: "string list"
  p_delete_nodes :: "string list"
  p_upsert_nodes :: "string list"
  p_unchanged_nodes :: "string list"
  p_text_changed :: "string list"
  p_delete_edges :: "string list"
  p_upsert_edges :: "string list"
  p_pending_files :: "string list"
  p_delete_containers :: "string list"
  p_upsert_containers :: "string list"
  p_to_embed :: "NodeRecord list"

definition plan :: "store \<Rightarrow> store \<Rightarrow> string \<Rightarrow> string \<Rightarrow> bool \<Rightarrow> Plan" where
  "plan main live language embedding_version keep_semantic_placeholders =
     (let kept = plan_keep_nodes language keep_semantic_placeholders main live;
          upserts = plan_upsert_nodes language main live;
          unchanged = plan_unchanged_nodes language upserts main live;
          gone_edges = plan_delete_edges language kept unchanged main live;
          new_edges = plan_upsert_edges language kept unchanged main live;
          (changed, to_embed) = plan_embeddings embedding_version upserts main live
      in \<lparr>p_keep_nodes = kept,
          p_delete_nodes = plan_delete_nodes language kept main live,
          p_upsert_nodes = upserts, p_unchanged_nodes = unchanged, p_text_changed = changed,
          p_delete_edges = gone_edges, p_upsert_edges = new_edges,
          p_pending_files = plan_pending_files upserts new_edges gone_edges main live,
          p_delete_containers = plan_delete_containers language main live,
          p_upsert_containers = plan_upsert_containers language main live,
          p_to_embed = to_embed\<rparr>)"

section \<open>The swap\<close>

record SwapBookkeeping =
  sb_language :: string
  sb_plugin_fingerprint :: string
  sb_semantic_pass_languages :: "string set"
  sb_retried :: bool

definition merge_container_row :: "ContainerRow \<Rightarrow> ContainerRow \<Rightarrow> ContainerRow" where
  "merge_container_row old new = new"

definition merge_swapped_edge :: "EdgeRow \<Rightarrow> EdgeRow \<Rightarrow> EdgeRow" where
  "merge_swapped_edge old new = new"

definition swap_children :: "('r \<Rightarrow> string) \<Rightarrow> Plan \<Rightarrow> 'r list \<Rightarrow> 'r list \<Rightarrow> 'r list" where
  "swap_children node_of p staged_rows live_rows =
     filter (\<lambda>r. node_of r \<notin> set (p_delete_nodes p) \<and> node_of r \<notin> set (p_upsert_nodes p)) live_rows @
     filter (\<lambda>r. node_of r \<in> set (p_upsert_nodes p)) staged_rows"

definition swap_rows :: "Plan \<Rightarrow> store \<Rightarrow> store \<Rightarrow> store" where
  "swap_rows p staging live =
     live\<lparr>nodes := fold (upsert_by n_id merge_node)
            (filter (\<lambda>n. n_id n \<in> set (p_upsert_nodes p)) (nodes staging))
            (filter (\<lambda>n. n_id n \<notin> set (p_delete_nodes p)) (nodes live)),
       edges := fold (upsert_by e_id merge_swapped_edge)
            (filter (\<lambda>e. e_id e \<in> set (p_upsert_edges p)) (edges staging))
            (filter (\<lambda>e. e_id e \<notin> set (p_delete_edges p)) (edges live)),
       declarations := swap_children fst p (declarations staging) (declarations live),
       containers := fold (upsert_by c_nodeId merge_container_row)
            (filter (\<lambda>c. c_nodeId c \<in> set (p_upsert_containers p)) (containers staging))
            (filter (\<lambda>c. c_nodeId c \<notin> set (p_delete_containers p) \<and> c_nodeId c \<notin> set (p_delete_nodes p))
              (containers live)),
       placeholder_targets := swap_children t_nodeId p (placeholder_targets staging) (placeholder_targets live),
       placeholder_also_scopes :=
         swap_children fst p (placeholder_also_scopes staging) (placeholder_also_scopes live),
       qualified_suffixes := swap_children snd p (qualified_suffixes staging) (qualified_suffixes live),
       untyped_calls := swap_children snd p (untyped_calls staging) (untyped_calls live),
       vectors := filter (\<lambda>v. v_nodeId v \<notin> set (p_delete_nodes p) \<and> v_nodeId v \<notin> set (p_text_changed p))
         (vectors live)\<rparr>"

definition merge_swapped_state :: "LanguageStateRow \<Rightarrow> LanguageStateRow \<Rightarrow> LanguageStateRow" where
  "merge_swapped_state old new =
     old\<lparr>ls_bulkIndexedAt := ls_bulkIndexedAt new, ls_pluginFingerprint := ls_pluginFingerprint new,
       ls_semanticPassAt := None\<rparr>"

definition swap_state :: "string \<Rightarrow> SwapBookkeeping \<Rightarrow> ledger \<Rightarrow> ledger" where
  "swap_state now b l =
     l\<lparr>language_state := upsert_by ls_language merge_swapped_state
        ((blank_state (sb_language b))\<lparr>ls_bulkIndexedAt := Some now,
           ls_pluginFingerprint := Some (sb_plugin_fingerprint b)\<rparr>) (language_state l)\<rparr>"

definition swap_pending :: "string \<Rightarrow> SwapBookkeeping \<Rightarrow> Plan \<Rightarrow> ledger \<Rightarrow> ledger" where
  "swap_pending now b p l =
     (if sb_language b \<in> sb_semantic_pass_languages b
      then record_semantic_pending_files (sb_language b) (p_pending_files p)
             (l\<lparr>semantic_pending := upsert_by fst take_new (sb_language b, now) (semantic_pending l)\<rparr>)
      else l)"

definition swap_facts :: "string \<Rightarrow> ledger \<Rightarrow> ledger \<Rightarrow> ledger" where
  "swap_facts language staging l =
     l\<lparr>resolution_facts := delete_by fst language (resolution_facts l) @
          filter (\<lambda>f. fst f = language) (resolution_facts staging),
       resolution_watch_paths := filter (\<lambda>w. snd w \<noteq> language) (resolution_watch_paths l) @
          filter (\<lambda>w. snd w = language) (resolution_watch_paths staging)\<rparr>"

definition swap_ledger ::
  "string \<Rightarrow> SwapBookkeeping \<Rightarrow> Plan \<Rightarrow> ledger \<Rightarrow> store \<Rightarrow> ledger \<Rightarrow> ledger" where
  "swap_ledger now b p staging st l =
     (let language = sb_language b;
          l1 = swap_pending now b p (swap_state now b l);
          l2 = swap_facts language staging (clear_semantic_leftovers language l1);
          l3 = reconcile_semantic_pass_rollup now st (sb_semantic_pass_languages b) (record_bulk_index now st l2);
          l4 = clear_owed_reextracts language
                 (l3\<lparr>pending_reindex := delete_by pr_language language (pending_reindex l3)\<rparr>)
      in if sb_retried b then record_language_retry_succeeded now language l4 else l4)"

definition swap ::
  "string \<Rightarrow> SwapBookkeeping \<Rightarrow> (pipeline \<times> ComputedBatch) option \<Rightarrow> Plan \<Rightarrow> store \<times> ledger \<Rightarrow>
     store \<times> ledger \<Rightarrow> string list \<times> store \<times> ledger" where
  "swap now b stored p staging db =
     (let st1 = swap_rows p (fst staging) (fst db);
          (st2, l2) = (case stored of None \<Rightarrow> (st1, snd db)
             | Some (pl, computed) \<Rightarrow> store_batch pl computed (st1, snd db))
      in (sort (p_keep_nodes p), st2, swap_ledger now b p (snd staging) st2 l2))"

definition still_placeholder :: "string \<Rightarrow> NodeRow \<Rightarrow> bool" where
  "still_placeholder language n \<longleftrightarrow>
     n_language n = language \<and> n_kind n = ''Module'' \<and> n_nativeKind n = Some PENDING_SYMBOL_NATIVE_KIND"

definition delete_placeholder :: "string \<Rightarrow> store \<Rightarrow> store" where
  "delete_placeholder i st =
     st\<lparr>edges := filter (\<lambda>e. e_fromId e \<noteq> i \<and> e_toId e \<noteq> i) (edges st),
       vectors := delete_by v_nodeId i (vectors st),
       declarations := filter (\<lambda>r. fst r \<noteq> i) (declarations st),
       placeholder_targets := filter (\<lambda>r. t_nodeId r \<noteq> i) (placeholder_targets st),
       placeholder_also_scopes := filter (\<lambda>r. fst r \<noteq> i) (placeholder_also_scopes st),
       qualified_suffixes := filter (\<lambda>r. snd r \<noteq> i) (qualified_suffixes st),
       untyped_calls := filter (\<lambda>r. snd r \<noteq> i) (untyped_calls st),
       containers := delete_by c_nodeId i (containers st),
       nodes := delete_by n_id i (nodes st)\<rparr>"

fun delete_placeholders :: "string \<Rightarrow> string list \<Rightarrow> store \<Rightarrow> nat \<times> store" where
  "delete_placeholders language [] st = (0, st)"
| "delete_placeholders language (i # is) st =
     (if list_ex (\<lambda>n. n_id n = i \<and> still_placeholder language n) (nodes st)
      then (let (deleted, st') = delete_placeholders language is (delete_placeholder i st)
            in (deleted + length (filter (\<lambda>n. n_id n = i) (nodes st)), st'))
      else delete_placeholders language is st)"

section \<open>What the swap leaves\<close>

text \<open>A table whose upsert takes the new row whole.\<close>

locale replacing_table = keyed_table +
  assumes merge_new: "merge old new = new"
begin

lemma fold_replace:
  assumes "keyed key rows" "keyed key news"
  shows "set (fold (upsert_by key merge) news rows) = set news \<union> {r \<in> set rows. key r \<notin> key ` set news}"
  using assms
proof (induction news arbitrary: rows)
  case (Cons x xs)
  have "set (upsert_by key merge x rows) = insert x {r \<in> set rows. key r \<noteq> key x}"
    unfolding upsert_set by (auto simp: merge_new)
  moreover have "key x \<notin> key ` set xs" using Cons.prems(2) by (simp add: keyed_def)
  ultimately show ?case
    using Cons.IH [OF keyed_upsert [OF Cons.prems(1)], of x] Cons.prems(2) by (auto simp: keyed_def)
qed simp

end

interpretation swapped_nodes: replacing_table n_id merge_node
  by unfold_locales (simp_all add: merge_node_def)

interpretation swapped_edges: replacing_table e_id merge_swapped_edge
  by unfold_locales (simp_all add: merge_swapped_edge_def)

interpretation swapped_containers: replacing_table c_nodeId merge_container_row
  by unfold_locales (simp_all add: merge_container_row_def)

text \<open>
  What the swap relies on: ids are unique on both sides, staging holds only the language, and its
  child rows belong to its nodes (which the write path guarantees of every index).
\<close>

definition staged_ok :: "string \<Rightarrow> store \<Rightarrow> store \<Rightarrow> bool" where
  "staged_ok language main live \<longleftrightarrow>
     keyed n_id (nodes main) \<and> keyed n_id (nodes live) \<and> (\<forall>n\<in>set (nodes main). n_language n = language) \<and>
     fst ` set (declarations main) \<subseteq> set (all_node_ids main) \<and>
     t_nodeId ` set (placeholder_targets main) \<subseteq> set (all_node_ids main) \<and>
     fst ` set (placeholder_also_scopes main) \<subseteq> set (all_node_ids main) \<and>
     snd ` set (qualified_suffixes main) \<subseteq> set (all_node_ids main) \<and>
     snd ` set (untyped_calls main) \<subseteq> set (all_node_ids main)"

lemma plan_fields [simp]:
  "p_keep_nodes (plan main live language v keep) = plan_keep_nodes language keep main live"
  "p_delete_nodes (plan main live language v keep) =
     plan_delete_nodes language (plan_keep_nodes language keep main live) main live"
  "p_upsert_nodes (plan main live language v keep) = plan_upsert_nodes language main live"
  "p_unchanged_nodes (plan main live language v keep) =
     plan_unchanged_nodes language (plan_upsert_nodes language main live) main live"
  by (simp_all add: plan_def Let_def case_prod_beta)

lemma child_diff_same:
  assumes "i \<notin> set (child_diff node_of ids staged_rows live_rows)" "i \<in> set ids"
  shows "{r \<in> set live_rows. node_of r = i} = {r \<in> set staged_rows. node_of r = i}"
  using assms by (auto simp: child_diff_def Let_def image_iff)

lemma upsert_ids_staged:
  assumes "staged_ok language main live"
  shows "set (plan_upsert_nodes language main live) \<subseteq> set (all_node_ids main)"
  using assms by (auto simp: plan_upsert_nodes_def child_diff_def Let_def staged_ok_def all_node_ids_def)

lemma delete_ids_live:
  "set (plan_delete_nodes language kept main live) =
     {i. \<exists>n\<in>set (nodes live). n_id n = i \<and> n_language n = language \<and> i \<notin> set (all_node_ids main) \<and> i \<notin> set kept}"
  by (auto simp: plan_delete_nodes_def live_of_def)

text \<open>The rows of one child table after the swap.\<close>

lemma swapped_children:
  assumes "staged_ok language main live" "node_of ` set staged_rows \<subseteq> set (all_node_ids main)"
    and "set (child_diff node_of (all_node_ids main) staged_rows live_rows) \<subseteq> set (plan_upsert_nodes language main live)"
  shows "set (swap_children node_of (plan main live language v keep) staged_rows live_rows) =
    set staged_rows \<union> {r \<in> set live_rows. node_of r \<notin> set (all_node_ids main) \<and>
      node_of r \<notin> set (p_delete_nodes (plan main live language v keep))}"
proof -
  let ?D = "set (plan_delete_nodes language (plan_keep_nodes language keep main live) main live)"
  let ?U = "set (plan_upsert_nodes language main live)"
  have U: "?U \<subseteq> set (all_node_ids main)" using upsert_ids_staged [OF assms(1)] .
  have D: "?D \<inter> set (all_node_ids main) = {}" by (auto simp: delete_ids_live)
  have same: "r \<in> set live_rows \<longleftrightarrow> r \<in> set staged_rows" if "node_of r \<in> set (all_node_ids main)" "node_of r \<notin> ?U" for r
    using child_diff_same [of "node_of r" node_of "all_node_ids main" staged_rows live_rows] that assms(3) by blast
  show ?thesis unfolding swap_children_def plan_fields
    using U D same assms(2) by auto
qed

lemma swapped_node_rows:
  assumes "staged_ok language main live"
  shows "set (nodes (swap_rows (plan main live language v keep) main live)) =
    set (nodes main) \<union> {n \<in> set (nodes live). n_id n \<notin> set (all_node_ids main) \<and>
      (n_language n \<noteq> language \<or> n_id n \<in> set (plan_keep_nodes language keep main live))}"
proof -
  let ?D = "set (plan_delete_nodes language (plan_keep_nodes language keep main live) main live)"
  let ?U = "set (plan_upsert_nodes language main live)"
  let ?news = "filter (\<lambda>n. n_id n \<in> ?U) (nodes main)" and ?rest = "filter (\<lambda>n. n_id n \<notin> ?D) (nodes live)"
  have k: "keyed n_id ?rest" "keyed n_id ?news" using assms by (auto simp: staged_ok_def keyed_filter)
  have same: "n \<in> set (nodes live)" if "n \<in> set (nodes main)" "n_id n \<notin> ?U" for n
    using that assms by (auto simp: plan_upsert_nodes_def live_of_def staged_ok_def)
  have inj: "n = m" if "n \<in> set (nodes live)" "m \<in> set (nodes live)" "n_id n = n_id m" for n m
    using that assms keyed_inj [of n_id "nodes live"] by (auto simp: staged_ok_def)
  have ids: "n_id n \<in> set (all_node_ids main) \<longleftrightarrow> (\<exists>m\<in>set (nodes main). n_id m = n_id n)" for n
    by (auto simp: all_node_ids_def intro: rev_image_eqI)
  have "set (nodes (swap_rows (plan main live language v keep) main live)) =
      set ?news \<union> {r \<in> set ?rest. n_id r \<notin> n_id ` set ?news}"
    using swapped_nodes.fold_replace [OF k] by (simp add: swap_rows_def)
  also have "\<dots> = set (nodes main) \<union> {n \<in> set (nodes live). n_id n \<notin> set (all_node_ids main) \<and> n_id n \<notin> ?D}"
  proof (intro set_eqI iffI)
    fix n assume n: "n \<in> set ?news \<union> {r \<in> set ?rest. n_id r \<notin> n_id ` set ?news}"
    show "n \<in> set (nodes main) \<union> {n \<in> set (nodes live). n_id n \<notin> set (all_node_ids main) \<and> n_id n \<notin> ?D}"
    proof (cases "n \<in> set ?news \<or> n_id n \<notin> set (all_node_ids main)")
      case False
      then obtain m where m: "m \<in> set (nodes main)" "n_id m = n_id n" by (auto simp: ids)
      have "n_id n \<in> n_id ` set ?news" if "n_id m \<in> ?U"
        by (rule rev_image_eqI [of m]) (use m that in auto)
      with n False have "n_id m \<notin> ?U" by blast
      with same m n False inj have "m = n" by auto
      with m show ?thesis by simp
    qed (use n in auto)
  next
    fix n assume n: "n \<in> set (nodes main) \<union> {n \<in> set (nodes live). n_id n \<notin> set (all_node_ids main) \<and> n_id n \<notin> ?D}"
    then show "n \<in> set ?news \<union> {r \<in> set ?rest. n_id r \<notin> n_id ` set ?news}"
      using same by (auto simp: all_node_ids_def delete_ids_live)
  qed
  also have "{n \<in> set (nodes live). n_id n \<notin> set (all_node_ids main) \<and> n_id n \<notin> ?D} =
      {n \<in> set (nodes live). n_id n \<notin> set (all_node_ids main) \<and>
        (n_language n \<noteq> language \<or> n_id n \<in> set (plan_keep_nodes language keep main live))}"
    using inj by (auto simp: delete_ids_live)
  finally show ?thesis .
qed

text \<open>
  C10. A swap replaces one language and nothing else: afterwards the nodes are the staged ones, the kept
  placeholders of the language and every node of the other languages, and each child table
  (declarations, placeholder targets, also-scopes, qualified suffixes, untyped calls) holds for every
  staged node exactly the staged rows, for a deleted node none, and for any other node what it held.
  Rows equal on both sides are never rewritten, so only the difference is applied, and the result is
  the same as replacing everything.
\<close>

theorem swap_replaces_language:
  fixes main live :: store and language embedding_version :: string and keep :: bool
  assumes "staged_ok language main live"
  defines "p \<equiv> plan main live language embedding_version keep"
  defines "st \<equiv> swap_rows p main live"
  defines "stays \<equiv> \<lambda>i. i \<notin> set (all_node_ids main) \<and> i \<notin> set (p_delete_nodes p)"
  shows "set (nodes st) = set (nodes main) \<union>
      {n \<in> set (nodes live). n_id n \<notin> set (all_node_ids main) \<and>
        (n_language n \<noteq> language \<or> n_id n \<in> set (p_keep_nodes p))} \<and>
    set (declarations st) = set (declarations main) \<union> {r \<in> set (declarations live). stays (fst r)} \<and>
    set (placeholder_targets st) =
      set (placeholder_targets main) \<union> {r \<in> set (placeholder_targets live). stays (t_nodeId r)} \<and>
    set (placeholder_also_scopes st) =
      set (placeholder_also_scopes main) \<union> {r \<in> set (placeholder_also_scopes live). stays (fst r)} \<and>
    set (qualified_suffixes st) =
      set (qualified_suffixes main) \<union> {r \<in> set (qualified_suffixes live). stays (snd r)} \<and>
    set (untyped_calls st) = set (untyped_calls main) \<union> {r \<in> set (untyped_calls live). stays (snd r)}"
proof -
  have child: "set (swap_children node_of p staged_rows live_rows) =
      set staged_rows \<union> {r \<in> set live_rows. stays (node_of r)}"
    if "node_of ` set staged_rows \<subseteq> set (all_node_ids main)"
      "set (child_diff node_of (all_node_ids main) staged_rows live_rows) \<subseteq> set (plan_upsert_nodes language main live)"
    for node_of :: "'r \<Rightarrow> string" and staged_rows live_rows
    using swapped_children [OF assms(1) that] by (simp add: p_def stays_def)
  note sub = assms(1) [unfolded staged_ok_def]
  have "set (nodes st) = set (nodes main) \<union>
      {n \<in> set (nodes live). n_id n \<notin> set (all_node_ids main) \<and>
        (n_language n \<noteq> language \<or> n_id n \<in> set (p_keep_nodes p))}"
    using swapped_node_rows [OF assms(1)] by (simp add: p_def st_def)
  moreover have "set (declarations st) = set (declarations main) \<union> {r \<in> set (declarations live). stays (fst r)}"
    using child [of fst "declarations main" "declarations live"] sub
    by (auto simp: st_def swap_rows_def plan_upsert_nodes_def)
  moreover have "set (placeholder_targets st) =
      set (placeholder_targets main) \<union> {r \<in> set (placeholder_targets live). stays (t_nodeId r)}"
    using child [of t_nodeId "placeholder_targets main" "placeholder_targets live"] sub
    by (auto simp: st_def swap_rows_def plan_upsert_nodes_def)
  moreover have "set (placeholder_also_scopes st) =
      set (placeholder_also_scopes main) \<union> {r \<in> set (placeholder_also_scopes live). stays (fst r)}"
    using child [of fst "placeholder_also_scopes main" "placeholder_also_scopes live"] sub
    by (auto simp: st_def swap_rows_def plan_upsert_nodes_def)
  moreover have "set (qualified_suffixes st) =
      set (qualified_suffixes main) \<union> {r \<in> set (qualified_suffixes live). stays (snd r)}"
    using child [of snd "qualified_suffixes main" "qualified_suffixes live"] sub
    by (auto simp: st_def swap_rows_def plan_upsert_nodes_def)
  moreover have "set (untyped_calls st) = set (untyped_calls main) \<union> {r \<in> set (untyped_calls live). stays (snd r)}"
    using child [of snd "untyped_calls main" "untyped_calls live"] sub
    by (auto simp: st_def swap_rows_def plan_upsert_nodes_def)
  ultimately show ?thesis by blast
qed

section \<open>What the swap does to edges\<close>

lemma plan_edge_fields [simp]:
  "p_delete_edges (plan main live language v keep) =
     plan_delete_edges language (plan_keep_nodes language keep main live)
       (plan_unchanged_nodes language (plan_upsert_nodes language main live) main live) main live"
  "p_upsert_edges (plan main live language v keep) =
     plan_upsert_edges language (plan_keep_nodes language keep main live)
       (plan_unchanged_nodes language (plan_upsert_nodes language main live) main live) main live"
  by (simp_all add: plan_def Let_def case_prod_beta)

text \<open>
  The edge ids are digests over the edge's start, kind and target, so the same id starts at the same
  node on both sides; no staged id belongs to another language, and an edge stored for a staged node
  starts at a stored node.
\<close>

definition staged_edges_ok :: "string \<Rightarrow> store \<Rightarrow> store \<Rightarrow> bool" where
  "staged_edges_ok language main live \<longleftrightarrow>
     keyed e_id (edges main) \<and> keyed e_id (edges live) \<and>
     (\<forall>e\<in>set (edges live). \<forall>s\<in>set (edges main). e_id e = e_id s \<longrightarrow> e_fromId e = e_fromId s) \<and>
     (\<forall>e\<in>set (edges live). e_fromId e \<in> set (all_node_ids main) \<longrightarrow>
        e_fromId e \<in> set (map n_id (live_of language live)))"

lemma staged_edges_okD:
  assumes "staged_edges_ok language main live"
  shows "e \<in> set (edges live) \<Longrightarrow> s \<in> set (edges main) \<Longrightarrow> e_id e = e_id s \<Longrightarrow> e_fromId e = e_fromId s"
    and "e \<in> set (edges live) \<Longrightarrow> e' \<in> set (edges live) \<Longrightarrow> e_id e = e_id e' \<Longrightarrow> e = e'"
    and "s \<in> set (edges main) \<Longrightarrow> s' \<in> set (edges main) \<Longrightarrow> e_id s = e_id s' \<Longrightarrow> s = s'"
    and "e \<in> set (edges live) \<Longrightarrow> e_fromId e \<in> set (all_node_ids main) \<Longrightarrow>
      e_fromId e \<in> set (map n_id (live_of language live))"
  using assms keyed_inj [of e_id "edges live"] keyed_inj [of e_id "edges main"]
  unfolding staged_edges_ok_def by blast+

lemma swapped_edge_rows:
  assumes "staged_edges_ok language main live"
  shows "e \<in> set (edges (swap_rows p main live)) \<longleftrightarrow>
    (e \<in> set (edges main) \<and> e_id e \<in> set (p_upsert_edges p)) \<or>
    (e \<in> set (edges live) \<and> e_id e \<notin> set (p_delete_edges p) \<and>
     (\<forall>s\<in>set (edges main). e_id s = e_id e \<longrightarrow> e_id s \<notin> set (p_upsert_edges p)))"
proof -
  let ?news = "filter (\<lambda>s. e_id s \<in> set (p_upsert_edges p)) (edges main)"
  have "set (edges (swap_rows p main live)) = set ?news \<union>
      {r \<in> set (filter (\<lambda>e. e_id e \<notin> set (p_delete_edges p)) (edges live)). e_id r \<notin> e_id ` set ?news}"
    using assms swapped_edges.fold_replace [of "filter (\<lambda>e. e_id e \<notin> set (p_delete_edges p)) (edges live)" ?news]
    by (simp add: swap_rows_def staged_edges_ok_def keyed_filter)
  moreover have "e_id e \<notin> e_id ` set ?news \<longleftrightarrow>
      (\<forall>s\<in>set (edges main). e_id s = e_id e \<longrightarrow> e_id s \<notin> set (p_upsert_edges p))"
    by (auto intro: rev_image_eqI)
  ultimately show ?thesis by simp
qed

lemma planned_upsert:
  assumes "staged_edges_ok language main live" "s \<in> set (edges main)"
  shows "e_id s \<in> set (plan_upsert_edges language kept unchanged main live) \<longleftrightarrow>
    s \<notin> set (edges live) \<and>
    (e_fromId s \<notin> set unchanged \<or> (\<exists>t\<in>set (edges live). e_id t = e_id s \<and> e_source t = ''syntactic'') \<or>
     ((\<exists>d\<in>set (edges live). e_fromId d = e_fromId s \<and> e_kind d = e_kind s \<and>
         dropped language kept unchanged main live d) \<and>
      \<not> (\<exists>l\<in>set (edges live). e_id l = e_id s \<and> survives language kept main live (e_toId l))))"
proof -
  have inj: "s' = s" if "s' \<in> set (edges main)" "e_id s' = e_id s" for s'
    using that assms staged_edges_okD(3) by blast
  have ids: "e_id s \<in> set (all_edge_ids main)" using assms(2) by (auto simp: all_edge_ids_def)
  have "e_id s \<in> e_id ` {x \<in> set (edges main). Q x} \<longleftrightarrow> Q s" for Q
    using inj assms(2) by auto
  with ids show ?thesis by (simp add: plan_upsert_edges_def list_ex_iff)
qed

lemma planned_delete:
  assumes "staged_edges_ok language main live" "e \<in> set (edges live)"
  shows "e_id e \<in> set (plan_delete_edges language kept unchanged main live) \<longleftrightarrow>
    (e_fromId e \<in> set (map n_id (live_of language live)) \<or> e_toId e \<in> set (map n_id (live_of language live))) \<and>
    (if e_fromId e \<in> set unchanged \<or> e_fromId e \<in> set kept
     then dropped language kept unchanged main live e else e_id e \<notin> set (all_edge_ids main))"
proof -
  have inj: "e' = e" if "e' \<in> set (edges live)" "e_id e' = e_id e" for e'
    using that assms staged_edges_okD(2) by blast
  have "e_id e \<in> e_id ` {x \<in> set (edges live). Q x} \<longleftrightarrow> Q e" for Q
    using inj assms(2) by auto
  then show ?thesis by (simp add: plan_delete_edges_def Let_def)
qed

lemma kept_not_staged: "x \<in> set (plan_keep_nodes language keep main live) \<Longrightarrow> x \<notin> set (all_node_ids main)"
  by (auto simp: plan_keep_nodes_def split: if_splits)

text \<open>The outgoing edges of a staged node that is not unchanged.\<close>

lemma changed_node_edges:
  assumes ok: "staged_edges_ok language main live" and x: "x \<in> set (all_node_ids main)"
    and changed: "x \<notin> set (p_unchanged_nodes (plan main live language v keep))"
  shows "{e \<in> set (edges (swap_rows (plan main live language v keep) main live)). e_fromId e = x} =
    {e \<in> set (edges main). e_fromId e = x}"
proof (intro set_eqI iffI; clarsimp)
  let ?U = "plan_unchanged_nodes language (plan_upsert_nodes language main live) main live"
  let ?K = "plan_keep_nodes language keep main live"
  let ?st = "swap_rows (plan main live language v keep) main live"
  have notkept: "x \<notin> set ?K" using x kept_not_staged by blast
  {
    fix e assume e: "e \<in> set (edges ?st)" "x = e_fromId e"
    show "e \<in> set (edges main)"
    proof (rule ccontr)
      assume new: "e \<notin> set (edges main)"
      with e have live: "e \<in> set (edges live)" "e_id e \<notin> set (plan_delete_edges language ?K ?U main live)"
        and not_taken: "\<forall>s\<in>set (edges main). e_id s = e_id e \<longrightarrow> e_id s \<notin> set (plan_upsert_edges language ?K ?U main live)"
        using swapped_edge_rows [OF ok] by auto
      have "e_fromId e \<in> set (map n_id (live_of language live))"
        using staged_edges_okD(4) [OF ok live(1)] x e(2) by simp
      with live changed e(2) notkept have "e_id e \<in> set (all_edge_ids main)"
        using planned_delete [OF ok live(1), of ?K ?U] by auto
      then obtain s where s: "s \<in> set (edges main)" "e_id s = e_id e" by (auto simp: all_edge_ids_def)
      have "s \<notin> set (edges live)"
        using s new live(1) staged_edges_okD(2) [OF ok] by blast
      moreover have "e_fromId s = x" using staged_edges_okD(1) [OF ok live(1) s(1)] s(2) e(2) by simp
      ultimately have "e_id s \<in> set (plan_upsert_edges language ?K ?U main live)"
        using planned_upsert [OF ok s(1)] changed by auto
      with not_taken s show False by blast
    qed
  }
  {
    fix e assume e: "e \<in> set (edges main)" "x = e_fromId e"
    show "e \<in> set (edges ?st)"
    proof (cases "e \<in> set (edges live)")
      case True
      have "e_id e \<in> set (all_edge_ids main)" using e by (auto simp: all_edge_ids_def)
      then have "e_id e \<notin> set (plan_delete_edges language ?K ?U main live)"
        using planned_delete [OF ok True, of ?K ?U] changed notkept e(2) by auto
      moreover have "s = e" if "s \<in> set (edges main)" "e_id s = e_id e" for s
        using that e(1) staged_edges_okD(3) [OF ok] by blast
      moreover have "e_id e \<notin> set (plan_upsert_edges language ?K ?U main live)"
        using planned_upsert [OF ok e(1)] True by simp
      ultimately show ?thesis using swapped_edge_rows [OF ok] True by auto
    next
      case False
      then have "e_id e \<in> set (plan_upsert_edges language ?K ?U main live)"
        using planned_upsert [OF ok e(1)] changed e(2) by auto
      with e show ?thesis using swapped_edge_rows [OF ok] by auto
    qed
  }
qed

text \<open>An unchanged node keeps what the semantic tier wrote, unless the target is gone.\<close>

lemma unchanged_node_keeps:
  assumes ok: "staged_edges_ok language main live" and e: "e \<in> set (edges live)"
    and from_e: "e_fromId e \<in> set (p_unchanged_nodes (plan main live language v keep))"
    and semantic: "e_source e \<noteq> ''syntactic''"
    and target: "survives language (p_keep_nodes (plan main live language v keep)) main live (e_toId e)"
  shows "e \<in> set (edges (swap_rows (plan main live language v keep) main live))"
proof -
  let ?U = "plan_unchanged_nodes language (plan_upsert_nodes language main live) main live"
  let ?K = "plan_keep_nodes language keep main live"
  have "\<not> dropped language ?K ?U main live e" using semantic target by (simp add: dropped_def)
  then have "e_id e \<notin> set (plan_delete_edges language ?K ?U main live)"
    using planned_delete [OF ok e, of ?K ?U] from_e by simp
  moreover have "e_id s \<notin> set (plan_upsert_edges language ?K ?U main live)"
    if s: "s \<in> set (edges main)" "e_id s = e_id e" for s
  proof -
    have "e_fromId s \<in> set ?U" using staged_edges_okD(1) [OF ok e s(1)] s(2) from_e by simp
    moreover have "\<not> (\<exists>t\<in>set (edges live). e_id t = e_id s \<and> e_source t = ''syntactic'')"
      using staged_edges_okD(2) [OF ok _ e] s(2) semantic by auto
    moreover have "\<exists>l\<in>set (edges live). e_id l = e_id s \<and> survives language ?K main live (e_toId l)"
      using e s(2) target by auto
    ultimately show ?thesis using planned_upsert [OF ok s(1), of ?K ?U] by blast
  qed
  ultimately show ?thesis using swapped_edge_rows [OF ok] e by auto
qed

lemma survives_stored:
  assumes "staged_ok language main live"
    and "survives language (p_keep_nodes (plan main live language v keep)) main live x"
  shows "x \<in> set (all_node_ids (swap_rows (plan main live language v keep) main live))"
proof -
  let ?K = "plan_keep_nodes language keep main live"
  have kept: "\<exists>n\<in>set (nodes live). n_id n = x" if "x \<in> set ?K"
    using that by (auto simp: plan_keep_nodes_def live_of_def split: if_splits)
  have "\<exists>n\<in>set (nodes (swap_rows (plan main live language v keep) main live)). n_id n = x"
  proof (cases "x \<in> set (all_node_ids main)")
    case True
    then show ?thesis unfolding swapped_node_rows [OF assms(1)] by (auto simp: all_node_ids_def)
  next
    case False
    with assms(2) kept obtain n where "n \<in> set (nodes live)" "n_id n = x" "n_language n \<noteq> language \<or> x \<in> set ?K"
      unfolding survives_def plan_fields list_ex_iff by blast
    with False show ?thesis unfolding swapped_node_rows [OF assms(1)] by blast
  qed
  then show ?thesis by (auto simp: all_node_ids_def)
qed

lemma swapped_edge_target:
  assumes nodes_ok: "staged_ok language main live" and ok: "staged_edges_ok language main live"
    and closed: "\<forall>s\<in>set (edges main). e_toId s \<in> set (all_node_ids main)"
    and e: "e \<in> set (edges (swap_rows (plan main live language v keep) main live))"
    and from_e: "e_fromId e \<in> set (all_node_ids main) \<or> e_fromId e \<in> set (p_keep_nodes (plan main live language v keep))"
  shows "e_toId e \<in> set (all_node_ids (swap_rows (plan main live language v keep) main live))"
proof (cases "e \<in> set (edges main)")
  case True
  then have "survives language (p_keep_nodes (plan main live language v keep)) main live (e_toId e)"
    using closed by (simp add: survives_def)
  then show ?thesis by (rule survives_stored [OF nodes_ok])
next
  case False
  let ?U = "plan_unchanged_nodes language (plan_upsert_nodes language main live) main live"
  let ?K = "plan_keep_nodes language keep main live"
  have live: "e \<in> set (edges live)" "e_id e \<notin> set (plan_delete_edges language ?K ?U main live)"
    using False e swapped_edge_rows [OF ok] by auto
  have cases: "e_fromId e \<in> set ?U \<or> e_fromId e \<in> set ?K"
  proof (rule ccontr)
    assume "\<not> ?thesis"
    with from_e have "e_fromId e \<in> set (all_node_ids main)"
      "e_fromId e \<notin> set (p_unchanged_nodes (plan main live language v keep))" by simp_all
    from changed_node_edges [OF ok this] e False show False by blast
  qed
  have "e_fromId e \<in> set (map n_id (live_of language live))"
    using cases by (auto simp: plan_unchanged_nodes_def plan_keep_nodes_def split: if_splits)
  with live cases have "\<not> dropped language ?K ?U main live e"
    using planned_delete [OF ok live(1), of ?K ?U] by auto
  then have "survives language (p_keep_nodes (plan main live language v keep)) main live (e_toId e)"
    by (simp add: dropped_def)
  then show ?thesis by (rule survives_stored [OF nodes_ok])
qed


section \<open>What the swap does to the bookkeeping\<close>

text \<open>The row a swap writes for its language: walked now, its semantic pass owed.\<close>

lemma swap_state_row:
  assumes "ledger_ok l"
  shows "\<exists>r. state_of (swap_state now b l) (sb_language b) = Some r \<and> ls_bulkIndexedAt r = Some now \<and>
    ls_semanticPassAt r = None"
    and "language \<noteq> sb_language b \<Longrightarrow> state_of (swap_state now b l) language = state_of l language"
proof -
  have k: "keyed ls_language (language_state l)" using assms by (simp add: ledger_ok_def)
  have t: "keyed_table ls_language merge_swapped_state"
    by unfold_locales (simp add: merge_swapped_state_def)
  note sel = keyed_table.select_upsert [OF t k]
  show "\<exists>r. state_of (swap_state now b l) (sb_language b) = Some r \<and> ls_bulkIndexedAt r = Some now \<and>
    ls_semanticPassAt r = None"
    by (auto simp: state_of_def swap_state_def sel blank_state_def merge_swapped_state_def split: option.split)
  show "language \<noteq> sb_language b \<Longrightarrow> state_of (swap_state now b l) language = state_of l language"
    by (simp add: state_of_def swap_state_def sel blank_state_def)
qed

lemma swap_state_ok: "ledger_ok l \<Longrightarrow> ledger_ok (swap_state now b l)"
proof -
  have "keyed_table ls_language merge_swapped_state"
    by unfold_locales (simp add: merge_swapped_state_def)
  then show "ledger_ok l \<Longrightarrow> ledger_ok (swap_state now b l)"
    by (simp add: ledger_ok_def swap_state_def keyed_table.keyed_upsert)
qed

lemma swap_pending_ok: "ledger_ok l \<Longrightarrow> ledger_ok (swap_pending now b p l)"
  by (simp add: ledger_ok_def swap_pending_def record_semantic_pending_files_def)

lemma swap_facts_ok:
  assumes "ledger_ok l" "ledger_ok staging"
  shows "ledger_ok (swap_facts language staging l)"
proof -
  have "facts_ok (resolution_facts l) (resolution_watch_paths l)"
    "facts_ok (resolution_facts staging) (resolution_watch_paths staging)"
    using assms by (auto simp: ledger_ok_def)
  then have parts: "distinct (map fst (filter (\<lambda>f. fst f \<noteq> language) (resolution_facts l)))"
      "distinct (map fst (filter (\<lambda>f. fst f = language) (resolution_facts staging)))"
      "distinct (resolution_watch_paths l)" "distinct (resolution_watch_paths staging)"
      "snd ` set (resolution_watch_paths l) \<subseteq> fst ` set (resolution_facts l)"
      "snd ` set (resolution_watch_paths staging) \<subseteq> fst ` set (resolution_facts staging)"
    by (simp_all add: facts_ok_def keyed_def distinct_map_filter)
  have sub: "snd ` {w \<in> set ws. Q (snd w)} \<subseteq> fst ` {f \<in> set fs. Q (fst f)}"
    if "snd ` set ws \<subseteq> fst ` set fs" for ws fs :: "(string \<times> string) list" and Q :: "string \<Rightarrow> bool"
  proof
    fix x assume "x \<in> snd ` {w \<in> set ws. Q (snd w)}"
    then have "Q x" "x \<in> fst ` set fs" using that by auto
    then show "x \<in> fst ` {f \<in> set fs. Q (fst f)}" by auto
  qed
  note sub [OF parts(5), of "\<lambda>x. x \<noteq> language"] sub [OF parts(6), of "\<lambda>x. x = language"]
  with parts(1-4) have "facts_ok (resolution_facts (swap_facts language staging l)) (resolution_watch_paths (swap_facts language staging l))"
    by (simp add: facts_ok_def swap_facts_def delete_by_def keyed_def image_Un) blast
  with assms(1) show ?thesis by (simp add: ledger_ok_def swap_facts_def)
qed

lemma update_meta_ok: "ledger_ok (update_meta f l) = ledger_ok l"
  by (simp add: update_meta_def)

lemma swap_ledger_ok:
  assumes "ledger_ok l" "ledger_ok staging"
  shows "ledger_ok (swap_ledger now b p staging st l)"
proof -
  let ?l1 = "swap_pending now b p (swap_state now b l)"
  let ?l2 = "swap_facts (sb_language b) staging (clear_semantic_leftovers (sb_language b) ?l1)"
  let ?l3 = "reconcile_semantic_pass_rollup now st (sb_semantic_pass_languages b) (record_bulk_index now st ?l2)"
  let ?l4 = "clear_owed_reextracts (sb_language b)
      (?l3\<lparr>pending_reindex := delete_by pr_language (sb_language b) (pending_reindex ?l3)\<rparr>)"
  have "ledger_ok ?l1" using assms(1) by (intro swap_pending_ok swap_state_ok)
  then have "ledger_ok ?l2"
    by (intro swap_facts_ok assms(2)) (simp add: clear_semantic_leftovers_def)
  then have "ledger_ok ?l3"
    by (simp add: reconcile_semantic_pass_rollup_def record_bulk_index_def update_meta_ok)
  then have l4: "ledger_ok ?l4" by (simp add: ledger_ok_def clear_owed_reextracts_def keyed_filter)
  then have "ledger_ok (record_language_retry_succeeded now (sb_language b) ?l4)"
    by (rule ledger_step_ok [OF ledger_step.RetrySucceeded])
  with l4 show ?thesis by (simp only: swap_ledger_def Let_def split: if_split) simp
qed

text \<open>The tables of the later steps are those of the earlier ones.\<close>

lemma later_steps:
  "language_state (swap_ledger now b p staging st l) = language_state (swap_state now b l)"
  "semantic_residual (swap_ledger now b p staging st l) = delete_by sr_language (sb_language b) (semantic_residual l)"
  "semantic_pending (swap_ledger now b p staging st l) = semantic_pending (swap_pending now b p (swap_state now b l))"
  "meta (swap_ledger now b p staging st l) =
     meta (reconcile_semantic_pass_rollup now st (sb_semantic_pass_languages b) (record_bulk_index now st
       (swap_facts (sb_language b) staging (clear_semantic_leftovers (sb_language b)
         (swap_pending now b p (swap_state now b l))))))"
  by (simp_all add: swap_ledger_def Let_def record_language_retry_succeeded_def clear_owed_reextracts_def
      reconcile_semantic_pass_rollup_def record_bulk_index_def update_meta_def swap_facts_def
      clear_semantic_leftovers_def clear_gap_files_def clear_residual_def clear_owed_files_def swap_pending_def
      record_semantic_pending_files_def swap_state_def)

lemma earlier_states [simp]:
  "language_state (update_meta f l) = language_state l"
  "language_state (record_bulk_index now st l) = language_state l"
  "language_state (swap_facts language staging l) = language_state l"
  "language_state (clear_semantic_leftovers language l) = language_state l"
  "language_state (swap_pending now b p l) = language_state l"
  by (simp_all add: update_meta_def record_bulk_index_def swap_facts_def clear_semantic_leftovers_def
      clear_gap_files_def clear_residual_def clear_owed_files_def swap_pending_def record_semantic_pending_files_def)

lemma owed_languages_cong:
  "language_state l = language_state l' \<Longrightarrow>
     owed_semantic_pass_languages st l capable = owed_semantic_pass_languages st l' capable"
  by (simp add: owed_semantic_pass_languages_def state_of_def)

lemma rollup_not_completed:
  "owed_semantic_pass_languages st l capable \<noteq> [] \<Longrightarrow>
     \<not> semantic_pass_completed (reconcile_semantic_pass_rollup now st capable l)"
  by (auto simp: semantic_pass_completed_def reconcile_semantic_pass_rollup_def update_meta_def
      every_present_semantic_language_has_passed_def split: option.splits)


section \<open>Witnesses\<close>

text \<open>
  Live: \<open>a\<close> and \<open>b\<close> of the language, a placeholder \<open>q\<close> of it, and \<open>c\<close> of another language, with a
  semantic edge from \<open>a\<close> to the placeholder. Staging: \<open>a\<close> as it was and a new \<open>d\<close>.
\<close>

definition sample_row :: "string \<Rightarrow> string \<Rightarrow> NodeRow" where
  "sample_row i language = (sample_file language)\<lparr>n_id := i, n_name := i\<rparr>"

definition sample_edge :: "string \<Rightarrow> string \<Rightarrow> string \<Rightarrow> string \<Rightarrow> EdgeRow" where
  "sample_edge i a z source =
     \<lparr>e_id = i, e_fromId = a, e_toId = z, e_kind = ''CALLS'', e_source = source, e_engine = ''x'', e_resolved = True,
      e_toDeclaration = None, e_linkedFrom = None, e_specifier = None\<rparr>"

definition sample_live :: store where
  "sample_live = empty_store\<lparr>nodes := [sample_row ''a'' ''rs'', sample_row ''b'' ''rs'',
       (sample_row ''q'' ''rs'')\<lparr>n_kind := ''Module'', n_nativeKind := Some ''pending_symbol''\<rparr>, sample_row ''c'' ''go''],
     edges := [sample_edge ''1'' ''a'' ''q'' ''semantic'', sample_edge ''2'' ''b'' ''a'' ''syntactic''],
     qualified_suffixes := [(''x::b'', ''b''), (''x::c'', ''c'')]\<rparr>"

definition sample_staging :: store where
  "sample_staging = empty_store\<lparr>nodes := [sample_row ''a'' ''rs'', sample_row ''d'' ''rs''],
     edges := [sample_edge ''3'' ''d'' ''a'' ''syntactic''], qualified_suffixes := [(''x::d'', ''d'')]\<rparr>"

definition sample_swapped :: store where
  "sample_swapped = swap_rows (plan sample_staging sample_live ''rs'' ''v'' True) sample_staging sample_live"

lemma sample_staged_ok: "staged_ok ''rs'' sample_staging sample_live"
  by code_simp

lemma sample_staged_edges_ok: "staged_edges_ok ''rs'' sample_staging sample_live"
  by code_simp

theorem swap_replaces_language_witness:
  "map n_id (nodes sample_swapped) = [''a'', ''q'', ''c'', ''d''] \<and>
   set (qualified_suffixes sample_swapped) = {(''x::d'', ''d''), (''x::c'', ''c'')}"
proof -
  let ?p = "plan sample_staging sample_live ''rs'' ''v'' True"
  have "map n_id (nodes sample_swapped) = [''a'', ''q'', ''c'', ''d'']" by code_simp
  moreover have "set (qualified_suffixes sample_swapped) = set (qualified_suffixes sample_staging) \<union>
      {r \<in> set (qualified_suffixes sample_live). snd r \<notin> set (all_node_ids sample_staging) \<and> snd r \<notin> set (p_delete_nodes ?p)}"
    using swap_replaces_language [OF sample_staged_ok, of "''v''" True] unfolding sample_swapped_def by blast
  moreover have "set (p_delete_nodes ?p) = {''b''}" "set (all_node_ids sample_staging) = {''a'', ''d''}" by code_simp+
  moreover have "qualified_suffixes sample_staging = [(''x::d'', ''d'')]"
    "qualified_suffixes sample_live = [(''x::b'', ''b''), (''x::c'', ''c'')]"
    by (simp_all add: sample_staging_def sample_live_def)
  moreover have "{r \<in> set [(''x::b'', ''b''), (''x::c'', ''c'')]. snd r \<notin> {''a'', ''d''} \<and> snd r \<notin> {''b''}} = {(''x::c'', ''c'')}"
    by auto
  ultimately show ?thesis by simp
qed


definition sample_bookkeeping :: SwapBookkeeping where
  "sample_bookkeeping = \<lparr>sb_language = ''rs'', sb_plugin_fingerprint = ''f'', sb_semantic_pass_languages = {''rs''},
     sb_retried = False\<rparr>"


end
