(* ===== verification/Index_Store.thy ===== *)
theory Index_Store
  imports Language_Swap Import_Links File_Rows
begin

text \<open>
  \<^verbatim>\<open>core/src/storage/index_store.rs\<close>: the owner of the index. Its state is the index (\<open>is_db\<close>), the
  placeholders each language's last swap kept and no diff has upserted since (\<open>is_unclaimed\<close>) and the
  linking rules. Every operation takes the store for itself, so operations are steps on this state;
  the mutex, the thread-local check against re-entry and the hooks of the tests are left out. A
  transaction commits what its body wrote even when the body failed, since the units of the body roll
  themselves back; \<open>committed\<close> is whether the commit itself succeeds.
\<close>

type_synonym db = "store \<times> ledger"

datatype index_error = Rejected store_error | CommitFailed

record IndexStore =
  is_db :: db
  is_unclaimed :: "string \<Rightarrow> string set option"
  is_link_rules :: LinkRules

definition new_IndexStore :: "db \<Rightarrow> IndexStore" where
  "new_IndexStore conn =
     \<lparr>is_db = conn, is_unclaimed = (\<lambda>_. None),
      is_link_rules = \<lparr>lr_named_shadows_glob = [], lr_later_import_binds = []\<rparr>\<rparr>"

definition with_link_rules :: "LinkRules \<Rightarrow> IndexStore \<Rightarrow> IndexStore" where
  "with_link_rules rules s = s\<lparr>is_link_rules := rules\<rparr>"

definition in_one_commit ::
  "bool \<Rightarrow> (db \<Rightarrow> db \<times> (index_error + 'a)) \<Rightarrow> db \<Rightarrow> db \<times> (index_error + 'a)" where
  "in_one_commit committed f conn =
     (let (written, result) = f conn
      in if committed then (written, result)
         else (conn, case result of Inl err \<Rightarrow> Inl err | Inr _ \<Rightarrow> Inl CommitFailed))"

definition link_applied :: "Diff \<Rightarrow> LinkRules \<Rightarrow> store \<Rightarrow> store" where
  "link_applied d rules st = fst (link_diff rules d (fst (link_diff_imports d st)))"

definition apply_and_link :: "digest \<Rightarrow> Diff \<Rightarrow> LinkRules \<Rightarrow> store \<Rightarrow> store \<times> (index_error + unit)" where
  "apply_and_link sha d rules st =
     (let (st1, r) = apply_diff sha st d
      in case r of Inl err \<Rightarrow> (st1, Inl (Rejected err)) | Inr _ \<Rightarrow> (link_applied d rules st1, Inr ()))"

definition claim_ids :: "string list \<Rightarrow> string set option \<Rightarrow> string set option" where
  "claim_ids claimed u =
     (case u of
        None \<Rightarrow> None
      | Some ids \<Rightarrow> (let rest = ids - set claimed in if rest = {} then None else Some rest))"

definition claim :: "Diff \<Rightarrow> IndexStore \<Rightarrow> IndexStore" where
  "claim d s =
     s\<lparr>is_unclaimed := (\<lambda>language. claim_ids (map nr_id (upsert_nodes d)) (is_unclaimed s language))\<rparr>"

definition unclaimed_nodes :: "string \<Rightarrow> IndexStore \<Rightarrow> string list" where
  "unclaimed_nodes language s =
     (case is_unclaimed s language of None \<Rightarrow> [] | Some ids \<Rightarrow> sorted_list_of_set ids)"

definition commit_batch :: "digest \<Rightarrow> Diff \<Rightarrow> IndexStore \<Rightarrow> IndexStore \<times> (index_error + unit)" where
  "commit_batch sha d s =
     (let (st1, r) = apply_diff sha (fst (is_db s)) d; s1 = s\<lparr>is_db := (st1, snd (is_db s))\<rparr>
      in case r of Inl err \<Rightarrow> (s1, Inl (Rejected err)) | Inr _ \<Rightarrow> (claim d s1, Inr ()))"

record LinkCounts =
  lc_imports :: nat
  lc_symbols :: nat

definition store_link_all :: "IndexStore \<Rightarrow> IndexStore \<times> LinkCounts" where
  "store_link_all s =
     (let (st1, linked) = link_all_imports (fst (is_db s));
          (st2, symbols) = link_all (is_link_rules s) st1
      in (s\<lparr>is_db := (st2, snd (is_db s))\<rparr>, \<lparr>lc_imports = linked_edges linked, lc_symbols = symbols\<rparr>))"

definition swap_language ::
  "string \<Rightarrow> Plan \<Rightarrow> db \<Rightarrow> (pipeline \<times> ComputedBatch) option \<Rightarrow> SwapBookkeeping \<Rightarrow> IndexStore \<Rightarrow> IndexStore \<times> nat" where
  "swap_language now p staging stored b s =
     (let (kept, db) = swap now b stored p staging (is_db s)
      in (s\<lparr>is_db := db,
           is_unclaimed := (is_unclaimed s)(sb_language b := (if kept = [] then None else Some (set kept)))\<rparr>,
          length kept))"

record LinkedFileDiff =
  lf_gone_importers :: "string list"
  lf_waiting_importers :: "LanguagePath list"

definition apply_diff_linked :: "digest \<Rightarrow> bool \<Rightarrow> Diff \<Rightarrow> IndexStore \<Rightarrow> IndexStore \<times> (index_error + unit)" where
  "apply_diff_linked sha committed d s =
     (let (db, r) = in_one_commit committed (\<lambda>(st, l).
            let (st', r) = apply_and_link sha d (is_link_rules s) st in ((st', l), r)) (is_db s);
          s1 = s\<lparr>is_db := db\<rparr>
      in case r of Inl err \<Rightarrow> (s1, Inl err) | Inr _ \<Rightarrow> (claim d s1, Inr ()))"

definition apply_semantic_diff_linked ::
  "digest \<Rightarrow> bool \<Rightarrow> Diff \<Rightarrow> IndexStore \<Rightarrow> IndexStore \<times> (index_error + Diff)" where
  "apply_semantic_diff_linked sha committed d s =
     (let (db, r) = in_one_commit committed (\<lambda>(st, l).
            let (st1, d1, r) = apply_semantic_diff sha st d
            in case r of
                 Inl err \<Rightarrow> ((st1, l), Inl (Rejected err))
               | Inr _ \<Rightarrow> ((link_applied d1 (is_link_rules s) st1, l), Inr d1)) (is_db s);
          s1 = s\<lparr>is_db := db\<rparr>
      in case r of Inl err \<Rightarrow> (s1, Inl err) | Inr d1 \<Rightarrow> (claim d1 s1, Inr d1))"

text \<open>The importers of a gone file, one entry per language in key order.\<close>

definition importers_in :: "string \<Rightarrow> LanguagePath list \<Rightarrow> string list" where
  "importers_in language rows = map snd (filter (\<lambda>r. fst r = language) rows)"

definition owe_importers :: "string \<Rightarrow> LanguagePath list \<Rightarrow> ledger \<Rightarrow> ledger" where
  "owe_importers file_path rows l =
     fold (\<lambda>language. owe_reextracts language file_path (importers_in language rows)) (btree_set (map fst rows)) l"

definition write_file_diff ::
  "digest \<Rightarrow> Diff \<Rightarrow> string \<Rightarrow> FileScope \<Rightarrow> LinkRules \<Rightarrow> db \<Rightarrow> db \<times> (index_error + (Diff \<times> LinkedFileDiff))" where
  "write_file_diff sha d file_path scope rules conn =
     (let (st, l) = conn;
          importers = (if scope = Gone then importers_of st file_path else None);
          waiting = (if scope = Gone then [] else waiting_importers st file_path);
          d1 = widen file_path scope st d;
          (st1, r) = apply_and_link sha d1 rules st
      in case r of
           Inl err \<Rightarrow> ((st1, l), Inl err)
         | Inr _ \<Rightarrow>
             (let st2 = (if scope = Gone then delete_indexed_file file_path st1 else st1);
                  l2 = (if scope = Gone then clear_gone_file_semantic_rows file_path l else l)
              in case importers of
                   None \<Rightarrow> ((st2, l2), Inr (d1, \<lparr>lf_gone_importers = [], lf_waiting_importers = waiting\<rparr>))
                 | Some (language, rows) \<Rightarrow>
                     ((st2, owe_importers file_path rows l2),
                      Inr (d1, \<lparr>lf_gone_importers = importers_in language rows, lf_waiting_importers = waiting\<rparr>))))"

definition apply_file_diff_linked ::
  "digest \<Rightarrow> bool \<Rightarrow> Diff \<Rightarrow> string \<Rightarrow> FileScope \<Rightarrow> IndexStore \<Rightarrow>
     IndexStore \<times> (index_error + (Diff \<times> LinkedFileDiff))" where
  "apply_file_diff_linked sha committed d file_path scope s =
     (let (db, r) = in_one_commit committed (write_file_diff sha d file_path scope (is_link_rules s)) (is_db s);
          s1 = s\<lparr>is_db := db\<rparr>
      in case r of Inl err \<Rightarrow> (s1, Inl err) | Inr (d1, linked) \<Rightarrow> (claim d1 s1, Inr (d1, linked)))"

definition sweep_unclaimed_nodes :: "string \<Rightarrow> IndexStore \<Rightarrow> nat \<times> IndexStore" where
  "sweep_unclaimed_nodes language s =
     (case is_unclaimed s language of
        None \<Rightarrow> (0, s)
      | Some ids \<Rightarrow>
          (let (deleted, st) = delete_placeholders language (sorted_list_of_set ids) (fst (is_db s))
           in (deleted, s\<lparr>is_db := (st, snd (is_db s)), is_unclaimed := (is_unclaimed s)(language := None)\<rparr>)))"

definition store_vectors :: "pipeline \<Rightarrow> ComputedBatch \<Rightarrow> IndexStore \<Rightarrow> IndexStore" where
  "store_vectors p computed s = s\<lparr>is_db := store_batch p computed (is_db s)\<rparr>"

section \<open>What the operations keep\<close>

lemma link_applied_nodes: "set (nodes (link_applied d rules st)) \<subseteq> set (nodes st)"
proof -
  have "nodes (fst (link_diff rules d st1)) = nodes st1" for st1
    unfolding link_diff_def link_def by (simp add: link_edges)
  moreover have "set (nodes (fst (link_diff_imports d st))) \<subseteq> set (nodes st)"
    unfolding link_diff_imports_def Let_def link_imports_def using link_imports_rows by blast
  ultimately show ?thesis by (simp add: link_applied_def)
qed

lemma in_one_commit_Inr:
  assumes "in_one_commit committed f conn = (db, Inr x)"
  shows "f conn = (db, Inr x)"
  using assms by (auto simp: in_one_commit_def split: prod.splits if_splits sum.splits)

lemma apply_diff_linked_ok:
  assumes "apply_diff_linked sha committed d s = (s', Inr u)"
  shows "is_unclaimed s' = is_unclaimed (claim d s)" "is_link_rules s' = is_link_rules s"
  using assms by (auto simp: apply_diff_linked_def claim_def Let_def split: prod.splits sum.splits)

lemma apply_semantic_diff_linked_ok:
  assumes "apply_semantic_diff_linked sha committed d s = (s', Inr d1)"
  shows "is_unclaimed s' = is_unclaimed (claim d1 s)" "is_link_rules s' = is_link_rules s"
  using assms by (auto simp: apply_semantic_diff_linked_def claim_def Let_def split: prod.splits sum.splits)

lemma apply_file_diff_linked_ok:
  assumes "apply_file_diff_linked sha committed d path scope s = (s', Inr (d1, linked))"
  shows "is_unclaimed s' = is_unclaimed (claim d1 s)" "is_link_rules s' = is_link_rules s"
    and "write_file_diff sha d path scope (is_link_rules s) (is_db s) = (is_db s', Inr (d1, linked))"
proof -
  from assms obtain db where w:
    "in_one_commit committed (write_file_diff sha d path scope (is_link_rules s)) (is_db s) = (db, Inr (d1, linked))"
    and s': "s' = claim d1 (s\<lparr>is_db := db\<rparr>)"
    by (auto simp: apply_file_diff_linked_def Let_def split: prod.splits sum.splits)
  show "is_unclaimed s' = is_unclaimed (claim d1 s)" "is_link_rules s' = is_link_rules s"
    by (simp_all add: s' claim_def)
  show "write_file_diff sha d path scope (is_link_rules s) (is_db s) = (is_db s', Inr (d1, linked))"
    using in_one_commit_Inr [OF w] by (simp add: s' claim_def)
qed

lemma write_file_diff_upserts:
  assumes "write_file_diff sha d path scope rules conn = (db, Inr (d1, linked))"
  shows "upsert_nodes d1 = upsert_nodes d"
  using assms by (auto simp: write_file_diff_def Let_def split: prod.splits sum.splits option.splits)

lemma owed_reextracts_fold:
  "ro_key ` set (reextract_owed_files (owe_reextracts language changed paths l)) =
     ro_key ` set (reextract_owed_files l) \<union> (\<lambda>path. (language, path)) ` set paths"
proof -
  have "ro_key ` set (fold (\<lambda>path. insert_ignore_by ro_key
      \<lparr>ro_language = language, ro_filePath = path, ro_trigger = changed\<rparr>) ps rows) =
     ro_key ` set rows \<union> (\<lambda>path. (language, path)) ` set ps" for ps rows
    by (induction ps arbitrary: rows) (auto simp: insert_ignore_by_def ro_key_def image_iff)
  then show ?thesis by (simp add: owe_reextracts_def)
qed

lemma owe_importers_keys:
  "ro_key ` set (reextract_owed_files (owe_importers path rows l)) =
     ro_key ` set (reextract_owed_files l) \<union> set rows"
proof -
  have "ro_key ` set (reextract_owed_files (fold (\<lambda>language.
      owe_reextracts language path (importers_in language rows)) ls l)) =
     ro_key ` set (reextract_owed_files l) \<union> {r \<in> set rows. fst r \<in> set ls}" for ls
    by (induction ls arbitrary: l) (auto simp: owed_reextracts_fold importers_in_def image_iff)
  then show ?thesis by (auto simp: owe_importers_def)
qed

lemma owe_importers_keeps:
  "semantic_owed_files (owe_importers path rows l) = semantic_owed_files l"
  "semantic_gap_files (owe_importers path rows l) = semantic_gap_files l"
proof -
  have "semantic_owed_files (fold (\<lambda>language. owe_reextracts language path (importers_in language rows)) ls l) =
      semantic_owed_files l \<and>
    semantic_gap_files (fold (\<lambda>language. owe_reextracts language path (importers_in language rows)) ls l) =
      semantic_gap_files l" for ls
    by (induction ls arbitrary: l) (simp_all add: owe_reextracts_def)
  then show "semantic_owed_files (owe_importers path rows l) = semantic_owed_files l"
    "semantic_gap_files (owe_importers path rows l) = semantic_gap_files l"
    by (simp_all add: owe_importers_def)
qed

section \<open>Sweeping what nobody claimed\<close>

definition swept :: "string \<Rightarrow> string list \<Rightarrow> store \<Rightarrow> string \<Rightarrow> bool" where
  "swept language is st i \<longleftrightarrow> i \<in> set is \<and> list_ex (\<lambda>n. n_id n = i \<and> still_placeholder language n) (nodes st)"

lemma delete_placeholder_rows:
  "set (nodes (delete_placeholder i st)) = {n \<in> set (nodes st). n_id n \<noteq> i}"
  "set (edges (delete_placeholder i st)) = {e \<in> set (edges st). e_fromId e \<noteq> i \<and> e_toId e \<noteq> i}"
  by (auto simp: delete_placeholder_def delete_by_def)

lemma delete_placeholders_rows:
  assumes "delete_placeholders language is st = (k, st')"
  shows "set (nodes st') = {n \<in> set (nodes st). \<not> swept language is st (n_id n)} \<and>
    set (edges st') = {e \<in> set (edges st). \<not> swept language is st (e_fromId e) \<and> \<not> swept language is st (e_toId e)}"
  using assms
proof (induction "language" "is" st arbitrary: k rule: delete_placeholders.induct)
  case (2 language i "is" st)
  show ?case
  proof (cases "list_ex (\<lambda>n. n_id n = i \<and> still_placeholder language n) (nodes st)")
    case True
    let ?s = "delete_placeholder i st"
    from True 2(3) obtain k' where d: "delete_placeholders language is ?s = (k', st')"
      by (auto split: prod.splits)
    have "swept language (i # is) st j \<longleftrightarrow> j = i \<or> swept language is ?s j" for j
      using True by (auto simp: swept_def list_ex_iff delete_placeholder_rows)
    then show ?thesis using 2(1) [OF True d] by (auto simp: delete_placeholder_rows)
  next
    case False
    then have "swept language (i # is) st = swept language is st"
      by (auto simp: swept_def fun_eq_iff list_ex_iff)
    then show ?thesis using 2(2) [OF False] 2(3) False by simp
  qed
qed (simp add: swept_def)

text \<open>
  The operations that run between a swap and the sweep after the whole-project pass, and the ids the
  successful ones upsert.
\<close>

datatype IndexOp =
    OpDiff bool Diff
  | OpSemantic bool Diff
  | OpFile bool Diff string FileScope
  | OpBatch Diff
  | OpLinkAll
  | OpVectors pipeline ComputedBatch
  | OpSweep string

definition upserted_ids :: "Diff \<Rightarrow> string list" where
  "upserted_ids d = map nr_id (upsert_nodes d)"

fun run_op :: "digest \<Rightarrow> IndexOp \<Rightarrow> IndexStore \<Rightarrow> IndexStore \<times> string list" where
  "run_op sha (OpDiff c d) s =
     (case apply_diff_linked sha c d s of (s', Inl _) \<Rightarrow> (s', []) | (s', Inr _) \<Rightarrow> (s', upserted_ids d))"
| "run_op sha (OpSemantic c d) s =
     (case apply_semantic_diff_linked sha c d s of (s', Inl _) \<Rightarrow> (s', []) | (s', Inr d1) \<Rightarrow> (s', upserted_ids d1))"
| "run_op sha (OpFile c d path scope) s =
     (case apply_file_diff_linked sha c d path scope s of
        (s', Inl _) \<Rightarrow> (s', []) | (s', Inr _) \<Rightarrow> (s', upserted_ids d))"
| "run_op sha (OpBatch d) s =
     (case commit_batch sha d s of (s', Inl _) \<Rightarrow> (s', []) | (s', Inr _) \<Rightarrow> (s', upserted_ids d))"
| "run_op sha OpLinkAll s = (fst (store_link_all s), [])"
| "run_op sha (OpVectors p b) s = (store_vectors p b s, [])"
| "run_op sha (OpSweep l) s = (snd (sweep_unclaimed_nodes l s), [])"

fun run_ops :: "digest \<Rightarrow> IndexOp list \<Rightarrow> IndexStore \<Rightarrow> IndexStore \<times> string list" where
  "run_ops sha [] s = (s, [])"
| "run_ops sha (a # as) s =
     (let (s1, ids) = run_op sha a s; (s2, rest) = run_ops sha as s1 in (s2, ids @ rest))"

definition unclaimed_set :: "string \<Rightarrow> IndexStore \<Rightarrow> string set" where
  "unclaimed_set language s = (case is_unclaimed s language of None \<Rightarrow> {} | Some ids \<Rightarrow> ids)"

lemma unclaimed_claim: "unclaimed_set language (claim d s) = unclaimed_set language s - set (upserted_ids d)"
  by (auto simp: unclaimed_set_def claim_def claim_ids_def upserted_ids_def Let_def split: option.splits)

lemma unclaimed_cong: "is_unclaimed s' = is_unclaimed s \<Longrightarrow> unclaimed_set language s' = unclaimed_set language s"
  by (simp add: unclaimed_set_def)

lemma unclaimed_claimed:
  "is_unclaimed s' = is_unclaimed (claim d s) \<Longrightarrow> unclaimed_set language s' = unclaimed_set language s - set (upserted_ids d)"
  using unclaimed_claim [of language d s] by (simp add: unclaimed_set_def)

lemma apply_error_keeps_unclaimed:
  "apply_diff_linked sha c d s = (s', Inl err) \<Longrightarrow> is_unclaimed s' = is_unclaimed s"
  "apply_semantic_diff_linked sha c d s = (s', Inl err) \<Longrightarrow> is_unclaimed s' = is_unclaimed s"
  "apply_file_diff_linked sha c d path scope s = (s', Inl err) \<Longrightarrow> is_unclaimed s' = is_unclaimed s"
  "commit_batch sha d s = (s', Inl err) \<Longrightarrow> is_unclaimed s' = is_unclaimed s"
  by (auto simp: apply_diff_linked_def apply_semantic_diff_linked_def apply_file_diff_linked_def commit_batch_def Let_def
      split: prod.splits sum.splits)

lemma commit_batch_ok: "commit_batch sha d s = (s', Inr u) \<Longrightarrow> is_unclaimed s' = is_unclaimed (claim d s)"
  by (auto simp: commit_batch_def claim_def Let_def split: prod.splits sum.splits)

lemma run_op_unclaimed:
  assumes "run_op sha a s = (s', ids)" "a \<noteq> OpSweep language"
  shows "unclaimed_set language s' = unclaimed_set language s - set ids"
proof (cases a)
  case (OpDiff c d)
  with assms show ?thesis
    using apply_diff_linked_ok(1) [of sha c d s s'] apply_error_keeps_unclaimed(1) [of sha c d s s']
    by (auto dest!: unclaimed_claimed [of s' _ s language] unclaimed_cong [of s' s language] split: prod.splits sum.splits)
next
  case (OpSemantic c d)
  with assms show ?thesis
    using apply_semantic_diff_linked_ok(1) [of sha c d s s'] apply_error_keeps_unclaimed(2) [of sha c d s s']
    by (auto dest!: unclaimed_claimed [of s' _ s language] unclaimed_cong [of s' s language] split: prod.splits sum.splits)
next
  case (OpFile c d path scope)
  show ?thesis
  proof (cases "apply_file_diff_linked sha c d path scope s")
    case (Pair s1 r)
    show ?thesis
    proof (cases r)
      case (Inr x)
      obtain d1 linked where x: "x = (d1, linked)" by fastforce
      note ok = apply_file_diff_linked_ok [OF Pair [unfolded Inr x]]
      have "upserted_ids d1 = upserted_ids d" using write_file_diff_upserts [OF ok(3)] by (simp add: upserted_ids_def)
      then show ?thesis using assms(1) Pair Inr OpFile unclaimed_claimed [OF ok(1), of language] by auto
    qed (use assms(1) Pair OpFile apply_error_keeps_unclaimed(3) [of sha c d path scope s s1] in \<open>auto dest!: unclaimed_cong [of _ s language]\<close>)
  qed
next
  case (OpBatch d)
  with assms show ?thesis
    using commit_batch_ok [of sha d s s'] apply_error_keeps_unclaimed(4) [of sha d s s']
    by (auto dest!: unclaimed_claimed [of s' _ s language] unclaimed_cong [of s' s language] split: prod.splits sum.splits)
qed (use assms in \<open>auto simp: store_link_all_def store_vectors_def sweep_unclaimed_nodes_def unclaimed_set_def
       split: prod.splits option.splits\<close>)

lemma run_ops_unclaimed:
  assumes "run_ops sha ops s = (s', ids)" "OpSweep language \<notin> set ops"
  shows "unclaimed_set language s' = unclaimed_set language s - set ids"
  using assms
proof (induction ops arbitrary: s ids)
  case (Cons a ops)
  obtain s1 i1 where r: "run_op sha a s = (s1, i1)" by fastforce
  obtain i2 where rs: "run_ops sha ops s1 = (s', i2)" "ids = i1 @ i2"
    using Cons.prems(1) r by (auto split: prod.splits)
  have "unclaimed_set language s1 = unclaimed_set language s - set i1"
    using run_op_unclaimed [OF r] Cons.prems(2) by auto
  then show ?case using Cons.IH [OF rs(1)] Cons.prems(2) rs(2) by auto
qed simp

text \<open>
  C16. The sweep after a whole-project pass deletes exactly the placeholders its swap kept that nothing
  has upserted since: whatever diffs, file changes, batches and sweeps of other languages run between
  the swap and the sweep, failed ones included, a node is gone afterwards iff the swap kept it, no
  successful write named it and it is still a pending placeholder of the language; the edges of the
  swept nodes go with them, and no other edge goes.
\<close>

theorem sweep_deletes_unclaimed:
  assumes "swap_language now p staging stored b s0 = (s1, count1)"
    and "run_ops sha ops s1 = (s2, claimed)" and "OpSweep (sb_language b) \<notin> set ops"
    and "keyed n_id (nodes (fst (is_db s2)))"
    and "sweep_unclaimed_nodes (sb_language b) s2 = (deleted, s3)"
  shows "set (nodes (fst (is_db s3))) = {n \<in> set (nodes (fst (is_db s2))).
      \<not> (n_id n \<in> set (p_keep_nodes p) \<and> n_id n \<notin> set claimed \<and> still_placeholder (sb_language b) n)} \<and>
    set (edges (fst (is_db s3))) = {e \<in> set (edges (fst (is_db s2))).
      e_fromId e \<notin> n_id ` (set (nodes (fst (is_db s2))) - set (nodes (fst (is_db s3)))) \<and>
      e_toId e \<notin> n_id ` (set (nodes (fst (is_db s2))) - set (nodes (fst (is_db s3))))}"
proof -
  let ?l = "sb_language b" and ?st = "fst (is_db s2)"
  have "sort (p_keep_nodes p) = [] \<longleftrightarrow> p_keep_nodes p = []" by (metis set_empty set_sort)
  then have "unclaimed_set ?l s1 = set (p_keep_nodes p)"
    using assms(1) by (auto simp: swap_language_def swap_def unclaimed_set_def Let_def split: prod.splits if_splits)
  then have u: "unclaimed_set ?l s2 = set (p_keep_nodes p) - set claimed"
    using run_ops_unclaimed [OF assms(2,3)] by simp
  then have fin: "finite (unclaimed_set ?l s2)" by simp
  let ?is = "sorted_list_of_set (unclaimed_set ?l s2)"
  have inj: "n = m" if "n \<in> set (nodes ?st)" "m \<in> set (nodes ?st)" "n_id n = n_id m" for n m
    using keyed_inj [OF assms(4)] that by blast
  have rows: "set (nodes (fst (is_db s3))) = {n \<in> set (nodes ?st). \<not> swept ?l ?is ?st (n_id n)}"
    "set (edges (fst (is_db s3))) =
      {e \<in> set (edges ?st). \<not> swept ?l ?is ?st (e_fromId e) \<and> \<not> swept ?l ?is ?st (e_toId e)}"
  proof -
    obtain k st' where d: "delete_placeholders ?l ?is ?st = (k, st')" and s3: "fst (is_db s3) = st'"
      using assms(5) by (cases "is_unclaimed s2 ?l")
        (auto simp: sweep_unclaimed_nodes_def unclaimed_set_def split: prod.splits)
    show "set (nodes (fst (is_db s3))) = {n \<in> set (nodes ?st). \<not> swept ?l ?is ?st (n_id n)}"
      "set (edges (fst (is_db s3))) =
        {e \<in> set (edges ?st). \<not> swept ?l ?is ?st (e_fromId e) \<and> \<not> swept ?l ?is ?st (e_toId e)}"
      using delete_placeholders_rows [OF d] unfolding s3 by blast+
  qed
  have sw: "swept ?l ?is ?st (n_id n) \<longleftrightarrow>
      n_id n \<in> set (p_keep_nodes p) \<and> n_id n \<notin> set claimed \<and> still_placeholder ?l n" if "n \<in> set (nodes ?st)" for n
    using that inj u fin by (auto simp: swept_def list_ex_iff)
  have gone: "i \<in> n_id ` (set (nodes ?st) - set (nodes (fst (is_db s3)))) \<longleftrightarrow> swept ?l ?is ?st i" for i
    unfolding rows(1) by (auto simp: swept_def list_ex_iff)
  have "set (nodes (fst (is_db s3))) = {n \<in> set (nodes ?st).
      \<not> (n_id n \<in> set (p_keep_nodes p) \<and> n_id n \<notin> set claimed \<and> still_placeholder ?l n)}"
    unfolding rows(1) using sw by blast
  then show ?thesis unfolding gone rows(2) by blast
qed

section \<open>A file that is gone\<close>

text \<open>
  The specification of an importer: a file other than the gone one with an import linked to it,
  under the language of its own file node when it has one.
\<close>

definition imports_file :: "store \<Rightarrow> string \<Rightarrow> LanguagePath \<Rightarrow> bool" where
  "imports_file st path r \<longleftrightarrow>
     (\<exists>e\<in>set (edges st). \<exists>f\<in>set (nodes st). \<exists>src\<in>set (nodes st).
        e_kind e = ''IMPORTS'' \<and> e_toId e = n_id f \<and> n_filePath f = path \<and> n_kind f = ''File'' \<and>
        e_fromId e = n_id src \<and> n_filePath src = snd r \<and> snd r \<noteq> path \<and> snd r \<noteq> [] \<and>
        (if file_nodes st (snd r) = [] then fst r = n_language src
         else fst r \<in> n_language ` set (file_nodes st (snd r))))"

lemma importer_rows_set:
  "r \<in> set (importer_rows st path srcs) \<longleftrightarrow>
     (\<exists>src\<in>set srcs. n_filePath src = snd r \<and> snd r \<noteq> path \<and> snd r \<noteq> [] \<and>
        (if file_nodes st (snd r) = [] then fst r = n_language src
         else fst r \<in> n_language ` set (file_nodes st (snd r))))"
proof -
  have swap: "r \<in> prod.swap ` A \<longleftrightarrow> (snd r, fst r) \<in> A" for A
    by (cases r) (auto intro: rev_image_eqI)
  have each: "x \<in> set (case file_nodes st p of [] \<Rightarrow> [(p, l)] | fs \<Rightarrow> map (\<lambda>f. (p, n_language f)) fs) \<longleftrightarrow>
      fst x = p \<and> (if file_nodes st p = [] then snd x = l else snd x \<in> n_language ` set (file_nodes st p))" for x p l
    by (cases "file_nodes st p"; cases x) auto
  show ?thesis
    unfolding importer_rows_def set_map set_btree_set swap set_concat file_nodes_def [symmetric]
    by (simp only: set_map UN_iff image_image bex_simps set_filter each mem_Collect_eq fst_conv snd_conv) metis
qed

lemma importers_of_spec:
  assumes "file_nodes st path = f # fs"
  shows "\<exists>rows. importers_of st path = Some (n_language f, rows) \<and> set rows = {r. imports_file st path r}"
proof -
  have "set (file_nodes st path) = {n \<in> set (nodes st). n_filePath n = path \<and> n_kind n = ''File''}"
    by (auto simp: file_nodes_def)
  then have "src \<in> set (importing_nodes st (map n_id (file_nodes st path))) \<longleftrightarrow>
      (\<exists>e\<in>set (edges st). \<exists>g\<in>set (nodes st). src \<in> set (nodes st) \<and> e_kind e = ''IMPORTS'' \<and> e_toId e = n_id g \<and>
         n_filePath g = path \<and> n_kind g = ''File'' \<and> e_fromId e = n_id src)" for src
    by (auto simp: importing_nodes_def) metis
  then have "set (importer_rows st path (importing_nodes st (map n_id (file_nodes st path)))) =
      {r. imports_file st path r}"
    unfolding set_eq_iff importer_rows_set imports_file_def by blast
  then show ?thesis using assms by (simp add: importers_of_def)
qed

lemma apply_and_link_ok:
  assumes "apply_and_link sha d rules st = (st', Inr u)"
  shows "\<exists>st1. apply_diff sha st d = (st1, Inr ()) \<and> st' = link_applied d rules st1"
  using assms by (auto simp: apply_and_link_def Let_def split: prod.splits sum.splits)

lemma gone_diff_clears_path:
  assumes "path \<noteq> []" "upsert_nodes d = []" "apply_diff sha st (widen path Gone st d) = (st1, Inr ())"
    and "r \<in> set (nodes st1)"
  shows "n_filePath r \<noteq> path"
proof
  assume r: "n_filePath r = path"
  have del: "n_id n \<in> set (delete_node_ids (widen path Gone st d))" if "n \<in> set (nodes st)" "n_filePath n = path" for n
    using widen_deletes_node [of Gone n st path d] that assms(2) by simp
  show False
  proof (cases "diff_is_empty (widen path Gone st d)")
    case True
    then have "st1 = st" "delete_node_ids (widen path Gone st d) = []"
      using assms(3) by (auto simp: apply_diff_def diff_is_empty_def)
    then show False using del [OF _ r] assms(4) by auto
  next
    case False
    then have "write_diff sha (widen path Gone st d) st = Inr st1"
      using assms(3) by (auto simp: apply_diff_def savepoint_def split: sum.splits)
    from write_diff_node_origin [OF this assms(4)] show False using r assms(1,2) del [OF _ r] by auto
  qed
qed

text \<open>
  C15. When a file is gone, one commit removes every node of it, its baseline and what semantic passes
  owed for it, and owes a re-extract to exactly the files that had an import linked to it, each under
  its own language, on top of what was owed before. The caller gets back those of the file's own
  language.
\<close>

theorem gone_file_owes_importers:
  assumes "apply_file_diff_linked sha committed d path Gone s = (s', Inr (d1, linked))"
    and "path \<noteq> []" "upsert_nodes d = []" "file_nodes (fst (is_db s)) path = f # fs"
  shows "path \<notin> n_filePath ` set (nodes (fst (is_db s'))) \<and>
    path \<notin> if_filePath ` set (indexed_files (fst (is_db s'))) \<and>
    path \<notin> so_filePath ` set (semantic_owed_files (snd (is_db s'))) \<and>
    path \<notin> snd ` set (semantic_gap_files (snd (is_db s'))) \<and>
    ro_key ` set (reextract_owed_files (snd (is_db s'))) =
      ro_key ` set (reextract_owed_files (snd (is_db s))) \<union> {r. imports_file (fst (is_db s)) path r} \<and>
    set (lf_gone_importers linked) = {p. imports_file (fst (is_db s)) path (n_language f, p)}"
proof -
  obtain st l where db: "is_db s = (st, l)" by fastforce
  obtain rows where rows: "importers_of st path = Some (n_language f, rows)" "set rows = {r. imports_file st path r}"
    using importers_of_spec [of st path f fs] assms(4) db by auto
  have w: "write_file_diff sha d path Gone (is_link_rules s) (st, l) = (is_db s', Inr (d1, linked))"
    using apply_file_diff_linked_ok(3) [OF assms(1)] by (simp add: db)
  obtain st1 u where a: "apply_and_link sha (widen path Gone st d) (is_link_rules s) st = (st1, Inr u)"
    and s': "is_db s' = (delete_indexed_file path st1, owe_importers path rows (clear_gone_file_semantic_rows path l))"
    and linked: "lf_gone_importers linked = importers_in (n_language f) rows"
    using w rows(1) by (auto simp: write_file_diff_def Let_def split: prod.splits sum.splits)
  obtain st0 where st0: "apply_diff sha st (widen path Gone st d) = (st0, Inr ())"
    "st1 = link_applied (widen path Gone st d) (is_link_rules s) st0"
    using apply_and_link_ok [OF a] by blast
  have "path \<notin> n_filePath ` set (nodes st1)"
    using gone_diff_clears_path [OF assms(2,3) st0(1)] link_applied_nodes st0(2) by blast
  then show ?thesis
    unfolding db s' using rows(2) linked
    by (auto simp: delete_indexed_file_def delete_by_def owe_importers_keys owe_importers_keeps
        clear_gone_file_semantic_rows_def importers_in_def intro: rev_image_eqI)
qed

section \<open>Witnesses\<close>

text \<open>The sample swap with a second kept placeholder \<open>r\<close>; a later diff re-sends \<open>q\<close>.\<close>

definition two_kept :: store where
  "two_kept = sample_live\<lparr>nodes := nodes sample_live @
     [(sample_row ''r'' ''rs'')\<lparr>n_kind := ''Module'', n_nativeKind := Some ''pending_symbol''\<rparr>],
     edges := edges sample_live @ [sample_edge ''4'' ''a'' ''r'' ''semantic'']\<rparr>"

definition kept_plan :: Plan where
  "kept_plan = plan sample_staging two_kept ''rs'' ''v'' True"

definition after_swap :: IndexStore where
  "after_swap = fst (swap_language ''t'' kept_plan (sample_staging, empty_ledger) None sample_bookkeeping
     (new_IndexStore (two_kept, empty_ledger)))"

definition resend :: IndexOp where
  "resend = OpDiff True (default_Diff\<lparr>upsert_nodes :=
     [(new_NodeRecord ''q'' ''Module'' ''q'' ''q'' ''q'' ''rs'')\<lparr>nr_native_kind := Some ''pending_symbol''\<rparr>]\<rparr>)"

definition after_resend :: IndexStore where
  "after_resend = fst (run_ops rev [resend] after_swap)"

theorem sweep_deletes_unclaimed_witness:
  "map n_id (nodes (fst (is_db after_resend))) = [''a'', ''q'', ''c'', ''r'', ''d''] \<and>
   n_id ` set (nodes (fst (is_db (snd (sweep_unclaimed_nodes ''rs'' after_resend))))) = {''a'', ''q'', ''c'', ''d''}"
proof -
  let ?s3 = "snd (sweep_unclaimed_nodes ''rs'' after_resend)"
  note c = prod.collapse [of "swap_language ''t'' kept_plan (sample_staging, empty_ledger) None sample_bookkeeping
      (new_IndexStore (two_kept, empty_ledger))", symmetric, folded after_swap_def]
  have r: "run_ops rev [resend] after_swap = (after_resend, snd (run_ops rev [resend] after_swap))"
    unfolding after_resend_def by (rule prod.collapse [symmetric])
  have claimed: "snd (run_ops rev [resend] after_swap) = [''q'']" by code_simp
  have b: "sb_language sample_bookkeeping = ''rs''" by (simp add: sample_bookkeeping_def)
  have d: "sweep_unclaimed_nodes (sb_language sample_bookkeeping) after_resend =
      (fst (sweep_unclaimed_nodes ''rs'' after_resend), ?s3)"
    unfolding b by (rule prod.collapse [symmetric])
  have lang: "OpSweep (sb_language sample_bookkeeping) \<notin> set [resend]" by (simp add: resend_def)
  have keyed: "keyed n_id (nodes (fst (is_db after_resend)))" by code_simp
  have ids: "map n_id (nodes (fst (is_db after_resend))) = [''a'', ''q'', ''c'', ''r'', ''d'']" by code_simp
  have rows: "set (nodes (fst (is_db ?s3))) = {n \<in> set (nodes (fst (is_db after_resend))).
      \<not> (n_id n \<in> set (p_keep_nodes kept_plan) \<and> n_id n \<notin> set [''q''] \<and> still_placeholder ''rs'' n)}"
    using sweep_deletes_unclaimed [OF c r lang keyed d] unfolding claimed b by (rule conjunct1)
  have "list_all (\<lambda>n. n_id n \<in> set (p_keep_nodes kept_plan) \<and> n_id n \<notin> set [''q''] \<and> still_placeholder ''rs'' n \<longleftrightarrow>
      n_id n = ''r'') (nodes (fst (is_db after_resend)))" by code_simp
  then have "set (nodes (fst (is_db ?s3))) = {n \<in> set (nodes (fst (is_db after_resend))). n_id n \<noteq> ''r''}"
    unfolding rows list_all_iff by blast
  then have "n_id ` set (nodes (fst (is_db ?s3))) = {i \<in> set (map n_id (nodes (fst (is_db after_resend)))). i \<noteq> ''r''}"
    by auto
  also have "\<dots> = {''a'', ''q'', ''c'', ''d''}" unfolding ids by auto
  finally show ?thesis using ids by simp
qed

text \<open>\<open>b\<close> imports \<open>a\<close>, which is deleted.\<close>

definition importing_pair :: IndexStore where
  "importing_pair = new_IndexStore (empty_store\<lparr>nodes := [sample_file ''a'', sample_file ''b''],
     edges := [(sample_edge ''1'' ''b'' ''a'' ''syntactic'')\<lparr>e_kind := ''IMPORTS''\<rparr>]\<rparr>, empty_ledger)"

definition after_delete :: IndexStore where
  "after_delete = fst (apply_file_diff_linked rev True default_Diff ''a'' Gone importing_pair)"

theorem gone_file_owes_importers_witness:
  "map n_id (nodes (fst (is_db after_delete))) = [''b''] \<and>
   (''b'', ''b'') \<in> ro_key ` set (reextract_owed_files (snd (is_db after_delete)))"
proof -
  have ok: "\<not> isl (snd (apply_file_diff_linked rev True default_Diff ''a'' Gone importing_pair))" by code_simp
  obtain db r where e: "apply_file_diff_linked rev True default_Diff ''a'' Gone importing_pair = (db, r)" by fastforce
  with ok obtain d1 linked where "r = Inr (d1, linked)" by (cases r) auto
  with e have r: "apply_file_diff_linked rev True default_Diff ''a'' Gone importing_pair = (after_delete, Inr (d1, linked))"
    by (simp add: after_delete_def)
  have f: "file_nodes (fst (is_db importing_pair)) ''a'' = [sample_file ''a'']" by code_simp
  have "imports_file (fst (is_db importing_pair)) ''a'' (''b'', ''b'')" by code_simp
  moreover have "map n_id (nodes (fst (is_db after_delete))) = [''b'']" by code_simp
  moreover have "''a'' \<noteq> ([] :: string)" "upsert_nodes default_Diff = []" by (simp_all add: default_Diff_def)
  ultimately show ?thesis using gone_file_owes_importers [OF r _ _ f] by blast
qed

end
