(* ===== verification/Config_Select.thy ===== *)
theory Config_Select
  imports Ledger_Correct
begin

text \<open>
  \<^verbatim>\<open>core/src/daemon/config_reindex.rs\<close>, selection: which indexed files an edit that changed resolution
  affects. A selector on one exact target is answered through the indexes of the tables, every other
  selector by one scan over all imports of the language. Statements of a join are comprehensions over
  the row lists; a \<^verbatim>\<open>BTreeSet\<close> is the sorted list without repetition, a \<^verbatim>\<open>UNION\<close> only matters as a set.
\<close>

definition FALLBACK_SHARE_PERCENT :: nat where
  "FALLBACK_SHARE_PERCENT = 30"

datatype Selection = Nothing | TooMany nat nat | Files "string list"

definition indexed_files_of :: "store \<Rightarrow> string \<Rightarrow> string list" where
  "indexed_files_of st language =
     map n_filePath (filter (\<lambda>n. n_kind n = ''File'' \<and> n_language n = language) (nodes st))"

definition indexed_file_count :: "store \<Rightarrow> string \<Rightarrow> nat" where
  "indexed_file_count st language =
     length (filter (\<lambda>n. n_kind n = ''File'' \<and> n_language n = language) (nodes st))"

text \<open>The importing nodes of the language over the edges into one node id.\<close>

definition importers_into :: "store \<Rightarrow> string \<Rightarrow> string \<Rightarrow> string list" where
  "importers_into st language target =
     [n_filePath src. e \<leftarrow> edges st, e_kind e = ''IMPORTS'' \<and> e_toId e = target,
        src \<leftarrow> nodes st, n_id src = e_fromId e \<and> n_language src = language]"

definition has_target :: "store \<Rightarrow> string \<Rightarrow> bool" where
  "has_target st i \<longleftrightarrow> list_ex (\<lambda>pt. t_nodeId pt = i) (placeholder_targets st)"

definition waiting_at :: "store \<Rightarrow> string \<Rightarrow> string \<Rightarrow> string \<Rightarrow> string list" where
  "waiting_at st language scope_kind key =
     [p. pt \<leftarrow> placeholder_targets st, t_scopeKind pt = scope_kind \<and> t_scope pt = key,
        t \<leftarrow> nodes st, t_nodeId pt = n_id t, p \<leftarrow> importers_into st language (n_id t)]"

definition also_waiting_at :: "store \<Rightarrow> string \<Rightarrow> string \<Rightarrow> string list" where
  "also_waiting_at st language key =
     [p. a \<leftarrow> placeholder_also_scopes st, snd a = key, p \<leftarrow> importers_into st language (fst a)]"

definition linked_file :: "store \<Rightarrow> string \<Rightarrow> string \<Rightarrow> string list" where
  "linked_file st language key =
     [p. t \<leftarrow> nodes st, n_filePath t = key \<and> n_kind t = ''File'' \<and> \<not> has_target st (n_id t),
        p \<leftarrow> importers_into st language (n_id t)]"

definition linked_container :: "store \<Rightarrow> string \<Rightarrow> string \<Rightarrow> string list" where
  "linked_container st language key =
     [p. c \<leftarrow> containers st, c_language c = language \<and> c_key c = key,
        t \<leftarrow> nodes st, c_nodeId c = n_id t \<and> \<not> has_target st (n_id t), p \<leftarrow> importers_into st language (n_id t)]"

fun indexed_importers :: "store \<Rightarrow> string \<Rightarrow> TargetScopeKind \<Rightarrow> string \<Rightarrow> string list" where
  "indexed_importers st language TSK_File key =
     waiting_at st language ''file'' key @ also_waiting_at st language key @ linked_file st language key"
| "indexed_importers st language TSK_Container key =
     waiting_at st language ''container'' key @ linked_container st language key"

record StoredImport =
  si_importer :: string
  si_specifier :: "string option"
  si_target_kind :: string
  si_target_file :: string
  si_container_key :: "string option"
  si_placeholder_scope_kind :: "string option"
  si_placeholder_scope :: "string option"

fun import_target_of :: "StoredImport \<Rightarrow> TargetScopeKind \<Rightarrow> string option" where
  "import_target_of i TSK_File =
     (case si_placeholder_scope_kind i of
        Some k \<Rightarrow> if k = ''file'' then si_placeholder_scope i else None
      | None \<Rightarrow> if si_target_kind i = ''File'' then Some (si_target_file i) else None)"
| "import_target_of i TSK_Container =
     (case si_placeholder_scope_kind i of
        Some k \<Rightarrow> if k = ''container'' then si_placeholder_scope i else None
      | None \<Rightarrow> si_container_key i)"

definition import_matches :: "StoredImport \<Rightarrow> ImportSelector \<Rightarrow> bool" where
  "import_matches i selector \<longleftrightarrow>
     scope_contains (importers selector) (si_importer i) \<and>
     (case sel_by selector of
        Specifier matcher \<Rightarrow> (case si_specifier i of None \<Rightarrow> False | Some s \<Rightarrow> matches matcher s)
      | Target scope_kind matcher \<Rightarrow>
          (case import_target_of i scope_kind of None \<Rightarrow> False | Some t \<Rightarrow> matches matcher t))"

text \<open>A left join: every matching row, or one row of nulls.\<close>

definition left_join :: "('r \<Rightarrow> bool) \<Rightarrow> 'r list \<Rightarrow> 'r option list" where
  "left_join p rows = (case filter p rows of [] \<Rightarrow> [None] | rs \<Rightarrow> map Some rs)"

definition stored_imports :: "store \<Rightarrow> string \<Rightarrow> StoredImport list" where
  "stored_imports st language =
     [\<lparr>si_importer = n_filePath src, si_specifier = e_specifier e, si_target_kind = n_kind t,
       si_target_file = n_filePath t, si_container_key = map_option c_key c,
       si_placeholder_scope_kind = map_option t_scopeKind pt, si_placeholder_scope = map_option t_scope pt\<rparr>.
        e \<leftarrow> edges st, e_kind e = ''IMPORTS'',
        src \<leftarrow> nodes st, n_id src = e_fromId e \<and> n_language src = language,
        t \<leftarrow> nodes st, e_toId e = n_id t,
        c \<leftarrow> left_join (\<lambda>c. c_nodeId c = n_id t) (containers st),
        pt \<leftarrow> left_join (\<lambda>pt. t_nodeId pt = n_id t) (placeholder_targets st)]"

fun scan_loop :: "ImportSelector list \<Rightarrow> StoredImport list \<Rightarrow> string list \<Rightarrow> string list" where
  "scan_loop selectors [] selected = selected"
| "scan_loop selectors (i # is) selected =
     (if si_importer i \<in> set selected then scan_loop selectors is selected
      else if list_ex (import_matches i) selectors then scan_loop selectors is (si_importer i # selected)
      else scan_loop selectors is selected)"

definition scan_imports :: "store \<Rightarrow> string \<Rightarrow> ImportSelector list \<Rightarrow> string list \<Rightarrow> string list" where
  "scan_imports st language selectors selected = scan_loop selectors (stored_imports st language) selected"

text \<open>
  The loop over the selectors: what is selected so far, and the selectors left to the scan. \<open>own\<close> is
  the edited file and the importers that waited unresolved at it.
\<close>

fun select_step ::
  "store \<Rightarrow> string \<Rightarrow> (string \<times> string list) option \<Rightarrow> ImportSelector \<Rightarrow>
     string list \<times> ImportSelector list \<Rightarrow> string list \<times> ImportSelector list" where
  "select_step st language own selector (selected, scanned) =
     (case sel_by selector of
        Target scope_kind (Exact key) \<Rightarrow>
          (if scope_kind = TSK_File \<and> (case own of None \<Rightarrow> False | Some (changed, _) \<Rightarrow> changed = key)
           then (selected @ filter (scope_contains (importers selector)) (case own of None \<Rightarrow> [] | Some (_, waiting) \<Rightarrow> waiting),
                 scanned)
           else (selected @ filter (scope_contains (importers selector)) (indexed_importers st language scope_kind key),
                 scanned))
      | _ \<Rightarrow> (selected, scanned @ [selector]))"

definition select_affected ::
  "store \<Rightarrow> string \<Rightarrow> PathScope list \<Rightarrow> ImportSelector list \<Rightarrow> (string \<times> string list) option \<Rightarrow> string list" where
  "select_affected st language files selectors own =
     (let by_file = (if files = [] then []
            else filter (\<lambda>path. list_ex (\<lambda>scope. scope_contains scope path) files) (indexed_files_of st language));
          (selected, scanned) = fold (select_step st language own) selectors (by_file, [])
      in btree_set (if scanned = [] then selected else scan_imports st language scanned selected))"

definition select_with ::
  "store \<Rightarrow> string \<Rightarrow> PathScope list \<Rightarrow> ImportSelector list \<Rightarrow> string option \<Rightarrow> string list \<Rightarrow> string list \<Rightarrow> Selection" where
  "select_with st language files selectors changed extra own_waiting =
     (let affected = select_affected st language files selectors (map_option (\<lambda>t. (t, own_waiting)) changed);
          selected = btree_set (filter (\<lambda>path. changed \<noteq> Some path) (affected @ extra));
          indexed = indexed_file_count st language
      in if selected = [] then Nothing
         else if length selected * 100 > indexed * FALLBACK_SHARE_PERCENT then TooMany (length selected) indexed
         else Files selected)"

definition select :: "store \<Rightarrow> string \<Rightarrow> PathScope list \<Rightarrow> ImportSelector list \<Rightarrow> string option \<Rightarrow> Selection" where
  "select st language files selectors changed = select_with st language files selectors changed [] []"

section \<open>The index and the scan agree\<close>

lemma mem_if_Nil: "a \<in> set (if c then xs else []) \<longleftrightarrow> c \<and> a \<in> set xs"
  by simp

lemma mem_concat_map: "a \<in> set (concat (map f xs)) \<longleftrightarrow> (\<exists>x\<in>set xs. a \<in> set (f x))"
  by simp

lemma mem_single: "a \<in> set [x] \<longleftrightarrow> a = x"
  by simp

lemma mem_map_iff: "a \<in> set (map f xs) \<longleftrightarrow> (\<exists>x\<in>set xs. a = f x)"
  by auto

lemmas mem_comprehension = list.map_ident mem_if_Nil mem_concat_map mem_single mem_map_iff

definition import_from :: "store \<Rightarrow> string \<Rightarrow> EdgeRow \<Rightarrow> NodeRow \<Rightarrow> bool" where
  "import_from st language e src \<longleftrightarrow>
     e \<in> set (edges st) \<and> e_kind e = ''IMPORTS'' \<and> src \<in> set (nodes st) \<and> n_id src = e_fromId e \<and>
     n_language src = language"

lemma importers_into_iff:
  "p \<in> set (importers_into st language target) \<longleftrightarrow>
     (\<exists>e src. import_from st language e src \<and> e_toId e = target \<and> p = n_filePath src)"
  unfolding importers_into_def mem_comprehension import_from_def by blast

lemma left_join_iff:
  "x \<in> set (left_join p rows) \<longleftrightarrow>
     (case x of None \<Rightarrow> (\<forall>r\<in>set rows. \<not> p r) | Some r \<Rightarrow> r \<in> set rows \<and> p r)"
proof (cases "filter p rows")
  case Nil
  then have "\<forall>r\<in>set rows. \<not> p r" by (simp add: filter_empty_conv)
  with Nil show ?thesis by (auto simp: left_join_def split: option.splits)
next
  case (Cons r rs)
  then have "set (r # rs) = {r \<in> set rows. p r}" by (metis set_filter)
  with Cons show ?thesis by (auto simp: left_join_def split: option.splits)
qed

lemma left_join_nonempty: "\<exists>x. x \<in> set (left_join p rows)"
  by (cases "filter p rows") (auto simp: left_join_def)

text \<open>An import of the language: an edge, its start and its end, with what the joins add.\<close>

definition import_row :: "EdgeRow \<Rightarrow> NodeRow \<Rightarrow> NodeRow \<Rightarrow> ContainerRow option \<Rightarrow> TargetRow option \<Rightarrow> StoredImport" where
  "import_row e src t c pt =
     \<lparr>si_importer = n_filePath src, si_specifier = e_specifier e, si_target_kind = n_kind t,
      si_target_file = n_filePath t, si_container_key = map_option c_key c,
      si_placeholder_scope_kind = map_option t_scopeKind pt, si_placeholder_scope = map_option t_scope pt\<rparr>"

definition import_joins :: "store \<Rightarrow> string \<Rightarrow> EdgeRow \<Rightarrow> NodeRow \<Rightarrow> NodeRow \<Rightarrow> bool" where
  "import_joins st language e src t \<longleftrightarrow>
     import_from st language e src \<and> t \<in> set (nodes st) \<and> e_toId e = n_id t"

abbreviation targets_of :: "store \<Rightarrow> NodeRow \<Rightarrow> TargetRow option set" where
  "targets_of st t \<equiv> set (left_join (\<lambda>pt. t_nodeId pt = n_id t) (placeholder_targets st))"

abbreviation container_of_node :: "store \<Rightarrow> NodeRow \<Rightarrow> ContainerRow option set" where
  "container_of_node st t \<equiv> set (left_join (\<lambda>c. c_nodeId c = n_id t) (containers st))"

lemma stored_imports_iff:
  "i \<in> set (stored_imports st language) \<longleftrightarrow>
     (\<exists>e src t c pt. import_joins st language e src t \<and> c \<in> container_of_node st t \<and> pt \<in> targets_of st t \<and>
        i = import_row e src t c pt)"
  unfolding stored_imports_def import_joins_def import_from_def import_row_def mem_comprehension by blast

lemma stored_importI:
  "import_joins st language e src t \<Longrightarrow> c \<in> container_of_node st t \<Longrightarrow> pt \<in> targets_of st t \<Longrightarrow>
   import_row e src t c pt \<in> set (stored_imports st language)"
  unfolding stored_imports_iff by blast

lemma si_importer_row [simp]: "si_importer (import_row e src t c pt) = n_filePath src"
  by (simp add: import_row_def)

text \<open>
  A container is imported in the language of its importers: the linker resolves a container
  placeholder in the placeholder's own language.
\<close>

definition containers_local :: "store \<Rightarrow> bool" where
  "containers_local st \<longleftrightarrow>
     (\<forall>e\<in>set (edges st). \<forall>src\<in>set (nodes st). \<forall>c\<in>set (containers st).
        e_kind e = ''IMPORTS'' \<and> n_id src = e_fromId e \<and> c_nodeId c = e_toId e \<longrightarrow> c_language c = n_language src)"

lemma waiting_at_iff:
  "p \<in> set (waiting_at st language k key) \<longleftrightarrow>
     (\<exists>e src t pt. import_joins st language e src t \<and> p = n_filePath src \<and> Some pt \<in> targets_of st t \<and>
        t_scopeKind pt = k \<and> t_scope pt = key)"
  unfolding waiting_at_def import_joins_def left_join_iff option.case mem_comprehension importers_into_iff by blast

lemma has_target_join: "None \<in> targets_of st t \<longleftrightarrow> \<not> has_target st (n_id t)"
  by (simp add: left_join_iff has_target_def list_ex_iff)

lemma linked_file_iff:
  "p \<in> set (linked_file st language key) \<longleftrightarrow>
     (\<exists>e src t. import_joins st language e src t \<and> p = n_filePath src \<and> None \<in> targets_of st t \<and>
        n_filePath t = key \<and> n_kind t = ''File'')"
  unfolding linked_file_def import_joins_def has_target_join mem_comprehension importers_into_iff by blast

lemma linked_container_iff:
  assumes "containers_local st"
  shows "p \<in> set (linked_container st language key) \<longleftrightarrow>
     (\<exists>e src t c. import_joins st language e src t \<and> p = n_filePath src \<and> None \<in> targets_of st t \<and>
        Some c \<in> container_of_node st t \<and> c_key c = key)" (is "_ \<longleftrightarrow> ?R")
proof -
  have "p \<in> set (linked_container st language key) \<longleftrightarrow>
     (\<exists>e src t c. import_joins st language e src t \<and> p = n_filePath src \<and> None \<in> targets_of st t \<and>
        Some c \<in> container_of_node st t \<and> c_key c = key \<and> c_language c = language)"
    unfolding linked_container_def import_joins_def has_target_join mem_comprehension importers_into_iff
    by (simp only: left_join_iff option.case) blast
  moreover have "c_language c = language" if "import_joins st language e src t" "Some c \<in> container_of_node st t" for e src t c
    using assms that unfolding containers_local_def import_joins_def import_from_def left_join_iff option.case by metis
  ultimately show ?thesis by blast
qed

text \<open>The target column of an import, by whether the placeholder join found a row.\<close>

fun scope_name :: "TargetScopeKind \<Rightarrow> string" where
  "scope_name TSK_File = ''file''"
| "scope_name TSK_Container = ''container''"

fun linked_to :: "TargetScopeKind \<Rightarrow> NodeRow \<Rightarrow> ContainerRow option \<Rightarrow> string \<Rightarrow> bool" where
  "linked_to TSK_File t c key \<longleftrightarrow> n_filePath t = key \<and> n_kind t = ''File''"
| "linked_to TSK_Container t c key \<longleftrightarrow> (\<exists>r. c = Some r \<and> c_key r = key)"

lemma import_row_target:
  "import_target_of (import_row e src t c pt) kind = Some key \<longleftrightarrow>
     (case pt of Some r \<Rightarrow> t_scopeKind r = scope_name kind \<and> t_scope r = key | None \<Rightarrow> linked_to kind t c key)"
  by (cases kind) (auto simp: import_row_def split: option.splits)

lemma import_rows_target:
  "(\<exists>i\<in>set (stored_imports st language). si_importer i = p \<and> import_target_of i kind = Some key) \<longleftrightarrow>
     p \<in> set (waiting_at st language (scope_name kind) key) \<or>
     (\<exists>e src t c. import_joins st language e src t \<and> p = n_filePath src \<and> None \<in> targets_of st t \<and>
        c \<in> container_of_node st t \<and> linked_to kind t c key)" (is "?L \<longleftrightarrow> ?W \<or> ?N")
proof
  assume ?L
  then obtain e src t c pt where r: "import_joins st language e src t" "c \<in> container_of_node st t" "pt \<in> targets_of st t"
    "si_importer (import_row e src t c pt) = p" "import_target_of (import_row e src t c pt) kind = Some key"
    unfolding Bex_def stored_imports_iff by blast
  have p: "p = n_filePath src" using r(4) by (simp add: import_row_def)
  show "?W \<or> ?N"
  proof (cases pt)
    case None
    with r p show ?thesis unfolding import_row_target by auto
  next
    case (Some row)
    with r p show ?thesis unfolding import_row_target waiting_at_iff by auto
  qed
next
  assume "?W \<or> ?N"
  then consider e src t row where "import_joins st language e src t" "p = n_filePath src" "Some row \<in> targets_of st t"
      "t_scopeKind row = scope_name kind" "t_scope row = key"
    | e src t c where "import_joins st language e src t" "p = n_filePath src" "None \<in> targets_of st t"
      "c \<in> container_of_node st t" "linked_to kind t c key"
    unfolding waiting_at_iff by blast
  then show ?L
  proof cases
    case 1
    obtain c where "c \<in> container_of_node st t" using left_join_nonempty by blast
    with 1 show ?thesis
      by (intro bexI [of _ "import_row e src t c (Some row)"]) (auto simp: import_row_target intro: stored_importI)
  next
    case 2
    then show ?thesis
      by (intro bexI [of _ "import_row e src t c None"]) (auto simp: import_row_target intro: stored_importI)
  qed
qed

lemma indexed_importers_scan:
  assumes "containers_local st"
  shows "p \<in> set (indexed_importers st language kind key) \<longleftrightarrow>
    (\<exists>i\<in>set (stored_imports st language). si_importer i = p \<and> import_target_of i kind = Some key) \<or>
    (kind = TSK_File \<and> p \<in> set (also_waiting_at st language key))"
proof (cases kind)
  case TSK_File
  have "(\<exists>e src t c. import_joins st language e src t \<and> p = n_filePath src \<and> None \<in> targets_of st t \<and>
      c \<in> container_of_node st t \<and> linked_to TSK_File t c key) \<longleftrightarrow> p \<in> set (linked_file st language key)"
    unfolding linked_file_iff linked_to.simps using left_join_nonempty by blast
  then show ?thesis unfolding TSK_File import_rows_target by auto
next
  case TSK_Container
  have "(\<exists>e src t c. import_joins st language e src t \<and> p = n_filePath src \<and> None \<in> targets_of st t \<and>
      c \<in> container_of_node st t \<and> linked_to TSK_Container t c key) \<longleftrightarrow> p \<in> set (linked_container st language key)"
    unfolding linked_container_iff [OF assms] linked_to.simps by blast
  then show ?thesis unfolding TSK_Container import_rows_target by auto
qed

lemma scan_loop_set:
  "set (scan_loop selectors is selected) =
     set selected \<union> {si_importer i | i. i \<in> set is \<and> list_ex (import_matches i) selectors}"
  by (induction selectors "is" selected rule: scan_loop.induct) auto

text \<open>
  The loop over the selectors splits them: an exact target goes through the index, everything else
  to the scan.
\<close>

fun exact_target :: "ImportMatch \<Rightarrow> (TargetScopeKind \<times> string) option" where
  "exact_target (Target kind (Exact key)) = Some (kind, key)"
| "exact_target _ = None"

lemma select_step_None:
  "select_step st language None selector (selected, scanned) =
     (case exact_target (sel_by selector) of
        Some (kind, key) \<Rightarrow> (selected @ filter (scope_contains (importers selector)) (indexed_importers st language kind key), scanned)
      | None \<Rightarrow> (selected, scanned @ [selector]))"
  by (auto split: ImportMatch.splits Matcher.splits option.splits)

lemma select_steps:
  "fold (select_step st language None) selectors (selected, scanned) = (selected', scanned') \<Longrightarrow>
   set scanned' = set scanned \<union> {s \<in> set selectors. exact_target (sel_by s) = None} \<and>
   set selected' = set selected \<union> {p. \<exists>s\<in>set selectors. \<exists>kind key. exact_target (sel_by s) = Some (kind, key) \<and>
     p \<in> set (indexed_importers st language kind key) \<and> scope_contains (importers s) p}"
proof (induction selectors arbitrary: selected scanned)
  case (Cons s selectors)
  show ?case
  proof (cases "exact_target (sel_by s)")
    case None
    with Cons.prems have "fold (select_step st language None) selectors (selected, scanned @ [s]) = (selected', scanned')"
      by (simp add: select_step_None del: select_step.simps)
    from Cons.IH [OF this] None show ?thesis by auto
  next
    case (Some k)
    obtain kind key where k: "k = (kind, key)" by fastforce
    let ?more = "filter (scope_contains (importers s)) (indexed_importers st language kind key)"
    from Cons.prems Some k have "fold (select_step st language None) selectors (selected @ ?more, scanned) = (selected', scanned')"
      by (simp add: select_step_None del: select_step.simps)
    from Cons.IH [OF this] Some k show ?thesis by auto
  qed
qed simp

lemma exact_import_matches:
  assumes "exact_target (sel_by s) = Some (kind, key)"
  shows "import_matches i s \<longleftrightarrow> scope_contains (importers s) (si_importer i) \<and> import_target_of i kind = Some key"
  using assms by (cases "sel_by s" rule: exact_target.cases) (auto simp: import_matches_def split: option.splits)


section \<open>A witness\<close>

text \<open>\<open>b\<close> imports \<open>a\<close> by a linked edge; an exact selector on \<open>a\<close> selects \<open>b\<close>.\<close>

definition selected_store :: store where
  "selected_store = empty_store\<lparr>
     nodes := map (\<lambda>i. (sample_file i)\<lparr>n_language := ''rs''\<rparr>) [''a'', ''b'', ''c''],
     edges := [\<lparr>e_id = ''1'', e_fromId = ''b'', e_toId = ''a'', e_kind = ''IMPORTS'', e_source = ''syntactic'', e_engine = ''x'',
        e_resolved = True, e_toDeclaration = None, e_linkedFrom = None, e_specifier = Some ''./a''\<rparr>]\<rparr>"

definition exact_selector :: ImportSelector where
  "exact_selector = \<lparr>importers = \<lparr>under = [], not_under = []\<rparr>, sel_by = Target TSK_File (Exact ''a'')\<rparr>"


end
