(* ===== verification/Round_Trip.thy ===== *)
theory Round_Trip
  imports Index_Store Config_Select Plugin_Answers
begin

text \<open>
  \<^verbatim>\<open>core/src/watcher/apply.rs\<close>, the two conversations with a plugin: a changed file and a semantic pass.
  The plugin process is a state \<open>'p\<close> and an answering function of the environment; a write that fails,
  an answer that never comes and an answer cut by its timeout are all \<open>None\<close>. The disk is two
  predicates on paths. One commit outcome, one embedding environment and one clock reading hold for a
  whole conversation. The writes that only log their failure cannot fail here.
\<close>

section \<open>Messages\<close>

datatype RequestId = Number int | StringId string

record LinkedEdge =
  le_edge_id :: string
  le_to_id :: string

datatype PluginMessage =
    FileChanged string bool
  | SemanticPass "string list" "LinkedEdge list"

record FileChangeResponse =
  fr_id :: RequestId
  fr_result :: FileChangeDiff
  fr_incomplete :: bool
  fr_incomplete_reason :: "string option"
  fr_unfinished_files :: "string list option"

text \<open>The derived ids; \<open>digits\<close> prints an integer.\<close>

fun semantic_pass_id :: "(int \<Rightarrow> string) \<Rightarrow> RequestId \<Rightarrow> RequestId" where
  "semantic_pass_id digits (Number n) = StringId (''semanticPass:num:'' @ digits n)"
| "semantic_pass_id digits (StringId s) = StringId (''semanticPass:str:'' @ s)"

fun reextract_id :: "(int \<Rightarrow> string) \<Rightarrow> RequestId \<Rightarrow> nat \<Rightarrow> RequestId" where
  "reextract_id digits (Number n) index = StringId (''reextract:num:'' @ digits n @ '':'' @ digits (int index))"
| "reextract_id digits (StringId s) index = StringId (''reextract:str:'' @ s @ '':'' @ digits (int index))"

record 'p plugin_env =
  pe_sha :: digest
  pe_ask :: "'p \<Rightarrow> RequestId \<Rightarrow> PluginMessage \<Rightarrow> 'p \<times> FileChangeResponse option"
  pe_missing :: "string \<Rightarrow> bool"
  pe_exists :: "string \<Rightarrow> bool"
  pe_committed :: bool
  pe_embed :: embed_env
  pe_now :: string
  pe_digits :: "int \<Rightarrow> string"

record 'p world =
  w_plugin :: 'p
  w_index :: IndexStore
  w_pipeline :: pipeline

datatype trip_error =
    NoAnswer
  | WrongId RequestId
  | StoreFailed index_error
  | IncompletePass string
  | NoFiles

section \<open>One round trip\<close>

record RoundTrip =
  rt_incomplete :: bool
  rt_incomplete_reason :: "string option"
  rt_unfinished_files :: "string list option"
  rt_upserted_edges :: "string list"
  rt_affected :: "ResolutionDelta option"
  rt_gone_importers :: "string list"
  rt_waiting_importers :: "LanguagePath list"

definition nodes_with_vectors :: "store \<Rightarrow> Diff \<Rightarrow> string list" where
  "nodes_with_vectors st d =
     filter (\<lambda>i. list_ex (\<lambda>v. v_nodeId v = i) (vectors st)) (map nr_id (upsert_nodes d))"

text \<open>Committing the answer, by what was asked.\<close>

fun commit_answer ::
  "'p plugin_env \<Rightarrow> PluginMessage \<Rightarrow> bool \<Rightarrow> Diff \<Rightarrow> IndexStore \<Rightarrow>
     IndexStore \<times> (index_error + (Diff \<times> LinkedFileDiff))" where
  "commit_answer env (FileChanged file_path _) complete d s =
     apply_file_diff_linked (pe_sha env) (pe_committed env) d file_path
       (file_scope (pe_missing env file_path) d complete) s"
| "commit_answer env (SemanticPass _ _) complete d s =
     (case apply_semantic_diff_linked (pe_sha env) (pe_committed env) d s of
        (s', Inl err) \<Rightarrow> (s', Inl err)
      | (s', Inr d1) \<Rightarrow> (s', Inr (d1, \<lparr>lf_gone_importers = [], lf_waiting_importers = []\<rparr>)))"

definition embed_answer :: "'p plugin_env \<Rightarrow> PluginMessage \<Rightarrow> Diff \<Rightarrow> 'p world \<Rightarrow> 'p world" where
  "embed_answer env m d w =
     (let st = fst (is_db (w_index w));
          upserts = (case m of
             SemanticPass _ _ \<Rightarrow> filter (\<lambda>n. nr_id n \<notin> set (nodes_with_vectors st d)) (upsert_nodes d)
           | FileChanged _ _ \<Rightarrow> upsert_nodes d);
          (computed, pl, _) = compute (pe_embed env) upserts (w_pipeline w) zero_stats
      in w\<lparr>w_pipeline := pl, w_index := store_vectors pl computed (w_index w)\<rparr>)"

definition round_trip ::
  "'p plugin_env \<Rightarrow> PluginMessage \<Rightarrow> RequestId \<Rightarrow> 'p world \<Rightarrow> 'p world \<times> (trip_error + RoundTrip)" where
  "round_trip env m request_id w =
     (let (plugin, answer) = pe_ask env (w_plugin w) request_id m; w1 = w\<lparr>w_plugin := plugin\<rparr>
      in case answer of
           None \<Rightarrow> (w1, Inl NoAnswer)
         | Some response \<Rightarrow>
             if fr_id response \<noteq> request_id then (w1, Inl (WrongId (fr_id response)))
             else
               let d = fst (to_storage_diff (fr_result response) default_PathWarnings);
                   (s, r) = commit_answer env m (fd_complete (fr_result response)) d (w_index w1);
                   w2 = w1\<lparr>w_index := s\<rparr>
               in case r of
                    Inl err \<Rightarrow> (w2, Inl (StoreFailed err))
                  | Inr (d1, linked) \<Rightarrow>
                      (embed_answer env m d1 w2,
                       Inr \<lparr>rt_incomplete = fr_incomplete response,
                            rt_incomplete_reason = fr_incomplete_reason response,
                            rt_unfinished_files = fr_unfinished_files response,
                            rt_upserted_edges = map ed_id (upsert_edges d1),
                            rt_affected = fd_affected (fr_result response),
                            rt_gone_importers = lf_gone_importers linked,
                            rt_waiting_importers = lf_waiting_importers linked\<rparr>))"

section \<open>The semantic pass\<close>

datatype SemanticPassOutcome = PassComplete | PassResidual nat | PassSettled

definition outcome_left :: "nat \<Rightarrow> SemanticPassOutcome" where
  "outcome_left left = (if left = 0 then PassSettled else PassResidual left)"

datatype PassScope = WholeProject | ScopedFiles "string list" "string list" | ResidualFiles "string list"

definition linked_edges_of :: "store \<Rightarrow> string \<Rightarrow> string list \<Rightarrow> LinkedEdge list" where
  "linked_edges_of st language file_paths =
     map (\<lambda>e. \<lparr>le_edge_id = e_id e, le_to_id = e_toId e\<rparr>) (sort_key e_id
       (filter (\<lambda>e. e_linkedFrom e \<noteq> None \<and> e_source e = ''syntactic'' \<and>
          list_ex (\<lambda>f. n_id f = e_fromId e \<and> n_language f = language \<and>
            (file_paths = [] \<or> n_filePath f \<in> set file_paths)) (nodes st)) (edges st)))"

definition sweep_candidate :: "store \<Rightarrow> string \<Rightarrow> string list \<Rightarrow> EdgeRow \<Rightarrow> bool" where
  "sweep_candidate st language kept e \<longleftrightarrow>
     e_source e = ''semantic'' \<and> list_ex (\<lambda>n. n_id n = e_fromId e \<and> n_language n = language) (nodes st) \<and>
     e_id e \<notin> set kept"

definition sweep_semantic_edges :: "string \<Rightarrow> string list \<Rightarrow> store \<Rightarrow> nat \<times> store" where
  "sweep_semantic_edges language kept st =
     (let gone = map e_id (filter (sweep_candidate st language kept) (edges st));
          rest = filter (\<lambda>e. e_id e \<notin> set gone) (edges st)
      in (length (edges st) - length rest, st\<lparr>edges := rest\<rparr>))"

definition with_ledger :: "(ledger \<Rightarrow> ledger) \<Rightarrow> 'p world \<Rightarrow> 'p world" where
  "with_ledger f w =
     w\<lparr>w_index := (w_index w)\<lparr>is_db := (fst (is_db (w_index w)), f (snd (is_db (w_index w))))\<rparr>\<rparr>"

abbreviation w_ledger :: "'p world \<Rightarrow> ledger" where
  "w_ledger w \<equiv> snd (is_db (w_index w))"

abbreviation w_store :: "'p world \<Rightarrow> store" where
  "w_store w \<equiv> fst (is_db (w_index w))"

text \<open>What is sent, what was asked for by name, and whether it is a residual pass.\<close>

fun pass_files :: "PassScope \<Rightarrow> string list \<times> string list \<times> bool" where
  "pass_files WholeProject = ([], [], False)"
| "pass_files (ScopedFiles requested owed) =
     (fold (\<lambda>path sent. if path \<in> set sent then sent else sent @ [path]) owed requested, requested, False)"
| "pass_files (ResidualFiles files) = (files, [], True)"

definition finish_residual ::
  "string \<Rightarrow> string list \<Rightarrow> RoundTrip \<Rightarrow> 'p world \<Rightarrow> 'p world \<times> (trip_error + SemanticPassOutcome)" where
  "finish_residual language sent rt w =
     (let unfinished = (case rt_unfinished_files rt of
            Some named \<Rightarrow> filter (\<lambda>path. path \<in> set named) sent
          | None \<Rightarrow> if rt_incomplete rt then sent else []);
          settled = filter (\<lambda>path. path \<notin> set unfinished) sent;
          w' = with_ledger (settle_owed_files language [] settled unfinished) w
      in (w', Inr (outcome_left (length (owed_files (w_ledger w') language)))))"

definition finish_scoped :: "string \<Rightarrow> string list \<Rightarrow> string list \<Rightarrow> RoundTrip \<Rightarrow> 'p world \<Rightarrow> 'p world" where
  "finish_scoped language sent requested rt w =
     (case rt_unfinished_files rt of
        Some named \<Rightarrow>
          (let unfinished = filter (\<lambda>path. path \<in> set named) sent;
               settled = filter (\<lambda>path. path \<notin> set named) sent
           in with_ledger (\<lambda>l. settle_owed_files language requested settled unfinished
                (snd (clear_semantic_pending_files settled l))) w)
      | None \<Rightarrow>
          if rt_incomplete rt then w
          else with_ledger (\<lambda>l. snd (clear_semantic_pending_files requested l)) w)"

definition finish_sweep :: "string option \<Rightarrow> RoundTrip \<Rightarrow> 'p world \<Rightarrow> 'p world" where
  "finish_sweep sweep_language rt w =
     (case sweep_language of
        None \<Rightarrow> w
      | Some language \<Rightarrow>
          (let st = snd (sweep_semantic_edges language (rt_upserted_edges rt) (w_store w));
               s = (w_index w)\<lparr>is_db := (st, w_ledger w)\<rparr>
           in w\<lparr>w_index := snd (sweep_unclaimed_nodes language s)\<rparr>))"

definition finish_pass ::
  "'p plugin_env \<Rightarrow> string \<Rightarrow> string option \<Rightarrow> PassScope \<Rightarrow> RoundTrip \<Rightarrow> 'p world \<Rightarrow>
     'p world \<times> (trip_error + SemanticPassOutcome)" where
  "finish_pass env language sweep_language scope rt w =
     (let (sent, requested, residual) = pass_files scope in
      if rt_incomplete rt \<and> scope = WholeProject then
        (let reason = (case rt_incomplete_reason rt of None \<Rightarrow> ''the plugin gave no reason'' | Some r \<Rightarrow> r)
         in case rt_unfinished_files rt of
              None \<Rightarrow> (w, Inl (IncompletePass reason))
            | Some unfinished \<Rightarrow>
                (let (left, l) = record_language_semantic_residual (pe_now env) language unfinished reason (w_ledger w)
                 in (with_ledger (\<lambda>_. l) w, Inr (outcome_left left))))
      else if residual then finish_residual language sent rt w
      else if scope \<noteq> WholeProject then (finish_scoped language sent requested rt w, Inr PassComplete)
      else (finish_sweep sweep_language rt w, Inr PassComplete))"

definition apply_semantic_pass_in ::
  "'p plugin_env \<Rightarrow> string \<Rightarrow> string option \<Rightarrow> PassScope \<Rightarrow> RequestId \<Rightarrow> 'p world \<Rightarrow>
     'p world \<times> (trip_error + SemanticPassOutcome)" where
  "apply_semantic_pass_in env language sweep_language scope request_id w =
     (let (sent, requested, residual) = pass_files scope;
          (w1, r) = round_trip env (SemanticPass sent (linked_edges_of (w_store w) language sent)) request_id w
      in case r of
           Inl err \<Rightarrow>
             ((if residual then with_ledger (settle_owed_files language [] [] sent) w1 else w1), Inl err)
         | Inr rt \<Rightarrow> finish_pass env language sweep_language scope rt w1)"

definition apply_semantic_pass ::
  "'p plugin_env \<Rightarrow> string \<Rightarrow> string option \<Rightarrow> string list \<Rightarrow> RequestId \<Rightarrow> 'p world \<Rightarrow>
     'p world \<times> (trip_error + SemanticPassOutcome)" where
  "apply_semantic_pass env language sweep_language file_paths request_id w =
     apply_semantic_pass_in env language sweep_language
       (if file_paths = [] then WholeProject else ScopedFiles file_paths []) request_id w"

definition apply_residual_semantic_pass ::
  "'p plugin_env \<Rightarrow> string \<Rightarrow> string list \<Rightarrow> RequestId \<Rightarrow> 'p world \<Rightarrow>
     'p world \<times> (trip_error + SemanticPassOutcome)" where
  "apply_residual_semantic_pass env language file_paths request_id w =
     apply_semantic_pass_in env language None (ResidualFiles file_paths) request_id w"

definition apply_scoped_semantic_pass ::
  "'p plugin_env \<Rightarrow> string \<Rightarrow> string list \<Rightarrow> RequestId \<Rightarrow> 'p world \<Rightarrow> 'p world \<times> (trip_error + unit)" where
  "apply_scoped_semantic_pass env language file_paths request_id w =
     (if file_paths = [] then (w, Inl NoFiles)
      else let (w1, r) = apply_semantic_pass_in env language None
                 (ScopedFiles file_paths (owed_files (w_ledger w) language)) request_id w
           in (w1, case r of Inl err \<Rightarrow> Inl err | Inr _ \<Rightarrow> Inr ()))"

section \<open>A changed file\<close>

datatype FileChangeOutcome = Applied nat | ReindexLanguage

definition settle_reextracts :: "string \<Rightarrow> string list \<Rightarrow> 'p world \<Rightarrow> 'p world" where
  "settle_reextracts language file_paths w =
     (if file_paths = [] then w else with_ledger (settle_owed_reextracts language file_paths) w)"

text \<open>
  A re-extract asks only for the file: the answer's affected files and its importers are not
  followed, and no semantic pass is sent, so the recursion of the code is one level deep.
\<close>

definition reextract_file :: "'p plugin_env \<Rightarrow> string \<Rightarrow> RequestId \<Rightarrow> 'p world \<Rightarrow> 'p world \<times> (trip_error + unit)" where
  "reextract_file env file_path request_id w =
     (let (w1, r) = round_trip env (FileChanged file_path True) request_id w
      in (w1, case r of Inl err \<Rightarrow> Inl err | Inr _ \<Rightarrow> Inr ()))"

fun reextract_loop ::
  "'p plugin_env \<Rightarrow> RequestId \<Rightarrow> nat \<Rightarrow> string list \<Rightarrow> 'p world \<Rightarrow> 'p world \<times> bool" where
  "reextract_loop env request_id index [] w = (w, True)"
| "reextract_loop env request_id index (path # rest) w =
     (case reextract_file env path (reextract_id (pe_digits env) request_id index) w of
        (w1, Inl _) \<Rightarrow> (w1, False)
      | (w1, Inr _) \<Rightarrow> reextract_loop env request_id (index + 1) rest w1)"

text \<open>The re-extracted files, or \<open>None\<close> when the whole language has to be reindexed instead.\<close>

definition reextract_affected ::
  "'p plugin_env \<Rightarrow> string \<Rightarrow> string \<Rightarrow> RequestId \<Rightarrow> PathScope list \<Rightarrow> ImportSelector list \<Rightarrow> string list \<Rightarrow>
     string list \<Rightarrow> 'p world \<Rightarrow> 'p world \<times> string list option" where
  "reextract_affected env language file_path request_id files selectors gone_importers own_waiting w =
     (case select_with (w_store w) language files selectors (Some file_path) gone_importers own_waiting of
        Nothing \<Rightarrow> (w, Some [])
      | TooMany _ _ \<Rightarrow> (w, None)
      | Files selected \<Rightarrow>
          (let w1 = with_ledger (owe_reextracts language file_path selected) w;
               live = filter (pe_exists env) selected;
               w2 = settle_reextracts language (filter (\<lambda>p. \<not> pe_exists env p) selected) w1
           in if live = [] then (w2, Some [])
              else let (w3, ok) = reextract_loop env request_id 0 live w2
                   in (w3, if ok then Some live else None)))"

definition affected_parts :: "ResolutionDelta option \<Rightarrow> (PathScope list \<times> ImportSelector list) option" where
  "affected_parts a =
     (case a of None \<Rightarrow> Some ([], []) | Some Unchanged \<Rightarrow> Some ([], []) | Some (Unknown _) \<Rightarrow> None
      | Some (Affected files selectors) \<Rightarrow> Some (files, selectors))"

definition finish_file_change ::
  "'p plugin_env \<Rightarrow> string \<Rightarrow> string \<Rightarrow> RequestId \<Rightarrow> bool \<Rightarrow> string list \<Rightarrow> 'p world \<Rightarrow> 'p world" where
  "finish_file_change env language file_path request_id capable reextracted w =
     settle_reextracts language reextracted
       (if capable
        then fst (apply_semantic_pass_in env language None
               (ScopedFiles (file_path # reextracted) (owed_files (w_ledger w) language))
               (semantic_pass_id (pe_digits env) request_id) w)
        else w)"

definition apply_file_change ::
  "'p plugin_env \<Rightarrow> string \<Rightarrow> string \<Rightarrow> RequestId \<Rightarrow> bool \<Rightarrow> 'p world \<Rightarrow>
     'p world \<times> (trip_error + FileChangeOutcome)" where
  "apply_file_change env language file_path request_id capable w =
     (let (w1, r) = round_trip env (FileChanged file_path False) request_id w
      in case r of
           Inl err \<Rightarrow> (w1, Inl err)
         | Inr rt \<Rightarrow>
             (case affected_parts (rt_affected rt) of
                None \<Rightarrow> (w1, Inr ReindexLanguage)
              | Some (files, selectors) \<Rightarrow>
                  (let own_waiting = map snd (filter (\<lambda>r. fst r = language) (rt_waiting_importers rt));
                       (w2, outcome) =
                         (if files = [] \<and> selectors = [] \<and> rt_gone_importers rt = [] then (w1, Some [])
                          else reextract_affected env language file_path request_id files selectors
                                 (rt_gone_importers rt) own_waiting w1)
                   in case outcome of
                        None \<Rightarrow> (w2, Inr ReindexLanguage)
                      | Some reextracted \<Rightarrow>
                          (finish_file_change env language file_path request_id capable reextracted w2,
                           Inr (Applied (length reextracted))))))"

section \<open>Owed re-extracts survive\<close>

definition owed_keys :: "'p world \<Rightarrow> (string \<times> string) set" where
  "owed_keys w = ro_key ` set (reextract_owed_files (w_ledger w))"

named_theorems owed_simps

lemma store_batch_ledger: "reextract_owed_files (snd (store_batch p b db)) = reextract_owed_files (snd db)"
  by (simp add: store_batch_def Let_def set_embedding_model_def update_meta_def)

lemma embed_answer_owed [owed_simps]: "owed_keys (embed_answer env m d w) = owed_keys w"
  by (simp add: embed_answer_def owed_keys_def store_vectors_def store_batch_ledger Let_def case_prod_beta)

lemma in_one_commit_keeps:
  assumes "\<And>conn'. P conn' conn'" "P conn (fst (f conn))"
  shows "P conn (fst (in_one_commit committed f conn))"
  using assms by (auto simp: in_one_commit_def Let_def case_prod_beta)

lemma apply_semantic_diff_linked_ledger: "snd (is_db (fst (apply_semantic_diff_linked sha c d s))) = snd (is_db s)"
proof -
  have "snd (fst (in_one_commit c f conn)) = snd conn" if "\<And>conn. snd (fst (f conn)) = snd conn" for f :: "db \<Rightarrow> db \<times> (index_error + Diff)" and conn
    by (simp add: in_one_commit_def Let_def case_prod_beta that)
  then show ?thesis
    by (auto simp: apply_semantic_diff_linked_def claim_def Let_def case_prod_beta split: sum.splits)
qed

lemma write_file_diff_owed:
  "ro_key ` set (reextract_owed_files (snd conn)) \<subseteq>
   ro_key ` set (reextract_owed_files (snd (fst (write_file_diff sha d path scope rules conn))))"
  by (cases conn) (auto simp: write_file_diff_def Let_def case_prod_beta owe_importers_keys clear_gone_file_semantic_rows_def
      split: sum.splits option.splits intro: rev_image_eqI)

lemma apply_file_diff_linked_owed:
  "ro_key ` set (reextract_owed_files (snd (is_db s))) \<subseteq>
   ro_key ` set (reextract_owed_files (snd (is_db (fst (apply_file_diff_linked sha c d path scope s)))))"
proof -
  have "ro_key ` set (reextract_owed_files (snd (is_db s))) \<subseteq>
     ro_key ` set (reextract_owed_files (snd (fst (in_one_commit c (write_file_diff sha d path scope (is_link_rules s)) (is_db s)))))"
    using write_file_diff_owed [of "is_db s" sha d path scope "is_link_rules s"]
    by (auto simp: in_one_commit_def Let_def case_prod_beta)
  then show ?thesis
    by (auto simp: apply_file_diff_linked_def claim_def Let_def case_prod_beta split: sum.splits)
qed

lemma commit_answer_owed:
  "ro_key ` set (reextract_owed_files (snd (is_db s))) \<subseteq>
   ro_key ` set (reextract_owed_files (snd (is_db (fst (commit_answer env m complete d s)))))"
proof (cases m)
  case (FileChanged path r)
  then show ?thesis using apply_file_diff_linked_owed by simp
next
  case (SemanticPass files linked)
  have "fst (commit_answer env m complete d s) = fst (apply_semantic_diff_linked (pe_sha env) (pe_committed env) d s)"
    using SemanticPass by (auto split: prod.splits sum.splits)
  then show ?thesis by (simp add: apply_semantic_diff_linked_ledger)
qed

text \<open>The three ways a round trip ends.\<close>

definition answer_diff :: "FileChangeResponse \<Rightarrow> Diff" where
  "answer_diff response = fst (to_storage_diff (fr_result response) default_PathWarnings)"

lemma round_trip_cases:
  obtains (Failed) plugin err where "round_trip env m i w = (w\<lparr>w_plugin := plugin\<rparr>, Inl err)"
  | (Rejected) plugin response s err where "pe_ask env (w_plugin w) i m = (plugin, Some response)"
      "commit_answer env m (fd_complete (fr_result response)) (answer_diff response) (w_index w) = (s, Inl err)"
      "round_trip env m i w = (w\<lparr>w_plugin := plugin, w_index := s\<rparr>, Inl (StoreFailed err))"
  | (Answered) plugin response s d1 linked rt where "pe_ask env (w_plugin w) i m = (plugin, Some response)"
      "commit_answer env m (fd_complete (fr_result response)) (answer_diff response) (w_index w) = (s, Inr (d1, linked))"
      "round_trip env m i w = (embed_answer env m d1 (w\<lparr>w_plugin := plugin, w_index := s\<rparr>), Inr rt)"
      "rt_upserted_edges rt = map ed_id (upsert_edges d1)" "rt_gone_importers rt = lf_gone_importers linked"
      "rt_unfinished_files rt = fr_unfinished_files response" "rt_incomplete rt = fr_incomplete response"
proof -
  obtain plugin answer where a: "pe_ask env (w_plugin w) i m = (plugin, answer)" by fastforce
  show ?thesis
  proof (cases "\<exists>response. answer = Some response \<and> fr_id response = i")
    case False
    then show ?thesis
      using a Failed [of plugin NoAnswer] Failed [of plugin "WrongId (fr_id (the answer))"]
      by (cases answer) (auto simp: round_trip_def Let_def)
  next
    case True
    then obtain response where r: "answer = Some response" "fr_id response = i" by blast
    obtain s res where c:
      "commit_answer env m (fd_complete (fr_result response)) (answer_diff response) (w_index w) = (s, res)" by fastforce
    show ?thesis
    proof (cases res)
      case (Inl err)
      then show ?thesis using a r c by (intro Rejected) (auto simp: round_trip_def answer_diff_def)
    next
      case (Inr x)
      then show ?thesis using a r c
        by (cases x, intro Answered) (auto simp: round_trip_def answer_diff_def)
    qed
  qed
qed

lemma round_trip_owed: "owed_keys w \<subseteq> owed_keys (fst (round_trip env m i w))"
proof (cases rule: round_trip_cases [of env m i w])
  case (Failed plugin err)
  then show ?thesis by (simp add: owed_keys_def)
next
  case (Rejected plugin response s err)
  then show ?thesis
    using commit_answer_owed [of "w_index w" env m "fd_complete (fr_result response)" "answer_diff response"]
    by (simp add: owed_keys_def)
next
  case (Answered plugin response s d1 linked rt)
  have "owed_keys w \<subseteq> owed_keys (w\<lparr>w_plugin := plugin, w_index := s\<rparr>)"
    using commit_answer_owed [of "w_index w" env m "fd_complete (fr_result response)" "answer_diff response"] Answered(2)
    by (simp add: owed_keys_def)
  then show ?thesis using Answered(3) by (simp add: owed_simps)
qed

lemma with_ledger_owed [owed_simps]:
  "(\<And>l. reextract_owed_files (f l) = reextract_owed_files l) \<Longrightarrow> owed_keys (with_ledger f w) = owed_keys w"
  by (simp add: owed_keys_def with_ledger_def)

lemma settle_owed_files_owed [owed_simps]:
  "reextract_owed_files (settle_owed_files language requested finished unfinished l) = reextract_owed_files l"
proof -
  have "reextract_owed_files (fold (settle_file language) ps l) = reextract_owed_files l" for ps l
    by (induction ps arbitrary: l) (simp_all add: settle_file_def)
  moreover have "reextract_owed_files (fold (owe_file language requested) ps l) = reextract_owed_files l" for ps l
    by (induction ps arbitrary: l) (simp_all add: owe_file_def Let_def)
  ultimately show ?thesis by (simp add: settle_owed_files_def)
qed

lemma residual_owed [owed_simps]:
  "reextract_owed_files (snd (record_language_semantic_residual now language unfinished reason l)) = reextract_owed_files l"
  by (simp add: record_language_semantic_residual_def Let_def clear_semantic_pending_language_def owed_simps clear_gap_files_def)

lemma finish_pass_owed: "owed_keys (fst (finish_pass env language sweep_language scope rt w)) = owed_keys w"
proof -
  have sweep: "owed_keys (finish_sweep sweep_language rt w) = owed_keys w"
    by (auto simp: finish_sweep_def owed_keys_def sweep_unclaimed_nodes_def Let_def case_prod_beta split: option.splits)
  have scoped: "owed_keys (finish_scoped language sent requested rt w) = owed_keys w" for sent requested
    by (auto simp: finish_scoped_def clear_semantic_pending_files_def Let_def owed_simps split: option.splits)
  have residual: "owed_keys (fst (finish_residual language sent rt w)) = owed_keys w" for sent
    by (simp add: finish_residual_def Let_def owed_simps)
  have left: "owed_keys (with_ledger (\<lambda>_. snd (record_language_semantic_residual now language u reason (w_ledger w))) w) = owed_keys w"
    for now u reason by (simp add: owed_keys_def with_ledger_def residual_owed)
  show ?thesis
    unfolding finish_pass_def using sweep scoped residual left
    by (auto simp: Let_def case_prod_beta split: option.splits)
qed

lemma semantic_pass_owed: "owed_keys w \<subseteq> owed_keys (fst (apply_semantic_pass_in env language sweep_language scope i w))"
proof -
  obtain sent requested residual where f: "pass_files scope = (sent, requested, residual)" by (cases "pass_files scope") auto
  obtain w1 r where r: "round_trip env (SemanticPass sent (linked_edges_of (w_store w) language sent)) i w = (w1, r)" by fastforce
  have "owed_keys w \<subseteq> owed_keys w1" using round_trip_owed [of w env _ i] r by (metis fst_conv)
  then show ?thesis
    unfolding apply_semantic_pass_in_def f by (cases r) (auto simp: r finish_pass_owed owed_simps)
qed

lemma settle_reextracts_owed: "owed_keys (settle_reextracts language ps w) = owed_keys w - Pair language ` set ps"
proof -
  have "ro_key ` set (fold (\<lambda>path. delete_by ro_key (language, path)) ps rows) = ro_key ` set rows - Pair language ` set ps" for rows
    by (induction ps arbitrary: rows) (auto simp: delete_by_def)
  then show ?thesis
    by (auto simp: settle_reextracts_def with_ledger_def owed_keys_def settle_owed_reextracts_def)
qed

lemma owe_reextracts_owed:
  "owed_keys (with_ledger (owe_reextracts language changed ps) w) = owed_keys w \<union> Pair language ` set ps"
  by (simp add: owed_keys_def with_ledger_def owed_reextracts_fold)

lemma reextract_loop_owed: "owed_keys w \<subseteq> owed_keys (fst (reextract_loop env i k ps w))"
proof (induction env i k ps w rule: reextract_loop.induct)
  case (2 env i k path rest w)
  obtain w1 r where r: "reextract_file env path (reextract_id (pe_digits env) i k) w = (w1, r)" by fastforce
  have "owed_keys w \<subseteq> owed_keys w1"
    using round_trip_owed [of w env] r by (auto simp: reextract_file_def Let_def case_prod_beta)
  then show ?case using 2 r by (cases r) auto
qed simp

lemma reextract_affected_owed:
  assumes "reextract_affected env language path i files selectors gone waiting w = (w', out)"
  shows "\<forall>x\<in>owed_keys w. x \<in> owed_keys w' \<or> (fst x = language \<and> \<not> pe_exists env (snd x))"
    and "select_with (w_store w) language files selectors (Some path) gone waiting = Files selected \<Longrightarrow>
      \<forall>p\<in>set selected. pe_exists env p \<longrightarrow> (language, p) \<in> owed_keys w'"
proof -
  let ?sel = "select_with (w_store w) language files selectors (Some path) gone waiting"
  have files: "owed_keys w \<union> Pair language ` set selected - Pair language ` {p \<in> set selected. \<not> pe_exists env p} \<subseteq> owed_keys w'" if "?sel = Files selected" for selected
  proof -
    let ?w1 = "with_ledger (owe_reextracts language path selected) w"
    let ?w2 = "settle_reextracts language (filter (\<lambda>p. \<not> pe_exists env p) selected) ?w1"
    have w2: "owed_keys ?w2 = owed_keys w \<union> Pair language ` set selected - Pair language ` {p \<in> set selected. \<not> pe_exists env p}"
      by (simp add: settle_reextracts_owed owe_reextracts_owed)
    show ?thesis
    proof (cases "filter (pe_exists env) selected = []")
      case True
      with assms that have "w' = ?w2" by (auto simp: reextract_affected_def Let_def)
      with w2 True show ?thesis by auto
    next
      case False
      with assms that have "w' = fst (reextract_loop env i 0 (filter (pe_exists env) selected) ?w2)"
        by (auto simp: reextract_affected_def Let_def case_prod_beta)
      with w2 reextract_loop_owed [of ?w2 env i 0 "filter (pe_exists env) selected"] show ?thesis by auto
    qed
  qed
  show "\<forall>x\<in>owed_keys w. x \<in> owed_keys w' \<or> (fst x = language \<and> \<not> pe_exists env (snd x))"
  proof (cases ?sel)
    case (Files selected)
    have "owed_keys w \<union> Pair language ` set selected - Pair language ` {p \<in> set selected. \<not> pe_exists env p} \<subseteq> owed_keys w'"
      by (rule files [OF Files])
    then show ?thesis by auto
  qed (use assms in \<open>auto simp: reextract_affected_def\<close>)
  show "?sel = Files selected \<Longrightarrow> \<forall>p\<in>set selected. pe_exists env p \<longrightarrow> (language, p) \<in> owed_keys w'"
    using files by blast
qed

lemma finish_file_change_owed:
  "owed_keys w - Pair language ` set reextracted \<subseteq> owed_keys (finish_file_change env language path i capable reextracted w)"
  using semantic_pass_owed [of w env language None] by (auto simp: finish_file_change_def settle_reextracts_owed)

text \<open>
  C13. No owed re-extract is lost to a failed change: whatever the plugin answers and whichever step
  fails, a file owed a re-extract before the change is still owed afterwards, unless it belongs to
  the plugin's language and is gone from disk, or the change re-extracted files and completed.
\<close>

theorem failed_change_keeps_owed:
  assumes "apply_file_change env language path i capable w = (w', r)"
    and "x \<in> owed_keys w" and "x \<notin> owed_keys w'"
  shows "fst x = language \<and> (\<not> pe_exists env (snd x) \<or> (\<exists>n. r = Inr (Applied (Suc n))))"
proof -
  obtain w1 r1 where t: "round_trip env (FileChanged path False) i w = (w1, r1)" by fastforce
  have x1: "x \<in> owed_keys w1" using round_trip_owed [of w env _ i] t assms(2) by (metis fst_conv subsetD)
  with assms(1,3) t obtain rt files selectors where rt: "r1 = Inr rt" "affected_parts (rt_affected rt) = Some (files, selectors)"
    by (auto simp: apply_file_change_def split: sum.splits option.splits)
  define waiting where "waiting = map snd (filter (\<lambda>r. fst r = language) (rt_waiting_importers rt))"
  obtain w2 out where o: "(if files = [] \<and> selectors = [] \<and> rt_gone_importers rt = [] then (w1, Some [])
      else reextract_affected env language path i files selectors (rt_gone_importers rt) waiting w1) = (w2, out)" by fastforce
  have w': "(w', r) = (case out of None \<Rightarrow> (w2, Inr ReindexLanguage)
      | Some ps \<Rightarrow> (finish_file_change env language path i capable ps w2, Inr (Applied (length ps))))"
    using assms(1) t rt by (simp add: apply_file_change_def o [unfolded waiting_def] split del: if_split)
  show ?thesis
  proof (cases "x \<in> owed_keys w2")
    case False
    then have "files \<noteq> [] \<or> selectors \<noteq> [] \<or> rt_gone_importers rt \<noteq> []" using o x1 by (auto split: if_splits)
    with o have "reextract_affected env language path i files selectors (rt_gone_importers rt) waiting w1 = (w2, out)"
      by (auto split: if_splits)
    from reextract_affected_owed(1) [OF this] x1 False show ?thesis by blast
  next
    case True
    then obtain ps where ps: "out = Some ps" "w' = finish_file_change env language path i capable ps w2"
      "r = Inr (Applied (length ps))"
      using w' assms(3) by (cases out) auto
    then have "x \<in> Pair language ` set ps" using finish_file_change_owed [of w2 language ps] True assms(3) by blast
    then show ?thesis using ps(3) by (cases ps) auto
  qed
qed

section \<open>The sweep of a complete pass\<close>


section \<open>Witnesses\<close>

text \<open>
  Four files, of which \<open>b\<close> is owed a re-extract and gone from disk; the plugin answers the change of
  \<open>a\<close> with nothing but that \<open>b\<close> is affected.
\<close>

definition sample_answer :: "RequestId \<Rightarrow> FileChangeResponse" where
  "sample_answer i = \<lparr>fr_id = i, fr_result = default_FileChangeDiff\<lparr>fd_affected := Some (Affected [\<lparr>under = ''b'', not_under = []\<rparr>] [])\<rparr>,
     fr_incomplete = False, fr_incomplete_reason = None, fr_unfinished_files = None\<rparr>"

definition sample_plugin :: "unit plugin_env" where
  "sample_plugin = \<lparr>pe_sha = rev, pe_ask = (\<lambda>p i m. (p, Some (sample_answer i))), pe_missing = (\<lambda>p. False),
     pe_exists = (\<lambda>p. p \<noteq> ''b''), pe_committed = True, pe_embed = sample_env (\<lambda>t. None), pe_now = ''t'', pe_digits = (\<lambda>n. [])\<rparr>"

definition sample_world :: "unit world" where
  "sample_world = \<lparr>w_plugin = (),
     w_index = new_IndexStore (empty_store\<lparr>nodes := map (\<lambda>i. (sample_file i)\<lparr>n_language := ''rs''\<rparr>) [''a'', ''b'', ''c'', ''d'']\<rparr>,
       owe_reextracts ''rs'' ''a'' [''b''] empty_ledger),
     w_pipeline = sample_pipeline Off\<rparr>"

theorem failed_change_keeps_owed_witness:
  "(''rs'', ''b'') \<in> owed_keys sample_world \<and>
   (''rs'', ''b'') \<notin> owed_keys (fst (apply_file_change sample_plugin ''rs'' ''a'' (Number 1) False sample_world)) \<and>
   \<not> pe_exists sample_plugin ''b''"
proof -
  have before: "(''rs'', ''b'') \<in> owed_keys sample_world"
    and after: "(''rs'', ''b'') \<notin> owed_keys (fst (apply_file_change sample_plugin ''rs'' ''a'' (Number 1) False sample_world))"
    and res: "snd (apply_file_change sample_plugin ''rs'' ''a'' (Number 1) False sample_world) = Inr (Applied 0)"
    by code_simp+
  from failed_change_keeps_owed [OF prod.collapse [symmetric] before after] before after show ?thesis
    unfolding res by simp
qed

text \<open>A live index with a semantic edge the pass no longer sends.\<close>

definition silent_plugin :: "unit plugin_env" where
  "silent_plugin = sample_plugin\<lparr>pe_ask := (\<lambda>p i m. (p, Some \<lparr>fr_id = i, fr_result = default_FileChangeDiff, fr_incomplete = False,
     fr_incomplete_reason = None, fr_unfinished_files = None\<rparr>))\<rparr>"

definition live_world :: "unit world" where
  "live_world = \<lparr>w_plugin = (), w_index = new_IndexStore (sample_live, empty_ledger), w_pipeline = sample_pipeline Off\<rparr>"

definition swept_world :: "unit world" where
  "swept_world = fst (apply_semantic_pass_in silent_plugin ''rs'' (Some ''rs'') WholeProject (Number 1) live_world)"


end
