(* ===== verification/Semantic_Runs.thy ===== *)
theory Semantic_Runs
  imports Round_Trip
begin

text \<open>
  \<^verbatim>\<open>core/src/daemon/semantic.rs\<close> with \<^verbatim>\<open>PluginProcess::semantic_pass\<close> of \<^verbatim>\<open>core/src/daemon/plugin.rs\<close>: the semantic
  passes a start owes, one language after the other, and what is recorded of each. Waking, suspending
  and spawning a plugin is the argument \<open>access\<close>; every language has its own environment and request
  id; \<open>describe\<close> is the text of an error. The progress display and the timeouts are left out.
\<close>

definition process_semantic_pass ::
  "'p plugin_env \<Rightarrow> string \<Rightarrow> bool \<Rightarrow> string list \<Rightarrow> RequestId \<Rightarrow> 'p world \<Rightarrow>
     'p world \<times> (trip_error + SemanticPassOutcome)" where
  "process_semantic_pass env language sweeps file_paths i w =
     (if file_paths = []
      then apply_semantic_pass env language (if sweeps then Some language else None) file_paths i w
      else apply_residual_semantic_pass env language file_paths i w)"

record SemanticPassRun =
  sp_completed :: "string list"
  sp_failed :: "(string \<times> string) list"
  sp_residual :: "(string \<times> nat) list"

definition default_SemanticPassRun :: SemanticPassRun where
  "default_SemanticPassRun = \<lparr>sp_completed = [], sp_failed = [], sp_residual = []\<rparr>"

definition any_ran :: "SemanticPassRun \<Rightarrow> bool" where
  "any_ran run \<longleftrightarrow> sp_completed run \<noteq> []"

definition NOT_RUN_REASON :: string where
  "NOT_RUN_REASON = ''not run - its plugin was asleep or memory-suspended; the next daemon start or `g-mesh reindex` asks again''"

definition record_reason :: "string \<Rightarrow> string \<Rightarrow> 'p world \<Rightarrow> 'p world" where
  "record_reason language reason w = with_ledger (record_language_semantic_pass_failure language reason) w"

definition record_failure ::
  "string \<Rightarrow> string \<Rightarrow> SemanticPassRun \<times> 'p world \<Rightarrow> SemanticPassRun \<times> 'p world" where
  "record_failure language reason s =
     ((fst s)\<lparr>sp_failed := sp_failed (fst s) @ [(language, reason)]\<rparr>, record_reason language reason (snd s))"

definition record_not_run :: "string \<Rightarrow> SemanticPassRun \<times> 'p world \<Rightarrow> SemanticPassRun \<times> 'p world" where
  "record_not_run language s = (fst s, record_reason language NOT_RUN_REASON (snd s))"

definition record_success :: "string \<Rightarrow> string \<Rightarrow> SemanticPassRun \<times> 'p world \<Rightarrow> SemanticPassRun \<times> 'p world" where
  "record_success now language s =
     ((fst s)\<lparr>sp_completed := sp_completed (fst s) @ [language]\<rparr>,
      with_ledger (record_language_semantic_pass now language) (snd s))"

definition record_settled :: "string \<Rightarrow> string \<Rightarrow> SemanticPassRun \<times> 'p world \<Rightarrow> SemanticPassRun \<times> 'p world" where
  "record_settled now language s =
     ((fst s)\<lparr>sp_completed := sp_completed (fst s) @ [language]\<rparr>,
      with_ledger (record_language_semantic_pass_settled now language) (snd s))"

fun record_outcome ::
  "(trip_error \<Rightarrow> string) \<Rightarrow> string \<Rightarrow> string \<Rightarrow> (trip_error + SemanticPassOutcome option) \<Rightarrow>
     SemanticPassRun \<times> 'p world \<Rightarrow> SemanticPassRun \<times> 'p world" where
  "record_outcome describe now language (Inr (Some PassComplete)) s = record_success now language s"
| "record_outcome describe now language (Inr (Some PassSettled)) s = record_settled now language s"
| "record_outcome describe now language (Inr (Some (PassResidual left))) s =
     ((fst s)\<lparr>sp_residual := sp_residual (fst s) @ [(language, left)]\<rparr>, snd s)"
| "record_outcome describe now language (Inr None) s = record_not_run language s"
| "record_outcome describe now language (Inl err) s = record_failure language (describe err) s"

datatype OwedPass = OwedWholeProject | OwedResidual "string list" | NothingLeft

definition owed_pass :: "ledger \<Rightarrow> string \<Rightarrow> OwedPass" where
  "owed_pass l language =
     (case semantic_residual_files l language of
        None \<Rightarrow> OwedWholeProject
      | Some files \<Rightarrow> if files = [] then NothingLeft else OwedResidual files)"

definition owed_scope :: "OwedPass \<Rightarrow> string list" where
  "owed_scope p = (case p of OwedResidual files \<Rightarrow> files | _ \<Rightarrow> [])"

text \<open>How a start reaches the plugin: it answers, it is asleep or suspended, or it does not start.\<close>

datatype access = Awake | Asleep | NotStarted string

record 'p start_env =
  st_env :: "string \<Rightarrow> 'p plugin_env"
  st_access :: "string \<Rightarrow> access"
  st_sweeps :: "string \<Rightarrow> bool"
  st_request :: "string \<Rightarrow> RequestId"
  st_describe :: "trip_error \<Rightarrow> string"
  st_now :: string

definition run_language ::
  "'p start_env \<Rightarrow> string \<Rightarrow> SemanticPassRun \<times> 'p world \<Rightarrow> SemanticPassRun \<times> 'p world" where
  "run_language se language s =
     (let p = owed_pass (w_ledger (snd s)) language in
      if p = NothingLeft then record_settled (st_now se) language s
      else case st_access se language of
             NotStarted reason \<Rightarrow> record_failure language reason s
           | Asleep \<Rightarrow> record_outcome (st_describe se) (st_now se) language (Inr None) s
           | Awake \<Rightarrow>
               (let (w, r) = process_semantic_pass (st_env se language) language (st_sweeps se language)
                      (owed_scope p) (st_request se language) (snd s)
                in record_outcome (st_describe se) (st_now se) language
                     (case r of Inl err \<Rightarrow> Inl err | Inr out \<Rightarrow> Inr (Some out)) (fst s, w)))"

definition run_owed :: "'p start_env \<Rightarrow> string set \<Rightarrow> 'p world \<Rightarrow> SemanticPassRun \<times> 'p world" where
  "run_owed se capable w =
     (let owed = owed_semantic_pass_languages (w_store w) (w_ledger w) capable;
          (run, w1) = fold (run_language se) owed (default_SemanticPassRun, w)
      in (run, with_ledger (reconcile_semantic_pass_rollup (st_now se) (w_store w1) capable) w1))"

section \<open>Attempts grow\<close>

lemma owe_file_rows:
  assumes "owed_ok (semantic_owed_files l) (semantic_gap_files l)" "r \<in> set (semantic_owed_files (owe_file language [] path l))"
  shows "(so_key r \<noteq> (language, path) \<and> r \<in> set (semantic_owed_files l)) \<or>
    (so_key r = (language, path) \<and> so_attempts r = attempts_after language [] path l)"
  using assms
  by (auto simp: owe_file_def Let_def table_simps owed_table.upsert_set merge_attempts_def so_key_def delete_by_def
      split: if_splits)

lemma owe_file_others:
  assumes "r \<in> set (semantic_owed_files l)" "so_key r \<noteq> (language, path)"
  shows "r \<in> set (semantic_owed_files (owe_file language requested path l))"
  using assms by (auto simp: owe_file_def Let_def table_simps owed_table.upsert_set delete_by_def so_key_def)

lemma attempts_after_row:
  assumes "owed_ok (semantic_owed_files l) gap" "r \<in> set (semantic_owed_files l)" "so_key r = (language, path)"
  shows "attempts_after language [] path l = so_attempts r + 1"
proof -
  have "select_by so_key (language, path) (semantic_owed_files l) = Some r"
    using assms by (auto simp: select_by_Some owed_ok_def)
  moreover have "so_attempts r < 3" using assms(1,2) by (auto simp: owed_ok_def MAX_OWED_ATTEMPTS_def)
  ultimately show ?thesis by (simp add: attempts_after_def saturating_succ_def)
qed

lemma owe_files_attempts:
  assumes "distinct ps" "owed_ok (semantic_owed_files l) (semantic_gap_files l)"
    and "\<forall>p\<in>set ps. \<exists>r\<in>set (semantic_owed_files l). so_key r = (language, p)"
    and "\<forall>r\<in>set (semantic_owed_files l). so_language r = language \<longrightarrow> b (so_filePath r) \<le> so_attempts r"
  shows "\<forall>r\<in>set (semantic_owed_files (fold (owe_file language []) ps l)). so_language r = language \<longrightarrow>
    (if so_filePath r \<in> set ps then b (so_filePath r) + 1 else b (so_filePath r)) \<le> so_attempts r"
  using assms
proof (induction ps arbitrary: l b)
  case (Cons p ps)
  let ?l = "owe_file language [] p l" and ?b = "b(p := b p + 1)"
  obtain q where q: "q \<in> set (semantic_owed_files l)" "so_key q = (language, p)" using Cons.prems(3) by auto
  have after: "attempts_after language [] p l = so_attempts q + 1" using attempts_after_row [OF Cons.prems(2) q] .
  have "b p \<le> so_attempts q" using Cons.prems(4) q by (auto simp: so_key_def)
  then have b: "\<forall>r\<in>set (semantic_owed_files ?l). so_language r = language \<longrightarrow> ?b (so_filePath r) \<le> so_attempts r"
    using owe_file_rows [OF Cons.prems(2)] Cons.prems(4) after by (fastforce simp: so_key_def)
  have "\<forall>x\<in>set ps. \<exists>r\<in>set (semantic_owed_files ?l). so_key r = (language, x)"
    using Cons.prems(1,3) owe_file_others [of _ l language p] by fastforce
  from Cons.IH [OF _ owe_file_ok [OF Cons.prems(2)] this b] Cons.prems(1)
  show ?case by (auto split: if_splits)
qed simp

lemma settle_files_rows:
  "semantic_owed_files (fold (settle_file language) ps l) =
     filter (\<lambda>r. so_key r \<notin> Pair language ` set ps) (semantic_owed_files l)"
  by (induction ps arbitrary: l) (auto simp: settle_file_def delete_by_def intro!: filter_cong)

lemma settle_files_ok:
  "owed_ok (semantic_owed_files l) (semantic_gap_files l) \<Longrightarrow>
   owed_ok (semantic_owed_files (fold (settle_file language) ps l)) (semantic_gap_files (fold (settle_file language) ps l))"
  by (induction ps arbitrary: l) simp_all

lemma owed_files_iff: "p \<in> set (owed_files l language) \<longleftrightarrow> (\<exists>r\<in>set (semantic_owed_files l). so_key r = (language, p))"
  by (auto simp: owed_files_def so_key_def)

lemma distinct_owed_files: "keyed so_key (semantic_owed_files l) \<Longrightarrow> distinct (owed_files l language)"
proof -
  assume k: "keyed so_key (semantic_owed_files l)"
  have "inj_on so_filePath {r \<in> set (semantic_owed_files l). so_language r = language}"
    using keyed_inj [OF k] by (auto simp: inj_on_def so_key_def)
  moreover have "distinct (semantic_owed_files l)" using k by (auto simp: keyed_def distinct_map)
  ultimately show ?thesis by (simp add: owed_files_def distinct_map)
qed

lemma owe_files_keys:
  "so_key ` set (semantic_owed_files (fold (owe_file language []) ps l)) \<subseteq>
     so_key ` set (semantic_owed_files l) \<union> Pair language ` set ps"
proof (induction ps arbitrary: l)
  case (Cons p ps)
  have "so_key ` set (semantic_owed_files (owe_file language [] p l)) \<subseteq>
      insert (language, p) (so_key ` set (semantic_owed_files l))"
    by (auto simp: owe_file_def Let_def table_simps owed_table.upsert_set merge_attempts_def so_key_def split: if_splits)
  with Cons [of "owe_file language [] p l"] show ?case
    unfolding fold_simps list.set image_insert by blast
qed simp

lemma settle_owed_files_attempts:
  assumes "owed_ok (semantic_owed_files l) (semantic_gap_files l)"
    and "\<forall>r\<in>set (semantic_owed_files l). so_language r = language \<longrightarrow> k \<le> so_attempts r"
    and "distinct unfinished" "set unfinished \<inter> set finished = {}"
    and "set (owed_files l language) = set finished \<union> set unfinished"
  shows "\<forall>r\<in>set (semantic_owed_files (settle_owed_files language [] finished unfinished l)).
    so_language r = language \<longrightarrow> k + 1 \<le> so_attempts r"
proof -
  let ?l = "fold (settle_file language) finished l"
  let ?rows = "semantic_owed_files (fold (owe_file language []) unfinished ?l)"
  have ok: "owed_ok (semantic_owed_files ?l) (semantic_gap_files ?l)" using assms(1) by (rule settle_files_ok)
  have owed: "p \<in> set unfinished \<longleftrightarrow> (language, p) \<in> so_key ` set (semantic_owed_files ?l)" for p
  proof -
    have "(language, p) \<in> so_key ` set (semantic_owed_files ?l) \<longleftrightarrow> p \<in> set (owed_files l language) \<and> p \<notin> set finished"
      unfolding settle_files_rows owed_files_iff by (auto simp: image_iff eq_commute)
    then show ?thesis using assms(4,5) by auto
  qed
  then have rows: "\<forall>p\<in>set unfinished. \<exists>r\<in>set (semantic_owed_files ?l). so_key r = (language, p)" by (auto simp: image_iff eq_commute)
  have named: "so_filePath r \<in> set unfinished" if r: "r \<in> set ?rows" "so_language r = language" for r
  proof -
    have "so_key r = (language, so_filePath r)" using r(2) by (simp add: so_key_def)
    then have "(language, so_filePath r) \<in> so_key ` set (semantic_owed_files ?l) \<union> Pair language ` set unfinished"
      using subsetD [OF owe_files_keys imageI [OF r(1)]] by simp
    then show ?thesis using owed by blast
  qed
  have "\<forall>r\<in>set (semantic_owed_files ?l). so_language r = language \<longrightarrow> k \<le> so_attempts r"
    using assms(2) unfolding settle_files_rows by simp
  from owe_files_attempts [OF assms(3) ok rows this] named show ?thesis
    unfolding settle_owed_files_def by auto
qed

section \<open>A residual pass settles\<close>

lemma semantic_trip_ledger: "\<exists>m. w_ledger (fst (round_trip env (SemanticPass files linked) i w)) = (w_ledger w)\<lparr>meta := m\<rparr>"
proof -
  have same: "\<exists>m. l = l\<lparr>meta := m\<rparr>" for l :: ledger by (metis ledger.surjective ledger.update_convs(1))
  have commit: "snd (is_db (fst (commit_answer env (SemanticPass files linked) c d s))) = snd (is_db s)" for c d s
    using apply_semantic_diff_linked_ledger [of "pe_sha env" "pe_committed env" d s] by (auto split: prod.splits sum.splits)
  have embedded: "\<exists>m. w_ledger (embed_answer env q d v) = (w_ledger v)\<lparr>meta := m\<rparr>" for q d and v :: "'a world"
    using same by (auto simp: embed_answer_def store_vectors_def store_batch_def set_embedding_model_def update_meta_def Let_def case_prod_beta)
  show ?thesis
  proof (cases rule: round_trip_cases [of env "SemanticPass files linked" i w])
    case (Answered plugin response s d1 lk rt)
    have "w_ledger (w\<lparr>w_plugin := plugin, w_index := s\<rparr>) = w_ledger w"
      using commit [of "fd_complete (fr_result response)" "answer_diff response" "w_index w"] Answered(2) by simp
    with embedded [of "SemanticPass files linked" d1 "w\<lparr>w_plugin := plugin, w_index := s\<rparr>"] Answered(3) show ?thesis by simp
  next
    case (Rejected plugin response s err)
    then show ?thesis
      using commit [of "fd_complete (fr_result response)" "answer_diff response" "w_index w"] same [of "w_ledger w"] by simp
  qed (use same [of "w_ledger w"] in simp)
qed

text \<open>
  A language with a residual row whose owed files have all had \<open>k\<close> attempts.
\<close>

definition residual_at :: "int \<Rightarrow> string \<Rightarrow> ledger \<Rightarrow> bool" where
  "residual_at k language l \<longleftrightarrow>
     ledger_ok l \<and> select_by sr_language language (semantic_residual l) \<noteq> None \<and>
     (\<forall>r\<in>set (semantic_owed_files l). so_language r = language \<longrightarrow> k \<le> so_attempts r)"

lemma residual_at_meta: "residual_at k language (l\<lparr>meta := m\<rparr>) = residual_at k language l"
  by (simp add: residual_at_def)

lemma residual_at_settle:
  assumes "residual_at k language l" "set (owed_files l language) = set finished \<union> set unfinished"
    and "distinct unfinished" "set unfinished \<inter> set finished = {}"
  shows "residual_at (k + 1) language (settle_owed_files language [] finished unfinished l)"
proof -
  let ?l = "settle_owed_files language [] finished unfinished l"
  have "semantic_residual ?l = semantic_residual l"
    using settle_owed_files_same [of l language "[]" finished unfinished] unfolding same_but_owed_def
    by (metis ledger.select_convs(12) ledger.surjective ledger.update_convs(9,13))
  moreover have "owed_ok (semantic_owed_files l) (semantic_gap_files l)" using assms(1) by (simp add: residual_at_def ledger_ok_def)
  ultimately show ?thesis
    using settle_owed_files_attempts [OF _ _ assms(3,4,2), of k] assms(1) by (simp add: residual_at_def)
qed

lemma residual_pass_grows:
  assumes "residual_at k language (w_ledger w)"
    and "apply_residual_semantic_pass env language (owed_files (w_ledger w) language) i w = (w', r)"
  shows "residual_at (k + 1) language (w_ledger w') \<and> r \<noteq> Inr PassComplete"
proof -
  let ?sent = "owed_files (w_ledger w) language"
  obtain w1 r1 where t: "round_trip env (SemanticPass ?sent (linked_edges_of (w_store w) language ?sent)) i w = (w1, r1)" by fastforce
  obtain m where "w_ledger w1 = (w_ledger w)\<lparr>meta := m\<rparr>" using semantic_trip_ledger t by (metis fst_conv)
  then have at: "residual_at k language (w_ledger w1)" and sent: "owed_files (w_ledger w1) language = ?sent"
    using assms(1) by (simp_all add: residual_at_meta owed_files_def)
  have dist: "distinct ?sent" using assms(1) by (intro distinct_owed_files) (simp add: residual_at_def ledger_ok_def owed_ok_def)
  have ledger_of: "w_ledger (with_ledger f v) = f (w_ledger v)" for f and v :: "'a world" by (simp add: with_ledger_def)
  show ?thesis
  proof (cases r1)
    case (Inl err)
    then have "w' = with_ledger (settle_owed_files language [] [] ?sent) w1" "r = Inl err"
      using assms(2) t by (simp_all add: apply_residual_semantic_pass_def apply_semantic_pass_in_def)
    with residual_at_settle [OF at, of "[]" ?sent] sent dist show ?thesis by (simp add: ledger_of)
  next
    case (Inr rt)
    define unfinished where "unfinished = (case rt_unfinished_files rt of
        Some named \<Rightarrow> filter (\<lambda>path. path \<in> set named) ?sent | None \<Rightarrow> if rt_incomplete rt then ?sent else [])"
    have sub: "set unfinished \<subseteq> set ?sent" "distinct unfinished"
      using dist by (auto simp: unfinished_def split: option.splits)
    have "(w', r) = finish_residual language ?sent rt w1"
      using assms(2) t Inr by (simp add: apply_residual_semantic_pass_def apply_semantic_pass_in_def finish_pass_def)
    then have w': "w_ledger w' = settle_owed_files language [] (filter (\<lambda>path. path \<notin> set unfinished) ?sent) unfinished (w_ledger w1)"
      and "r \<noteq> Inr PassComplete"
      by (simp_all add: finish_residual_def unfinished_def ledger_of Let_def outcome_left_def)
    moreover have "set ?sent = set (filter (\<lambda>path. path \<notin> set unfinished) ?sent) \<union> set unfinished" using sub by auto
    then have "residual_at (k + 1) language (w_ledger w')"
      unfolding w' by (intro residual_at_settle [OF at]) (use sub sent in auto)
    ultimately show ?thesis by blast
  qed
qed

lemma settled_is_done:
  assumes "ledger_ok l"
  shows "language_semantic_pass_done (record_language_semantic_pass_settled now language l) language"
proof -
  have "keyed ls_language (language_state l)" using assms by (simp add: ledger_ok_def)
  then have "\<exists>r. select_by ls_language language (upsert_by ls_language merge_semantic_pass
      ((blank_state language)\<lparr>ls_semanticPassAt := Some now\<rparr>) (language_state l)) = Some r \<and> ls_semanticPassAt r \<noteq> None"
    by (simp add: pass_state_table.select_upsert blank_state_def merge_semantic_pass_def split: option.splits)
  then show ?thesis
    unfolding language_semantic_pass_done_def state_of_def record_language_semantic_pass_settled_def
    by (fastforce simp: clear_residual_def clear_owed_files_def clear_semantic_pending_def clear_semantic_pending_language_def
        mark_semantic_pass_def Let_def split: option.splits)
qed

lemma residual_at_failure:
  "residual_at k language l \<Longrightarrow> residual_at k language (record_language_semantic_pass_failure other reason l)"
  by (simp add: residual_at_def)
    (simp add: record_language_semantic_pass_failure_def clear_semantic_pending_language_def)

lemma run_language_residual:
  assumes "residual_at k language (w_ledger w)" "st_access se language = Awake" "run_language se language (run, w) = (run', w')"
  shows "language_semantic_pass_done (w_ledger w') language \<or>
    (residual_at (k + 1) language (w_ledger w') \<and> owed_files (w_ledger w) language \<noteq> [])"
proof -
  let ?sent = "owed_files (w_ledger w) language"
  have ledger_of: "w_ledger (with_ledger f v) = f (w_ledger v)" for f and v :: "'a world" by (simp add: with_ledger_def)
  have files: "semantic_residual_files (w_ledger w) language = Some ?sent"
    using assms(1) by (auto simp: residual_at_def semantic_residual_files_def)
  have ok: "ledger_ok (w_ledger w)" using assms(1) by (simp add: residual_at_def)
  show ?thesis
  proof (cases "?sent = []")
    case True
    then have "w' = with_ledger (record_language_semantic_pass_settled (st_now se) language) w"
      using assms(3) files by (simp add: run_language_def owed_pass_def record_settled_def)
    then show ?thesis using settled_is_done [OF ok] by (simp add: ledger_of)
  next
    case False
    obtain w1 r where r: "apply_residual_semantic_pass (st_env se language) language ?sent (st_request se language) w = (w1, r)" by fastforce
    have at: "residual_at (k + 1) language (w_ledger w1)" and nc: "r \<noteq> Inr PassComplete"
      using residual_pass_grows [OF assms(1) r] by simp_all
    have "(run', w') = record_outcome (st_describe se) (st_now se) language
        (case r of Inl err \<Rightarrow> Inl err | Inr out \<Rightarrow> Inr (Some out)) (run, w1)"
      using assms(2,3) files False r
      by (simp add: run_language_def owed_pass_def owed_scope_def process_semantic_pass_def)
    then have "w' = with_ledger (record_language_semantic_pass_settled (st_now se) language) w1 \<or> w' = w1 \<or>
        (\<exists>reason. w' = with_ledger (record_language_semantic_pass_failure language reason) w1)"
      using nc by (auto simp: record_settled_def record_failure_def record_reason_def split: sum.splits)
        (metis SemanticPassOutcome.exhaust prod.inject record_outcome.simps(2,3) record_settled_def snd_conv fst_conv)
    then show ?thesis
      using at False settled_is_done [of "w_ledger w1"] residual_at_failure [OF at]
      by (auto simp: ledger_of residual_at_def)
  qed
qed

text \<open>The starts a language goes through, each only while its pass is owed.\<close>

fun next_starts :: "'p start_env list \<Rightarrow> string \<Rightarrow> 'p world \<Rightarrow> 'p world" where
  "next_starts [] language w = w"
| "next_starts (se # ses) language w =
     next_starts ses language
       (if language_semantic_pass_done (w_ledger w) language then w
        else snd (run_language se language (default_SemanticPassRun, w)))"

lemma next_starts_done:
  "language_semantic_pass_done (w_ledger w) language \<Longrightarrow> language_semantic_pass_done (w_ledger (next_starts ses language w)) language"
  by (induction ses arbitrary: w) simp_all

lemma next_starts_residual:
  assumes "residual_at k language (w_ledger w)" "\<forall>se\<in>set ses. st_access se language = Awake"
    and "int (length ses) = MAX_OWED_ATTEMPTS - k + 1" "ses \<noteq> []"
  shows "language_semantic_pass_done (w_ledger (next_starts ses language w)) language"
  using assms
proof (induction ses arbitrary: k w)
  case (Cons se ses)
  show ?case
  proof (cases "language_semantic_pass_done (w_ledger w) language")
    case True
    then show ?thesis by (simp add: next_starts_done)
  next
    case False
    obtain run' w' where r: "run_language se language (default_SemanticPassRun, w) = (run', w')" by fastforce
    have w': "next_starts (se # ses) language w = next_starts ses language w'" using False r by simp
    consider "language_semantic_pass_done (w_ledger w') language"
      | "residual_at (k + 1) language (w_ledger w')" "owed_files (w_ledger w) language \<noteq> []"
      using run_language_residual [OF Cons.prems(1) _ r] Cons.prems(2) by auto
    then show ?thesis
    proof cases
      case 1
      then show ?thesis unfolding w' by (rule next_starts_done)
    next
      case 2
      then obtain p where "p \<in> set (owed_files (w_ledger w) language)" by (meson ex_in_conv set_empty)
      then obtain q where q: "q \<in> set (semantic_owed_files (w_ledger w))" "so_language q = language"
        by (auto simp: owed_files_iff so_key_def)
      have "k < MAX_OWED_ATTEMPTS"
        using Cons.prems(1) q unfolding residual_at_def ledger_ok_def owed_ok_def by fastforce
      then have "ses \<noteq> []" "int (length ses) = MAX_OWED_ATTEMPTS - (k + 1) + 1" using Cons.prems(3) by auto
      with Cons.IH [OF 2(1)] Cons.prems(2) show ?thesis unfolding w' by simp
    qed
  qed
qed simp

text \<open>
  C14. A residual language settles: whatever its plugin answers, whether it keeps naming files as
  unfinished, answers nothing or answers what the index rejects, after \<open>MAX_OWED_ATTEMPTS\<close> starts
  that reach the plugin its semantic pass is recorded, so no start asks forever.
\<close>

theorem residual_language_settles:
  assumes "ledger_reach (w_ledger w)" "semantic_residual_files (w_ledger w) language \<noteq> None"
    and "\<forall>se\<in>set ses. st_access se language = Awake" "length ses = nat MAX_OWED_ATTEMPTS"
  shows "language_semantic_pass_done (w_ledger (next_starts ses language w)) language"
proof -
  have ok: "ledger_ok (w_ledger w)" using assms(1) by (rule ledger_reach_ok)
  then have "\<forall>r\<in>set (semantic_owed_files (w_ledger w)). 1 \<le> so_attempts r" by (simp add: ledger_ok_def owed_ok_def)
  with ok assms(2) have "residual_at 1 language (w_ledger w)"
    by (auto simp: residual_at_def semantic_residual_files_def split: option.splits)
  moreover have "ses \<noteq> []" using assms(4) by (auto simp: MAX_OWED_ATTEMPTS_def)
  ultimately show ?thesis using next_starts_residual [of 1] assms(3,4) by (simp add: MAX_OWED_ATTEMPTS_def)
qed

section \<open>A witness\<close>

text \<open>A pass left \<open>a\<close> unfinished, and from then on the plugin answers nothing.\<close>

definition mute_start :: "unit start_env" where
  "mute_start = \<lparr>st_env = (\<lambda>language. sample_plugin\<lparr>pe_ask := (\<lambda>p i m. (p, None))\<rparr>), st_access = (\<lambda>language. Awake),
     st_sweeps = (\<lambda>language. False), st_request = (\<lambda>language. Number 1), st_describe = (\<lambda>e. ''no answer''), st_now = ''t''\<rparr>"

definition residual_ledger :: ledger where
  "residual_ledger = snd (record_language_semantic_residual ''t'' ''rs'' [''a''] ''slow'' sample_walked)"

definition residual_world :: "unit world" where
  "residual_world = \<lparr>w_plugin = (), w_index = new_IndexStore (empty_store, residual_ledger), w_pipeline = sample_pipeline Off\<rparr>"

theorem residual_language_settles_witness:
  "\<not> language_semantic_pass_done (w_ledger (next_starts (replicate 2 mute_start) ''rs'' residual_world)) ''rs'' \<and>
   language_semantic_pass_done (w_ledger (next_starts (replicate 3 mute_start) ''rs'' residual_world)) ''rs''"
proof
  show "\<not> language_semantic_pass_done (w_ledger (next_starts (replicate 2 mute_start) ''rs'' residual_world)) ''rs''"
    by code_simp
  have "ledger_reach residual_ledger"
    unfolding residual_ledger_def by (rule ledger_reach.Step [OF sample_walked_reach ledger_step.PassResidual])
  then have reach: "ledger_reach (w_ledger residual_world)" by (simp add: residual_world_def new_IndexStore_def)
  have files: "semantic_residual_files (w_ledger residual_world) ''rs'' \<noteq> None" by code_simp
  have awake: "\<forall>se\<in>set (replicate 3 mute_start). st_access se ''rs'' = Awake" by (simp add: mute_start_def)
  have "length (replicate 3 mute_start) = nat MAX_OWED_ATTEMPTS" by (simp add: MAX_OWED_ATTEMPTS_def)
  from residual_language_settles [OF reach files awake this]
  show "language_semantic_pass_done (w_ledger (next_starts (replicate 3 mute_start) ''rs'' residual_world)) ''rs''" .
qed

end
