(* ===== verification/Spec2Isabelle.thy ===== *)
theory Spec2Isabelle
  imports Qualified_Path Write_Correct File_Rows Staleness Traversal Import_Links Plugin_Sync Language_Swap Semantic_Runs
begin

text \<open>
  A verification of g-mesh (skeleton).
\<close>

end
